(* ===== verification/Prelude.thy ===== *)
theory Prelude
  imports Main "HOL-Library.Word" "HOL-Library.AList"
begin

text \<open>
  Shared vocabulary of the development: the machine types of the Go sources, the result type of
  fallible operations, signed reading of 64-bit words, association lists as Go maps that are
  iterated, and the lemma collections the component theories extend.

  A Go \<open>int64\<close> and a Go \<open>uint64\<close> are both a \<open>64 word\<close>: \<open>+\<close> and \<open>-\<close> wrap as in Go, the
  conversion \<open>int64(x)\<close> is the identity on the bits, an \<open>int64\<close> comparison reads the operands
  with \<open>sint\<close> and a \<open>uint64\<close> comparison uses the order of the word type. A Go \<open>time.Time\<close> is an
  \<open>int\<close> (nanoseconds), passed in where the code asks the clock.
\<close>

named_theorems account_simps \<open>reading of the signed credit counters\<close>
named_theorems alist_simps \<open>association lists under update and delete\<close>

section \<open>Machine types and results\<close>

type_synonym byte = "8 word"
type_synonym u32 = "32 word"
type_synonym u64 = "64 word"
type_synonym i64 = "64 word"
type_synonym time = int

text \<open>The length of a byte slice as the code converts it, \<open>int64(len(p))\<close>.\<close>

definition len64 :: "'a list \<Rightarrow> i64" where
  "len64 xs = of_nat (length xs)"

lemma unat_byte: "unat (b :: byte) < 256"
proof -
  have "unat b < 2 ^ LENGTH(8)" by (rule unsigned_less)
  then show ?thesis by simp
qed

lemma unat_pow2_64: "n < 64 \<Longrightarrow> unat ((2 :: u64) ^ n) = 2 ^ n"
proof -
  assume "n < 64"
  then have "(2::nat) ^ n < 2 ^ 64" by (rule power_strict_increasing) simp
  moreover have "(2 :: u64) ^ n = of_nat (2 ^ n)" by simp
  ultimately show ?thesis unfolding unat_of_nat \<open>(2 :: u64) ^ n = of_nat (2 ^ n)\<close> by simp
qed

lemma unat_len64: "length xs < 2 ^ 64 \<Longrightarrow> unat (len64 xs) = length xs"
  by (simp add: len64_def unat_of_nat)

section \<open>Signed arithmetic without overflow\<close>

lemma sint_add_64:
  fixes a b :: i64
  assumes "- (2 ^ 63) \<le> sint a + sint b" and "sint a + sint b < 2 ^ 63"
  shows "sint (a + b) = sint a + sint b"
  using assms by (simp add: sint_word_ariths signed_take_bit_int_eq_self)

lemma sint_sub_64:
  fixes a b :: i64
  assumes "- (2 ^ 63) \<le> sint a - sint b" and "sint a - sint b < 2 ^ 63"
  shows "sint (a - b) = sint a - sint b"
  using assms by (simp add: sint_word_ariths signed_take_bit_int_eq_self)

lemma sint_bounds_64:
  fixes a :: i64
  shows "- (2 ^ 63) \<le> sint a" and "sint a < 2 ^ 63"
  using sint_ge [of a] sint_lt [of a] by simp_all

text \<open>Subtracting a non-negative amount that does not exceed the positive part of the minuend.\<close>

lemma sint_sub_le:
  fixes a b :: i64
  assumes "0 \<le> sint b" and "sint b \<le> max 0 (sint a)"
  shows "sint (a - b) = sint a - sint b"
  using assms sint_bounds_64 [of a] sint_bounds_64 [of b]
  by (intro sint_sub_64) (auto simp: max_def split: if_splits)

lemma sint_len64:
  assumes "length xs < 2 ^ 63"
  shows "sint (len64 xs) = int (length xs)"
proof -
  have "sint (len64 xs) = signed_take_bit 63 (int (length xs))"
    by (simp add: len64_def signed_of_nat)
  also have "\<dots> = int (length xs)"
    using assms by (intro signed_take_bit_int_eq_self) auto
  finally show ?thesis .
qed

section \<open>Go maps that are iterated: association lists\<close>

definition distinct_keys :: "('k \<times> 'v) list \<Rightarrow> bool" where
  "distinct_keys al \<longleftrightarrow> distinct (map fst al)"

lemma distinct_keys_Nil [simp, intro]: "distinct_keys []"
  by (simp add: distinct_keys_def)

lemma distinct_keys_update [simp, intro]: "distinct_keys al \<Longrightarrow> distinct_keys (AList.update k v al)"
  by (simp add: distinct_keys_def distinct_update)

lemma distinct_keys_delete [simp, intro]: "distinct_keys al \<Longrightarrow> distinct_keys (AList.delete k al)"
  by (simp add: distinct_keys_def distinct_delete)

lemma distinct_keys_filter [simp, intro]: "distinct_keys al \<Longrightarrow> distinct_keys (filter P al)"
  by (simp add: distinct_keys_def distinct_map_filter)

lemma map_of_alist_update [alist_simps]: "map_of (AList.update k v al) = (map_of al)(k \<mapsto> v)"
  by (simp add: update_conv')

lemma map_of_alist_delete [alist_simps]: "map_of (AList.delete k al) = (map_of al)(k := None)"
  by (simp add: delete_conv')

lemma update_fresh: "map_of al k = None \<Longrightarrow> AList.update k v al = al @ [(k, v)]"
  by (induction al) (auto split: if_splits)

lemma delete_fresh: "map_of al k = None \<Longrightarrow> AList.delete k al = al"
  by (induction al) (auto split: if_splits)

lemma delete_update_fresh: "map_of al k = None \<Longrightarrow> AList.delete k (AList.update k v al) = al"
  by (induction al) (auto simp: delete_fresh split: if_splits)

lemma set_alist_update: "set (AList.update k v al) \<subseteq> insert (k, v) (set al)"
  by (induction al) auto

lemma set_alist_delete: "set (AList.delete k al) \<subseteq> set al"
  by (induction al) auto

lemma alist_update_all:
  assumes "\<forall>(k, s) \<in> set al. P k s" "P k v"
  shows "\<forall>(k, s) \<in> set (AList.update k v al). P k s"
  using assms set_alist_update [of k v al] by blast

lemma alist_delete_all:
  assumes "\<forall>(k, s) \<in> set al. P k s"
  shows "\<forall>(k, s) \<in> set (AList.delete k' al). P k s"
  using assms set_alist_delete [of k' al] by blast

lemma alist_keys_length: "distinct_keys al \<Longrightarrow> distinct q \<Longrightarrow> set q = fst ` set al \<Longrightarrow> length q = length al"
  by (metis distinct_card distinct_keys_def length_map list.set_map)

text \<open>The total weight of the entries of a map, in any commutative group.\<close>

definition weight :: "('v \<Rightarrow> 'n::ab_group_add) \<Rightarrow> ('k \<times> 'v) list \<Rightarrow> 'n" where
  "weight f al = sum_list (map (f \<circ> snd) al)"

lemma weight_Nil [simp]: "weight f [] = 0"
  by (simp add: weight_def)

lemma weight_Cons [simp]: "weight f (kv # al) = f (snd kv) + weight f al"
  by (simp add: weight_def)

lemma weight_append [simp]: "weight f (al @ bl) = weight f al + weight f bl"
  by (simp add: weight_def)

lemma weight_update_fresh: "map_of al k = None \<Longrightarrow> weight f (AList.update k v al) = weight f al + f v"
  by (simp add: update_fresh)

lemma weight_delete:
  assumes "distinct_keys al" and "map_of al k = Some v"
  shows "weight f (AList.delete k al) = weight f al - f v"
  using assms
proof (induction al)
  case (Cons kv al)
  show ?case
  proof (cases "fst kv = k")
    case True
    with Cons.prems(1) have "map_of al k = None"
      by (force simp: distinct_keys_def map_of_eq_None_iff)
    with True Cons.prems show ?thesis by (simp add: delete_fresh)
  next
    case False
    with Cons show ?thesis
      by (auto simp: distinct_keys_def algebra_simps split: if_splits)
  qed
qed simp

lemma weight_update_old:
  assumes "distinct_keys al" and "map_of al k = Some v"
  shows "weight f (AList.update k w al) = weight f al - f v + f w"
  using assms
proof (induction al)
  case (Cons kv al)
  then show ?case by (cases kv) (auto simp: distinct_keys_def algebra_simps split: if_splits)
qed simp

lemma map_of_filter_snd:
  assumes "distinct_keys al"
  shows "map_of (filter (\<lambda>(k, v). P v) al) k =
    (case map_of al k of None \<Rightarrow> None | Some v \<Rightarrow> if P v then Some v else None)"
  using assms
proof (induction al)
  case (Cons kv al)
  then show ?case
    by (cases kv) (auto simp: distinct_keys_def map_of_eq_None_iff split: option.splits)
qed simp

section \<open>The last elements of a list\<close>

definition last_n :: "nat \<Rightarrow> 'a list \<Rightarrow> 'a list" where
  "last_n c xs = drop (length xs - c) xs"

lemma length_last_n [simp]: "length (last_n c xs) = min c (length xs)"
  by (simp add: last_n_def)

lemma set_last_n: "set (last_n c xs) \<subseteq> set xs"
  by (simp add: last_n_def set_drop_subset)

lemma last_n_snoc:
  assumes "0 < c"
  shows "last_n c (xs @ [x]) = (if c < length (last_n c xs @ [x]) then tl (last_n c xs @ [x]) else last_n c xs @ [x])"
  using assms by (auto simp: last_n_def tl_drop drop_Suc [symmetric] Suc_diff_le)

lemma last_n_append_suffix: "length ys \<le> c \<Longrightarrow> \<exists>zs. last_n c (xs @ ys) = zs @ ys"
  by (auto simp: last_n_def)

lemma map_of_snoc_fresh: "k \<notin> fst ` set al \<Longrightarrow> map_of (al @ [(k, v)]) = (map_of al)(k \<mapsto> v)"
  by (induction al) (auto simp: fun_upd_twist)

lemma map_of_tl:
  assumes "distinct (map fst al)" "al \<noteq> []"
  shows "map_of (tl al) = (map_of al)(fst (hd al) := None)"
  using assms by (cases al) (auto simp: fun_eq_iff map_of_eq_None_iff)

section \<open>A credit account: the contract of both ends of the flow control\<close>

text \<open>
  Both ends keep an account with two dimensions (batches, bytes). Spending one batch of a given
  size succeeds exactly when both dimensions cover it, and then takes exactly that much.
  \<open>spend_all\<close> runs a list of spends and stops at the first refusal.
\<close>

fun spend_all :: "(u64 \<Rightarrow> i64 \<Rightarrow> 'a \<Rightarrow> 'a option) \<Rightarrow> (u64 \<times> i64) list \<Rightarrow> 'a \<Rightarrow> 'a option" where
  "spend_all sp [] a = Some a"
| "spend_all sp ((s, n) # xs) a = (case sp s n a of None \<Rightarrow> None | Some a' \<Rightarrow> spend_all sp xs a')"

locale credit_account =
  fixes avail :: "'a \<Rightarrow> int \<times> int"
    and invar :: "'a \<Rightarrow> bool"
    and spend :: "u64 \<Rightarrow> i64 \<Rightarrow> 'a \<Rightarrow> 'a option"
  assumes spend_ok: "\<lbrakk>invar a; 0 \<le> sint n; spend s n a = Some a'\<rbrakk> \<Longrightarrow>
      invar a' \<and> avail a' = (fst (avail a) - 1, snd (avail a) - sint n)"
    and spend_refused: "\<lbrakk>invar a; 0 \<le> sint n\<rbrakk> \<Longrightarrow>
      (spend s n a = None) = (fst (avail a) < 1 \<or> snd (avail a) < sint n)"
begin

lemma spend_all_spent:
  assumes "invar a" and "\<forall>x \<in> set xs. 0 \<le> sint (snd x)" and "spend_all spend xs a = Some a'"
  shows "invar a' \<and> fst (avail a') = fst (avail a) - int (length xs)
    \<and> snd (avail a') = snd (avail a) - (\<Sum>x\<leftarrow>xs. sint (snd x))"
  using assms
proof (induction xs arbitrary: a)
  case (Cons x xs)
  obtain s n where x: "x = (s, n)" by (cases x)
  with Cons.prems obtain a1 where a1: "spend s n a = Some a1" and run: "spend_all spend xs a1 = Some a'"
    by (auto split: option.splits)
  from Cons.prems x a1 have "invar a1" "avail a1 = (fst (avail a) - 1, snd (avail a) - sint n)"
    using spend_ok [of a n s a1] by auto
  with Cons.IH [of a1] Cons.prems run x show ?case by auto
qed simp

text \<open>No schedule of successful spends takes more than the account held.\<close>

lemma spend_all_bounded:
  assumes "invar a" and "\<forall>x \<in> set xs. 0 \<le> sint (snd x)" and "spend_all spend xs a = Some a'"
    and "xs \<noteq> []"
  shows "int (length xs) \<le> fst (avail a) \<and> (\<Sum>x\<leftarrow>xs. sint (snd x)) \<le> snd (avail a)"
  using assms
proof (induction xs arbitrary: a)
  case (Cons x xs)
  obtain s n where x: "x = (s, n)" by (cases x)
  with Cons.prems obtain a1 where a1: "spend s n a = Some a1" and run: "spend_all spend xs a1 = Some a'"
    by (auto split: option.splits)
  from Cons.prems x have n0: "0 \<le> sint n" by simp
  from Cons.prems(1) n0 a1 have inv1: "invar a1"
    and av: "avail a1 = (fst (avail a) - 1, snd (avail a) - sint n)"
    using spend_ok [of a n s a1] by auto
  from Cons.prems(1) n0 a1 have "1 \<le> fst (avail a)" "sint n \<le> snd (avail a)"
    using spend_refused [of a n s] by (auto simp: not_less)
  moreover have "xs \<noteq> [] \<Longrightarrow> int (length xs) \<le> fst (avail a1) \<and>
      (\<Sum>x\<leftarrow>xs. sint (snd x)) \<le> snd (avail a1)"
    using Cons.IH [of a1] inv1 run Cons.prems(2) by simp
  ultimately show ?case
    using av x by (cases "xs = []") auto
qed simp

end


section \<open>Chains of checks\<close>

text \<open>Go's \<open>if err := f(); err != nil { return err }\<close> and \<open>if bad { return err }\<close>: a chain passes when every check does.\<close>

lemma check_simps:
  "(case a of None \<Rightarrow> b | Some e \<Rightarrow> Some e) = None \<longleftrightarrow> a = None \<and> b = None"
  "(if c then Some e else b) = None \<longleftrightarrow> \<not> c \<and> b = None"
  by (simp_all split: option.splits)

end
