(* ===== verification/Errors.thy ===== *)
theory Errors
  imports Prelude
begin

text \<open>
  The wire registries: error codes (\<open>core/errors.go\<close>) and frame types (\<open>core/types.go\<close>), the
  library's error value with its wrapping chain, and the extraction of a code from a chain.
  An error keeps its code, the fixed part of its message and the error it wraps; the numbers and
  quoted inputs that the code formats into a message are left out.
\<close>

unbundle bit_operations_syntax

section \<open>Error codes\<close>

definition CodeOK :: u32 where "CodeOK = 0"
definition CodeAuthFailed :: u32 where "CodeAuthFailed = 10"
definition CodeUnsupportedProfile :: u32 where "CodeUnsupportedProfile = 12"
definition CodeUnsupportedCapability :: u32 where "CodeUnsupportedCapability = 13"
definition CodeBadHandshakeMessage :: u32 where "CodeBadHandshakeMessage = 14"
definition CodeBatchTooLarge :: u32 where "CodeBatchTooLarge = 20"
definition CodeBatchInvalid :: u32 where "CodeBatchInvalid = 21"
definition CodeDecompressLimit :: u32 where "CodeDecompressLimit = 22"
definition CodeEnvelopeOpenFail :: u32 where "CodeEnvelopeOpenFail = 23"
definition CodeWindowExceeded :: u32 where "CodeWindowExceeded = 24"
definition CodeStaleEpoch :: u32 where "CodeStaleEpoch = 25"
definition CodeLedgerDivergence :: u32 where "CodeLedgerDivergence = 26"
definition CodeResultLevelBad :: u32 where "CodeResultLevelBad = 27"
definition CodeAckModeBad :: u32 where "CodeAckModeBad = 28"
definition CodeCreditInvalid :: u32 where "CodeCreditInvalid = 29"
definition CodeHelloEphInvalid :: u32 where "CodeHelloEphInvalid = 30"
definition CodeHelloProofInvalid :: u32 where "CodeHelloProofInvalid = 31"
definition CodeServerDraining :: u32 where "CodeServerDraining = 32"
definition CodeInternal :: u32 where "CodeInternal = 40"
definition CodeUnavailable :: u32 where "CodeUnavailable = 41"
definition CodeProtocolError :: u32 where "CodeProtocolError = 42"

lemmas code_nums [simp] =
  CodeOK_def CodeAuthFailed_def CodeUnsupportedProfile_def CodeUnsupportedCapability_def
  CodeBadHandshakeMessage_def CodeBatchTooLarge_def CodeBatchInvalid_def CodeDecompressLimit_def
  CodeEnvelopeOpenFail_def CodeWindowExceeded_def CodeStaleEpoch_def CodeLedgerDivergence_def
  CodeResultLevelBad_def CodeAckModeBad_def CodeCreditInvalid_def CodeHelloEphInvalid_def
  CodeHelloProofInvalid_def CodeServerDraining_def CodeInternal_def CodeUnavailable_def
  CodeProtocolError_def

record ErrCode =
  Num :: u32
  Name :: string

definition ErrCodeOK :: ErrCode where "ErrCodeOK = \<lparr>Num = CodeOK, Name = ''ok''\<rparr>"
definition ErrCodeAuthFailed :: ErrCode where
  "ErrCodeAuthFailed = \<lparr>Num = CodeAuthFailed, Name = ''auth_failed''\<rparr>"
definition ErrCodeUnsupportedProfile :: ErrCode where
  "ErrCodeUnsupportedProfile = \<lparr>Num = CodeUnsupportedProfile, Name = ''unsupported_profile''\<rparr>"
definition ErrCodeUnsupportedCap :: ErrCode where
  "ErrCodeUnsupportedCap = \<lparr>Num = CodeUnsupportedCapability, Name = ''unsupported_capability''\<rparr>"
definition ErrCodeBadHandshake :: ErrCode where
  "ErrCodeBadHandshake = \<lparr>Num = CodeBadHandshakeMessage, Name = ''bad_handshake_message''\<rparr>"
definition ErrCodeBatchTooLarge :: ErrCode where
  "ErrCodeBatchTooLarge = \<lparr>Num = CodeBatchTooLarge, Name = ''batch_too_large''\<rparr>"
definition ErrCodeBatchInvalid :: ErrCode where
  "ErrCodeBatchInvalid = \<lparr>Num = CodeBatchInvalid, Name = ''batch_invalid''\<rparr>"
definition ErrCodeDecompressLimit :: ErrCode where
  "ErrCodeDecompressLimit = \<lparr>Num = CodeDecompressLimit, Name = ''decompress_limit''\<rparr>"
definition ErrCodeEnvelopeOpenFail :: ErrCode where
  "ErrCodeEnvelopeOpenFail = \<lparr>Num = CodeEnvelopeOpenFail, Name = ''envelope_open_failed''\<rparr>"
definition ErrCodeWindowExceeded :: ErrCode where
  "ErrCodeWindowExceeded = \<lparr>Num = CodeWindowExceeded, Name = ''window_exceeded''\<rparr>"
definition ErrCodeStaleEpoch :: ErrCode where
  "ErrCodeStaleEpoch = \<lparr>Num = CodeStaleEpoch, Name = ''stale_epoch''\<rparr>"
definition ErrCodeLedgerDivergence :: ErrCode where
  "ErrCodeLedgerDivergence = \<lparr>Num = CodeLedgerDivergence, Name = ''ledger_divergence''\<rparr>"
definition ErrCodeResultLevelBad :: ErrCode where
  "ErrCodeResultLevelBad = \<lparr>Num = CodeResultLevelBad, Name = ''result_level_bad''\<rparr>"
definition ErrCodeAckModeBad :: ErrCode where
  "ErrCodeAckModeBad = \<lparr>Num = CodeAckModeBad, Name = ''ack_mode_bad''\<rparr>"
definition ErrCodeCreditInvalid :: ErrCode where
  "ErrCodeCreditInvalid = \<lparr>Num = CodeCreditInvalid, Name = ''credit_invalid''\<rparr>"
definition ErrCodeHelloEphInvalid :: ErrCode where
  "ErrCodeHelloEphInvalid = \<lparr>Num = CodeHelloEphInvalid, Name = ''hello_eph_invalid''\<rparr>"
definition ErrCodeHelloProofInvalid :: ErrCode where
  "ErrCodeHelloProofInvalid = \<lparr>Num = CodeHelloProofInvalid, Name = ''hello_proof_invalid''\<rparr>"
definition ErrCodeServerDraining :: ErrCode where
  "ErrCodeServerDraining = \<lparr>Num = CodeServerDraining, Name = ''server_draining''\<rparr>"
definition ErrCodeInternal :: ErrCode where
  "ErrCodeInternal = \<lparr>Num = CodeInternal, Name = ''internal''\<rparr>"
definition ErrCodeUnavailable :: ErrCode where
  "ErrCodeUnavailable = \<lparr>Num = CodeUnavailable, Name = ''unavailable''\<rparr>"
definition ErrCodeProtocolError :: ErrCode where
  "ErrCodeProtocolError = \<lparr>Num = CodeProtocolError, Name = ''protocol_error''\<rparr>"
definition ErrCodeUnknown :: ErrCode where
  "ErrCodeUnknown = \<lparr>Num = NOT 0, Name = ''unknown''\<rparr>"

text \<open>Library-local classes, numbered downwards from the top of the range.\<close>

definition LocalConfig :: ErrCode where "LocalConfig = \<lparr>Num = NOT 0 - 1, Name = ''invalid_config''\<rparr>"
definition LocalSession :: ErrCode where "LocalSession = \<lparr>Num = NOT 0 - 2, Name = ''session_error''\<rparr>"
definition LocalBatch :: ErrCode where "LocalBatch = \<lparr>Num = NOT 0 - 3, Name = ''batch_error''\<rparr>"
definition LocalHandshake :: ErrCode where
  "LocalHandshake = \<lparr>Num = NOT 0 - 4, Name = ''handshake_error''\<rparr>"
definition LocalTransport :: ErrCode where
  "LocalTransport = \<lparr>Num = NOT 0 - 5, Name = ''transport_error''\<rparr>"
definition LocalTLS :: ErrCode where "LocalTLS = \<lparr>Num = NOT 0 - 6, Name = ''tls_error''\<rparr>"
definition LocalStream :: ErrCode where "LocalStream = \<lparr>Num = NOT 0 - 7, Name = ''stream_error''\<rparr>"
definition LocalCredential :: ErrCode where
  "LocalCredential = \<lparr>Num = NOT 0 - 8, Name = ''invalid_credential''\<rparr>"

lemmas errcode_defs =
  ErrCodeOK_def ErrCodeAuthFailed_def ErrCodeUnsupportedProfile_def ErrCodeUnsupportedCap_def
  ErrCodeBadHandshake_def ErrCodeBatchTooLarge_def ErrCodeBatchInvalid_def
  ErrCodeDecompressLimit_def ErrCodeEnvelopeOpenFail_def ErrCodeWindowExceeded_def
  ErrCodeStaleEpoch_def ErrCodeLedgerDivergence_def ErrCodeResultLevelBad_def
  ErrCodeAckModeBad_def ErrCodeCreditInvalid_def ErrCodeHelloEphInvalid_def
  ErrCodeHelloProofInvalid_def ErrCodeServerDraining_def ErrCodeInternal_def
  ErrCodeUnavailable_def ErrCodeProtocolError_def ErrCodeUnknown_def

lemmas localcode_defs =
  LocalConfig_def LocalSession_def LocalBatch_def LocalHandshake_def LocalTransport_def
  LocalTLS_def LocalStream_def LocalCredential_def

text \<open>The package variable \<open>codeRegistry\<close>, filled by \<open>init\<close> in the order of its list.\<close>

definition registered :: "ErrCode list" where
  "registered =
    [ErrCodeOK, ErrCodeAuthFailed, ErrCodeUnsupportedProfile, ErrCodeUnsupportedCap,
     ErrCodeBadHandshake, ErrCodeBatchTooLarge, ErrCodeBatchInvalid, ErrCodeDecompressLimit,
     ErrCodeEnvelopeOpenFail, ErrCodeWindowExceeded, ErrCodeStaleEpoch, ErrCodeLedgerDivergence,
     ErrCodeResultLevelBad, ErrCodeAckModeBad, ErrCodeCreditInvalid, ErrCodeHelloEphInvalid,
     ErrCodeHelloProofInvalid, ErrCodeServerDraining, ErrCodeInternal, ErrCodeUnavailable,
     ErrCodeProtocolError]"

definition codeRegistry :: "u32 \<rightharpoonup> ErrCode" where
  "codeRegistry = foldl (\<lambda>m e. m(Num e \<mapsto> e)) Map.empty registered"

definition CodeName :: "u32 \<Rightarrow> string" where
  "CodeName c = (case codeRegistry c of Some e \<Rightarrow> Name e | None \<Rightarrow> Name ErrCodeUnknown)"

section \<open>Error values\<close>

text \<open>
  \<open>GoErr\<close> is the library's \<open>*Error\<close> (code, message, wrapped error); \<open>OtherErr\<close> is any other
  error value, which may itself wrap one (\<open>fmt.Errorf\<close> with the wrapping verb).
\<close>

datatype go_err = GoErr ErrCode string "go_err option" | OtherErr string "go_err option"

type_synonym 'a res = "go_err + 'a"

definition NewError :: "ErrCode \<Rightarrow> string \<Rightarrow> go_err" where
  "NewError c msg = GoErr c msg None"

definition WrapError :: "ErrCode \<Rightarrow> string \<Rightarrow> go_err \<Rightarrow> go_err" where
  "WrapError c msg e = GoErr c msg (Some e)"

text \<open>\<open>errors.As\<close> with target \<open>*Error\<close>: the first library error of the chain.\<close>

fun asError :: "go_err \<Rightarrow> ErrCode option" where
  "asError (GoErr c _ _) = Some c"
| "asError (OtherErr _ None) = None"
| "asError (OtherErr _ (Some e)) = asError e"

definition CodeNumOf :: "go_err option \<Rightarrow> u32" where
  "CodeNumOf err = (case err of None \<Rightarrow> Num ErrCodeUnknown
     | Some e \<Rightarrow> (case asError e of Some c \<Rightarrow> Num c | None \<Rightarrow> Num ErrCodeUnknown))"

definition CodeOf :: "go_err option \<Rightarrow> string" where
  "CodeOf err = (case err of None \<Rightarrow> []
     | Some e \<Rightarrow> (case asError e of Some c \<Rightarrow> Name c | None \<Rightarrow> []))"

lemma CodeNumOf_New [simp]: "CodeNumOf (Some (NewError c m)) = Num c"
  by (simp add: CodeNumOf_def NewError_def)

lemma CodeNumOf_Wrap [simp]: "CodeNumOf (Some (WrapError c m e)) = Num c"
  by (simp add: CodeNumOf_def WrapError_def)

section \<open>Frame types\<close>

definition TypeHello :: byte where "TypeHello = 0x01"
definition TypeHelloAck :: byte where "TypeHelloAck = 0x02"
definition TypeHelloNak :: byte where "TypeHelloNak = 0x03"
definition TypeResult :: byte where "TypeResult = 0x20"
definition TypeCredit :: byte where "TypeCredit = 0x21"
definition TypeDict :: byte where "TypeDict = 0x22"
definition TypePing :: byte where "TypePing = 0x30"
definition TypePong :: byte where "TypePong = 0x31"
definition TypeClose :: byte where "TypeClose = 0x40"
definition TypeRedirect :: byte where "TypeRedirect = 0x41"
definition TypeAbort :: byte where "TypeAbort = 0x50"
definition TypeCommand :: byte where "TypeCommand = 0x23"
definition TypeCommandAck :: byte where "TypeCommandAck = 0x24"
definition TypeDgram :: byte where "TypeDgram = 0x90"
definition TypeBatch :: byte where "TypeBatch = 0x91"

lemmas frame_types [simp] =
  TypeHello_def TypeHelloAck_def TypeHelloNak_def TypeResult_def TypeCredit_def TypeDict_def
  TypePing_def TypePong_def TypeClose_def TypeRedirect_def TypeAbort_def TypeCommand_def
  TypeCommandAck_def TypeDgram_def TypeBatch_def

definition control_types :: "byte list" where
  "control_types = [TypeHello, TypeHelloAck, TypeHelloNak, TypeResult, TypeCredit, TypeDict,
     TypePing, TypePong, TypeClose, TypeRedirect, TypeAbort, TypeCommand, TypeCommandAck]"

definition data_types :: "byte list" where
  "data_types = [TypeDgram, TypeBatch]"

definition IsControlType :: "byte \<Rightarrow> bool" where
  "IsControlType t \<longleftrightarrow> t AND 0x80 = 0"

definition IsDataType :: "byte \<Rightarrow> bool" where
  "IsDataType t \<longleftrightarrow> t AND 0x80 \<noteq> 0"

section \<open>Properties\<close>

lemma foldl_registry:
  assumes "distinct (map Num es)" and "\<forall>e \<in> set es. m (Num e) = None"
  shows "foldl (\<lambda>m e. m(Num e \<mapsto> e)) m es c =
    (case List.find (\<lambda>e. Num e = c) es of Some e \<Rightarrow> Some e | None \<Rightarrow> m c)"
  using assms
proof (induction es arbitrary: m)
  case (Cons e es)
  have "foldl (\<lambda>m e. m(Num e \<mapsto> e)) (m(Num e \<mapsto> e)) es c =
    (case List.find (\<lambda>e. Num e = c) es of Some e \<Rightarrow> Some e | None \<Rightarrow> (m(Num e \<mapsto> e)) c)"
    using Cons.prems by (intro Cons.IH) (auto, metis image_eqI)
  moreover have "List.find (\<lambda>e'. Num e' = c) es = None" if "Num e = c"
    using Cons.prems(1) that by (force simp: find_None_iff image_iff)
  ultimately show ?case 
    by (cases "Num e = c") (simp_all add: fun_upd_same fun_upd_other del: fun_upd_apply split: option.splits)
qed simp

lemma registered_distinct: "distinct (map Num registered)"
  by (simp add: registered_def errcode_defs)

lemma codeRegistry_find: "codeRegistry c = List.find (\<lambda>e. Num e = c) registered"
  using foldl_registry [OF registered_distinct, of Map.empty c]
  by (simp add: codeRegistry_def split: option.splits)

lemma find_key_in:
  "distinct (map f es) \<Longrightarrow> e \<in> set es \<Longrightarrow> List.find (\<lambda>x. f x = f e) es = Some e"
  by (induction es) force+

text \<open>
  The code registry is a faithful inverse of the code constants: every registered code is
  found again under its number and named by \<open>CodeName\<close>, and none of the library-local classes
  shares a number with a wire code, so each of them is reported as unknown.
\<close>

theorem CodeName_registry:
  "(\<forall>e \<in> set registered. codeRegistry (Num e) = Some e \<and> CodeName (Num e) = Name e)
   \<and> (\<forall>e \<in> set [LocalConfig, LocalSession, LocalBatch, LocalHandshake, LocalTransport, LocalTLS,
        LocalStream, LocalCredential, ErrCodeUnknown].
        codeRegistry (Num e) = None \<and> CodeName (Num e) = ''unknown'')"
proof -
  have "codeRegistry (Num e) = Some e" if "e \<in> set registered" for e
    using that find_key_in [OF registered_distinct] by (simp add: codeRegistry_find)
  moreover have "\<forall>e \<in> set [LocalConfig, LocalSession, LocalBatch, LocalHandshake, LocalTransport,
      LocalTLS, LocalStream, LocalCredential, ErrCodeUnknown]. codeRegistry (Num e) = None"
    by (simp add: codeRegistry_find registered_def errcode_defs localcode_defs)
  ultimately show ?thesis by (simp add: CodeName_def ErrCodeUnknown_def)
qed

theorem CodeName_registry_witness:
  "CodeName CodeWindowExceeded = ''window_exceeded'' \<and> CodeName (Num LocalStream) = ''unknown''"
  using CodeName_registry by (simp add: registered_def ErrCodeWindowExceeded_def)

text \<open>
  The high bit of a frame type decides its channel: every type is control or data and never
  both, the registered control types are in the control half and \<open>BATCH\<close> and \<open>DGRAM\<close> in the
  data half, so the demultiplexer of the TCP binding routes each registered frame to its channel.
\<close>

theorem channel_split:
  "IsControlType t = (\<not> IsDataType t)
   \<and> IsControlType t = (unat t < 128)
   \<and> list_all IsControlType control_types \<and> list_all IsDataType data_types
   \<and> distinct (control_types @ data_types)"
proof -
  have "(t AND 0x80 = 0) = (\<not> bit t 7)"
    using and_exp_eq_0_iff_not_bit [of t 7] by simp
  moreover have "bit t 7 = (128 \<le> unat t)"
  proof -
    have "unat t < 256" using unsigned_less [of t] by simp
    then have "unat t div 128 < 2" by auto
    then have "odd (unat t div 128) = (unat t div 128 = 1)" by (auto simp: numeral_2_eq_2 less_Suc_eq)
    moreover have "(unat t div 128 = 1) = (128 \<le> unat t)" using \<open>unat t < 256\<close> by auto
    moreover have "bit t 7 = odd (unat t div 128)"
      using bit_unsigned_iff [where 'a = nat, of t 7] by (simp add: bit_iff_odd)
    ultimately show ?thesis by simp
  qed
  ultimately show ?thesis
    by (simp add: IsControlType_def IsDataType_def control_types_def data_types_def not_le)
qed

end
