(* ===== verification/Frame.thy ===== *)
theory Frame
  imports Errors
begin

text \<open>
  The frame codec, \<open>core/frame.go\<close>: \<open>[type(1)][flags(1)][varint length][payload]\<close> on a byte stream.

  A reader is the sequence of what its \<open>Read\<close> calls will yield: bytes and, between them, errors (an
  expired deadline, a reset); the end of the sequence is end of file. How the bytes are cut into
  chunks is not visible to \<open>io.ReadFull\<close> and \<open>io.CopyN\<close>, which loop, so it is not represented. A
  writer is its output so far and the answers of its coming \<open>Write\<close> calls. The varint functions of
  the \<open>protowire\<close> package are parameters; the locale \<open>protowire\<close> states its documented wire format,
  base 128 with the least significant group first. Operands formatted into error messages are left out.
\<close>

section \<open>Readers and writers\<close>

datatype rev = RByte byte | RErr string

fun take_bytes :: "nat \<Rightarrow> rev list \<Rightarrow> byte list \<times> string option \<times> rev list" where
  "take_bytes 0 s = ([], None, s)"
| "take_bytes (Suc n) [] = ([], Some ''EOF'', [])"
| "take_bytes (Suc n) (RErr e # s) = ([], Some e, s)"
| "take_bytes (Suc n) (RByte b # s) = (case take_bytes n s of (bs, e, r) \<Rightarrow> (b # bs, e, r))"

definition io_ReadFull :: "nat \<Rightarrow> rev list \<Rightarrow> byte list \<times> go_err option \<times> rev list" where
  "io_ReadFull n s = (case take_bytes n s of
      (bs, None, r) \<Rightarrow> (bs, None, r)
    | (bs, Some e, r) \<Rightarrow>
        (bs, Some (OtherErr (if e = ''EOF'' \<and> bs \<noteq> [] then ''unexpected EOF'' else e) None), r))"

definition io_Discard :: "nat \<Rightarrow> rev list \<Rightarrow> rev list" where
  "io_Discard n s = snd (snd (take_bytes n s))"

text \<open>An answer of \<open>Write\<close>: everything taken, an error after some bytes, or a silent short write.\<close>

datatype wans = WAll | WFail nat string | WShort nat

record Writer =
  w_out :: "byte list"
  w_ans :: "wans list"

definition io_Write :: "byte list \<Rightarrow> Writer \<Rightarrow> nat \<times> go_err option \<times> Writer" where
  "io_Write p w = (case w_ans w of
      [] \<Rightarrow> (length p, None, w\<lparr>w_out := w_out w @ p\<rparr>)
    | WAll # as \<Rightarrow> (length p, None, w\<lparr>w_out := w_out w @ p, w_ans := as\<rparr>)
    | WFail k e # as \<Rightarrow>
        (min k (length p), Some (OtherErr e None), w\<lparr>w_out := w_out w @ take k p, w_ans := as\<rparr>)
    | WShort k # as \<Rightarrow> (min k (length p), None, w\<lparr>w_out := w_out w @ take k p, w_ans := as\<rparr>))"

section \<open>Data and constants\<close>

record Header =
  Flags :: byte
  Type :: byte
  Length :: u64

record Frame =
  Header_of :: Header
  Payload :: "byte list"

record FrameLimits =
  fl_MaxFrameBytes :: u64

definition FixedHeaderSz :: nat where "FixedHeaderSz = 2"
definition MaxFrameBytes :: u64 where "MaxFrameBytes = push_bit 20 16"
definition maxVarintLen :: nat where "maxVarintLen = 10"

lemma MaxFrameBytes_val [simp]: "MaxFrameBytes = 16777216"
  by (simp add: MaxFrameBytes_def push_bit_eq_mult)

definition DefaultLimits :: FrameLimits where
  "DefaultLimits = \<lparr>fl_MaxFrameBytes = MaxFrameBytes\<rparr>"

section \<open>Writing\<close>

definition writeFull :: "byte list \<Rightarrow> Writer \<Rightarrow> go_err option \<times> Writer" where
  "writeFull p w = (case io_Write p w of (n, err, w') \<Rightarrow>
     (case err of
        Some e \<Rightarrow> (Some e, w')
      | None \<Rightarrow> if n \<noteq> length p then (Some (OtherErr ''short write'' None), w') else (None, w')))"

text \<open>
  \<open>putVarint\<close> appends into the caller's buffer; when the encoding fits, it is the buffer's prefix,
  otherwise the append goes to a new array and the buffer keeps its content.
\<close>

definition putVarint :: "(u64 \<Rightarrow> byte list) \<Rightarrow> byte list \<Rightarrow> u64 \<Rightarrow> byte list \<times> nat" where
  "putVarint appendVarint buf v =
    (let enc = appendVarint v
     in (if length enc \<le> length buf then enc @ drop (length enc) buf else buf, length enc))"

definition Write :: "(u64 \<Rightarrow> byte list) \<Rightarrow> byte \<Rightarrow> byte \<Rightarrow> byte list \<Rightarrow> Writer \<Rightarrow> go_err option \<times> Writer" where
  "Write appendVarint typ flags payload w =
    (if flags \<noteq> 0 then (Some (NewError ErrCodeProtocolError ''non-zero flags (all reserved)''), w)
     else if MaxFrameBytes < len64 payload then
       (Some (NewError ErrCodeProtocolError ''payload exceeds max frame size''), w)
     else
       let hdr = [typ, flags];
           (lenBuf, lenN) = putVarint appendVarint (replicate maxVarintLen 0) (len64 payload)
       in case writeFull hdr w of
            (Some e, w1) \<Rightarrow> (Some (WrapError ErrCodeProtocolError ''write header'' e), w1)
          | (None, w1) \<Rightarrow>
              (case writeFull (take lenN lenBuf) w1 of
                 (Some e, w2) \<Rightarrow> (Some (WrapError ErrCodeProtocolError ''write length'' e), w2)
               | (None, w2) \<Rightarrow>
                   if 0 < length payload then
                     (case writeFull payload w2 of
                        (Some e, w3) \<Rightarrow> (Some (WrapError ErrCodeProtocolError ''write payload'' e), w3)
                      | (None, w3) \<Rightarrow> (None, w3))
                   else (None, w2)))"

section \<open>Reading\<close>

text \<open>The loop of \<open>readVarint\<close> with its counter \<open>i\<close> and the bytes read so far.\<close>

function readVarint_loop :: "(byte list \<Rightarrow> u64 \<times> int) \<Rightarrow> nat \<Rightarrow> byte list \<Rightarrow> rev list \<Rightarrow> u64 res \<times> rev list" where
  "readVarint_loop consumeVarint i encoded s =
    (if maxVarintLen \<le> i then (Inl (OtherErr ''varint: too long'' None), s)
     else case io_ReadFull 1 s of
       (_, Some _, s') \<Rightarrow> (Inl (OtherErr ''varint: short read'' None), s')
     | (bs, None, s') \<Rightarrow>
         let b = hd bs; encoded' = encoded @ [b]
         in if b AND 0x80 = 0 then
              (let (v, n) = consumeVarint encoded'
               in if n \<le> 0 then (Inl (OtherErr ''varint: decode failed'' None), s')
                  else if 0 < i \<and> v < push_bit (7 * i) 1 then
                    (Inl (OtherErr ''varint: non-canonical encoding'' None), s')
                  else (Inr v, s'))
            else readVarint_loop consumeVarint (i + 1) encoded' s')"
  by pat_completeness auto
termination
  by (relation "measure (\<lambda>(_, i, _, _). maxVarintLen - i)") auto

declare readVarint_loop.simps [simp del]

definition readVarint :: "(byte list \<Rightarrow> u64 \<times> int) \<Rightarrow> rev list \<Rightarrow> u64 res \<times> rev list" where
  "readVarint consumeVarint s = readVarint_loop consumeVarint 0 [] s"

definition Read :: "(byte list \<Rightarrow> u64 \<times> int) \<Rightarrow> FrameLimits \<Rightarrow> rev list \<Rightarrow> Frame res \<times> rev list" where
  "Read consumeVarint lim s =
    (case io_ReadFull FixedHeaderSz s of
       (_, Some e, s1) \<Rightarrow> (Inl (WrapError ErrCodeProtocolError ''read header'' e), s1)
     | (hdr, None, s1) \<Rightarrow>
         let typ = hdr ! 0; flags = hdr ! 1
         in if flags \<noteq> 0 then (Inl (NewError ErrCodeProtocolError ''non-zero flags''), s1)
            else case readVarint consumeVarint s1 of
              (Inl e, s2) \<Rightarrow> (Inl (WrapError ErrCodeProtocolError ''read length'' e), s2)
            | (Inr len, s2) \<Rightarrow>
                let maxLen = (if fl_MaxFrameBytes lim = 0 then MaxFrameBytes else fl_MaxFrameBytes lim)
                in if maxLen < len then (Inl (NewError ErrCodeProtocolError ''frame too large''), s2)
                   else if 0 < len then
                     (case io_ReadFull (unat len) s2 of
                        (bs, Some e, s3) \<Rightarrow>
                          (let remaining = sint len - int (length bs)
                           in (Inl (WrapError ErrCodeProtocolError ''read payload'' e),
                               if 0 < remaining then io_Discard (nat remaining) s3 else s3))
                      | (bs, None, s3) \<Rightarrow>
                          (Inr \<lparr>Header_of = \<lparr>Flags = flags, Type = typ, Length = len\<rparr>, Payload = bs\<rparr>, s3))
                   else (Inr \<lparr>Header_of = \<lparr>Flags = flags, Type = typ, Length = len\<rparr>, Payload = []\<rparr>, s2))"

text \<open>
  \<open>ReadFrameCtxLimit\<close>: the context is what it reports before the read, its deadline, whether it can be
  cancelled and what it reports afterwards; \<open>fired\<close> is the time at which the watcher goroutine expired
  the read, if it did. The second component logs the read deadlines set (\<open>None\<close> is the zero time).
\<close>

record Ctx =
  ctx_err_before :: "go_err option"
  ctx_deadline :: "time option"
  ctx_cancellable :: bool
  ctx_err_after :: "go_err option"

definition DefaultReadTimeout :: time where "DefaultReadTimeout = 5 * 60 * 10 ^ 9"

definition ReadFrameCtxLimit ::
    "(byte list \<Rightarrow> u64 \<times> int) \<Rightarrow> Ctx \<Rightarrow> time \<Rightarrow> go_err option \<Rightarrow> time option \<Rightarrow> FrameLimits \<Rightarrow> rev list
      \<Rightarrow> Frame res \<times> time option list \<times> rev list" where
  "ReadFrameCtxLimit consumeVarint ctx now setErr fired lim s =
    (case ctx_err_before ctx of
       Some e \<Rightarrow> (Inl e, [], s)
     | None \<Rightarrow>
         let dl = (case ctx_deadline ctx of Some d \<Rightarrow> d | None \<Rightarrow> now + DefaultReadTimeout)
         in case setErr of
              Some e \<Rightarrow> (Inl (WrapError LocalStream ''set read deadline'' e), [Some dl], s)
            | None \<Rightarrow>
                (let watch = (if ctx_cancellable ctx then (case fired of Some t \<Rightarrow> [Some t] | None \<Rightarrow> []) else []);
                     (f, s') = Read consumeVarint lim s
                 in (case f of
                       Inl _ \<Rightarrow> (case ctx_err_after ctx of Some e \<Rightarrow> Inl e | None \<Rightarrow> f)
                     | Inr _ \<Rightarrow> f,
                     Some dl # watch @ [None], s')))"

definition ReadFrameCtx ::
    "(byte list \<Rightarrow> u64 \<times> int) \<Rightarrow> Ctx \<Rightarrow> time \<Rightarrow> go_err option \<Rightarrow> time option \<Rightarrow> rev list
      \<Rightarrow> Frame res \<times> time option list \<times> rev list" where
  "ReadFrameCtx consumeVarint ctx now setErr fired s =
    ReadFrameCtxLimit consumeVarint ctx now setErr fired DefaultLimits s"

section \<open>The wire format of varints\<close>

text \<open>The value of a sequence of 7-bit groups, least significant first, and the shape of an encoding.\<close>

fun varint_val :: "byte list \<Rightarrow> nat" where
  "varint_val [] = 0"
| "varint_val (b # bs) = unat b mod 128 + 128 * varint_val bs"

definition varint_shape :: "byte list \<Rightarrow> bool" where
  "varint_shape bs \<longleftrightarrow> bs \<noteq> [] \<and> (\<forall>b \<in> set (butlast bs). b AND 0x80 \<noteq> 0) \<and> last bs AND 0x80 = 0"

definition minimal :: "byte list \<Rightarrow> bool" where
  "minimal bs \<longleftrightarrow> 1 < length bs \<longrightarrow> 2 ^ (7 * (length bs - 1)) \<le> varint_val bs"

lemma high_bit: "(b :: byte) AND 0x80 = 0 \<longleftrightarrow> unat b < 128"
proof -
  have "b AND 0x80 = 0 \<longleftrightarrow> \<not> bit b 7"
    using and_exp_eq_0_iff_not_bit [of b 7] by simp
  also have "\<dots> \<longleftrightarrow> \<not> bit (unat b) 7"
    using bit_unsigned_iff [where 'a = nat, of b 7] by simp
  also have "\<dots> \<longleftrightarrow> \<not> odd (unat b div 128)"
    by (simp add: bit_iff_odd)
  also have "unat b div 128 = (if unat b < 128 then 0 else 1)"
    using unat_byte [of b] by (simp add: div_nat_eqI)
  then have "\<not> odd (unat b div 128) \<longleftrightarrow> unat b < 128" by simp
  finally show ?thesis .
qed

lemma varint_val_bound: "varint_val bs < 128 ^ length bs"
proof (induction bs)
  case (Cons b bs)
  have "unat b mod 128 + 128 * varint_val bs < 128 * (varint_val bs + 1)" by simp
  also have "\<dots> \<le> 128 * 128 ^ length bs" using Cons by (intro mult_le_mono2) simp
  finally show ?case by simp
qed simp

lemma varint_shape_Cons: "bs \<noteq> [] \<Longrightarrow> varint_shape (b # bs) \<longleftrightarrow> 128 \<le> unat b \<and> varint_shape bs"
  by (auto simp: varint_shape_def high_bit not_less)

lemma varint_shape_single: "varint_shape [b] \<longleftrightarrow> unat b < 128"
  by (simp add: varint_shape_def high_bit)

lemma group_inj: "a < 128 \<Longrightarrow> b < 128 \<Longrightarrow> a + 128 * A = b + 128 * B \<Longrightarrow> a = b \<and> A = (B::nat)"
proof -
  assume lt: "a < 128" "b < 128" and eq: "a + 128 * A = b + 128 * B"
  have "a = (a + 128 * A) mod 128" "b = (b + 128 * B) mod 128" using lt by simp_all
  with eq have "a = b" by simp
  with eq show ?thesis by simp
qed

lemma varint_inj:
  assumes "varint_shape xs" "varint_shape ys" "length xs = length ys" "varint_val xs = varint_val ys"
  shows "xs = ys"
  using assms(3,1,2,4)
proof (induction xs ys rule: list_induct2)
  case (Cons x xs y ys)
  have low: "unat x mod 128 = unat y mod 128" and rest: "varint_val xs = varint_val ys"
    using group_inj [OF _ _ Cons.prems(3) [unfolded varint_val.simps]] by simp_all
  have "unat x = unat y"
  proof (cases "xs = []")
    case True
    with Cons low show ?thesis by (simp add: varint_shape_single)
  next
    case False
    with Cons have "128 \<le> unat x" "128 \<le> unat y" by (auto simp: varint_shape_Cons simp flip: length_greater_0_conv)
    with unat_byte [of x] unat_byte [of y]
    have "unat x mod 128 = unat x - 128" "unat y mod 128 = unat y - 128" by (simp_all add: mod_if)
    with low \<open>128 \<le> unat x\<close> \<open>128 \<le> unat y\<close> show ?thesis by simp
  qed
  moreover have "xs = ys"
    using Cons rest by (cases "xs = []") (auto simp: varint_shape_Cons simp flip: length_greater_0_conv)
  ultimately show ?case by (simp add: word_unat_eq_iff)
qed simp

lemma minimal_length:
  assumes "minimal ys" "varint_val xs = varint_val ys"
  shows "length ys \<le> max 1 (length xs)"
proof (rule ccontr)
  assume a: "\<not> length ys \<le> max 1 (length xs)"
  then have "2 ^ (7 * (length ys - 1)) \<le> varint_val xs" using assms by (simp add: minimal_def)
  moreover have "(128::nat) ^ length xs \<le> 128 ^ (length ys - 1)" using a by (intro power_increasing) auto
  moreover have "(128::nat) ^ (length ys - 1) = 2 ^ (7 * (length ys - 1))" by (simp add: power_mult)
  ultimately show False using varint_val_bound [of xs] by linarith
qed

text \<open>A minimal encoding is determined by its value.\<close>

lemma minimal_unique:
  assumes "varint_shape xs" "varint_shape ys" "minimal xs" "minimal ys" "varint_val xs = varint_val ys"
  shows "xs = ys"
proof (rule varint_inj [OF assms(1,2) _ assms(5)])
  have "1 \<le> length xs" "1 \<le> length ys" using assms(1,2) by (auto simp: varint_shape_def Suc_le_eq)
  with minimal_length [OF assms(3), of ys] minimal_length [OF assms(4), of xs] assms(5)
  show "length xs = length ys" by simp
qed

section \<open>Reading back what was written\<close>

lemma take_bytes_all [simp]: "take_bytes (length bs) (map RByte bs @ s) = (bs, None, s)"
  by (induction bs) auto

lemma io_ReadFull_all: "n = length bs \<Longrightarrow> io_ReadFull n (map RByte bs @ s) = (bs, None, s)"
  by (simp add: io_ReadFull_def)

lemma take_bytes_None: "take_bytes n s = (bs, None, r) \<Longrightarrow> s = map RByte bs @ r \<and> length bs = n"
  by (induction n s arbitrary: bs rule: take_bytes.induct) (auto split: prod.splits)

lemma io_ReadFull_None: "io_ReadFull n s = (bs, None, r) \<Longrightarrow> s = map RByte bs @ r \<and> length bs = n"
  by (auto simp: io_ReadFull_def split: prod.splits option.splits dest: take_bytes_None)

text \<open>What the loop of \<open>readVarint\<close> answers on a complete encoding, and what it must have read.\<close>

definition varint_verdict :: "(byte list \<Rightarrow> u64 \<times> int) \<Rightarrow> byte list \<Rightarrow> u64 res" where
  "varint_verdict consumeVarint bs =
    (let (v, n) = consumeVarint bs
     in if n \<le> 0 then Inl (OtherErr ''varint: decode failed'' None)
        else if 1 < length bs \<and> v < push_bit (7 * (length bs - 1)) 1 then
          Inl (OtherErr ''varint: non-canonical encoding'' None)
        else Inr v)"

lemma io_ReadFull_1 [simp]:
  "io_ReadFull (Suc 0) (RByte b # s) = ([b], None, s)"
  "io_ReadFull (Suc 0) [] = ([], Some (OtherErr ''EOF'' None), [])"
  "io_ReadFull (Suc 0) (RErr e # s) = ([], Some (OtherErr e None), s)"
  by (simp_all add: io_ReadFull_def)

lemma readVarint_loop_step:
  assumes "length enc < 10"
  shows "readVarint_loop cv (length enc) enc (RByte b # s) =
    (if b AND 0x80 = 0 then (varint_verdict cv (enc @ [b]), s)
     else readVarint_loop cv (length (enc @ [b])) (enc @ [b]) s)"
  using assms unfolding readVarint_loop.simps [of cv "length enc" enc "RByte b # s"]
  by (simp add: Let_def varint_verdict_def maxVarintLen_def case_prod_beta)

lemma readVarint_loop_short:
  "readVarint_loop cv i enc [] \<noteq> (Inr v, r)" "readVarint_loop cv i enc (RErr e # s) \<noteq> (Inr v, r)"
  by (simp_all add: readVarint_loop.simps [of cv i enc])

lemma readVarint_loop_ok:
  assumes "varint_shape bs" "length enc + length bs \<le> 10"
  shows "readVarint_loop cv (length enc) enc (map RByte bs @ s) = (varint_verdict cv (enc @ bs), s)"
  using assms
proof (induction bs arbitrary: enc)
  case (Cons b bs)
  show ?case
  proof (cases "bs = []")
    case True
    with Cons.prems show ?thesis
      by (simp add: readVarint_loop_step maxVarintLen_def high_bit varint_shape_single)
  next
    case False
    with Cons.prems have "varint_shape bs" "128 \<le> unat b" by (auto simp: varint_shape_Cons)
    with Cons.IH [of "enc @ [b]"] Cons.prems False show ?thesis
      by (simp add: readVarint_loop_step maxVarintLen_def high_bit)
  qed
qed (simp add: varint_shape_def)

lemma readVarint_loop_inv:
  assumes "readVarint_loop cv (length enc) enc s = (Inr v, r)" "length enc \<le> 10"
  shows "\<exists>bs. s = map RByte bs @ r \<and> varint_shape bs \<and> length enc + length bs \<le> 10 \<and>
    varint_verdict cv (enc @ bs) = Inr v"
  using assms
proof (induction "10 - length enc" arbitrary: enc s)
  case 0
  then show ?case by (simp add: readVarint_loop.simps maxVarintLen_def)
next
  case (Suc k)
  then have lt: "length enc < 10" by simp
  from Suc.prems(1) obtain b s' where s: "s = RByte b # s'"
    using readVarint_loop_short by (metis list.exhaust rev.exhaust)
  show ?case
  proof (cases "b AND 0x80 = 0")
    case True
    with Suc.prems lt s have "varint_verdict cv (enc @ [b]) = Inr v" "s' = r"
      by (simp_all add: readVarint_loop_step maxVarintLen_def)
    with True lt s show ?thesis by (intro exI [of _ "[b]"]) (simp add: varint_shape_def)
  next
    case False
    with Suc.prems lt s have "readVarint_loop cv (length (enc @ [b])) (enc @ [b]) s' = (Inr v, r)"
      by (simp add: readVarint_loop_step maxVarintLen_def)
    moreover have "k = 10 - length (enc @ [b])" "length (enc @ [b]) \<le> 10" using Suc.hyps(2) lt by simp_all
    ultimately obtain bs where
      bs: "s' = map RByte bs @ r" "varint_shape bs" "length enc + 1 + length bs \<le> 10"
        "varint_verdict cv (enc @ b # bs) = Inr v" using Suc.hyps(1) [of "enc @ [b]" s'] by auto
    moreover have "bs \<noteq> []" using bs(2) by (auto simp: varint_shape_def)
    ultimately show ?thesis
      using False s by (intro exI [of _ "b # bs"]) (simp add: varint_shape_Cons high_bit)
  qed
qed

section \<open>The interface to the varint package\<close>

text \<open>The bytes of one frame on the wire, and the limit a reader applies.\<close>

definition encode_frame :: "(u64 \<Rightarrow> byte list) \<Rightarrow> byte \<Rightarrow> byte list \<Rightarrow> byte list" where
  "encode_frame appendVarint typ payload = [typ, 0] @ appendVarint (len64 payload) @ payload"

definition frame_of :: "byte \<Rightarrow> byte list \<Rightarrow> Frame" where
  "frame_of typ payload = \<lparr>Header_of = \<lparr>Flags = 0, Type = typ, Length = len64 payload\<rparr>, Payload = payload\<rparr>"

definition read_max :: "FrameLimits \<Rightarrow> nat" where
  "read_max lim = unat (if fl_MaxFrameBytes lim = 0 then MaxFrameBytes else fl_MaxFrameBytes lim)"

lemma read_max_less: "read_max lim < 2 ^ 64"
proof -
  have "unat w < 2 ^ LENGTH(64)" for w :: u64 by (rule unsigned_less)
  then show ?thesis by (simp add: read_max_def)
qed

locale protowire =
  fixes appendVarint :: "u64 \<Rightarrow> byte list"
    and consumeVarint :: "byte list \<Rightarrow> u64 \<times> int"
  assumes append_shape: "varint_shape (appendVarint v) \<and> length (appendVarint v) \<le> 10"
    and append_val: "varint_val (appendVarint v) = unat v \<and> minimal (appendVarint v)"
    and consume_ok: "\<lbrakk>varint_shape bs; length bs \<le> 10; varint_val bs < 2 ^ 64\<rbrakk> \<Longrightarrow>
      consumeVarint bs = (of_nat (varint_val bs), int (length bs))"
    and consume_bad: "\<lbrakk>varint_shape bs; length bs \<le> 10; 2 ^ 64 \<le> varint_val bs\<rbrakk> \<Longrightarrow>
      snd (consumeVarint bs) < 0"
begin

lemma readVarint_append: "readVarint consumeVarint (map RByte (appendVarint v) @ s) = (Inr v, s)"
proof -
  let ?bs = "appendVarint v"
  have lt: "unat v < 2 ^ 64" using unsigned_less [of v, where 'a = nat] by simp
  have c: "consumeVarint ?bs = (v, int (length ?bs))"
    using consume_ok [of ?bs] append_shape [of v] append_val [of v] lt by simp
  have nz: "0 < length ?bs" using append_shape [of v] by (auto simp: varint_shape_def)
  have "7 * (length ?bs - 1) < 64" using append_shape [of v] by linarith
  then have "\<not> v < push_bit (7 * (length ?bs - 1)) 1" if "1 < length ?bs"
    using append_val [of v] that
    by (simp add: minimal_def word_less_nat_alt unat_pow2_64 not_less)
  with c nz have "varint_verdict consumeVarint ?bs = Inr v" by (simp add: varint_verdict_def)
  with readVarint_loop_ok [of ?bs "[]" consumeVarint s] append_shape [of v] show ?thesis
    by (simp add: readVarint_def)
qed

text \<open>The reader accepts the encoding the writer produces and no other.\<close>

lemma readVarint_only_append:
  assumes "readVarint consumeVarint s = (Inr v, r)"
  shows "s = map RByte (appendVarint v) @ r"
proof -
  from readVarint_loop_inv [of consumeVarint "[]" s v r] assms obtain bs where
    bs: "s = map RByte bs @ r" "varint_shape bs" "length bs \<le> 10" "varint_verdict consumeVarint bs = Inr v"
    by (auto simp: readVarint_def)
  have "varint_val bs < 2 ^ 64"
  proof (rule ccontr)
    assume "\<not> varint_val bs < 2 ^ 64"
    with consume_bad [OF bs(2,3)] have "snd (consumeVarint bs) < 0" by simp
    with bs(4) show False by (simp add: varint_verdict_def case_prod_beta)
  qed
  moreover from consume_ok [OF bs(2,3) this] bs(4) have v: "v = of_nat (varint_val bs)"
    and small: "\<not> (1 < length bs \<and> v < push_bit (7 * (length bs - 1)) 1)"
    by (auto simp: varint_verdict_def split: if_splits)
  ultimately have "unat v = varint_val bs" by (simp add: unat_of_nat)
  moreover from this small bs(3) have "minimal bs"
    by (auto simp: minimal_def word_less_nat_alt unat_pow2_64 not_less)
  ultimately have "bs = appendVarint v"
    using minimal_unique [OF bs(2), of "appendVarint v"] append_shape [of v] append_val [of v] by simp
  with bs(1) show ?thesis by simp
qed

lemma putVarint_take: "take (snd (putVarint appendVarint (replicate maxVarintLen 0) v))
    (fst (putVarint appendVarint (replicate maxVarintLen 0) v)) = appendVarint v"
  using append_shape [of v] by (simp add: putVarint_def maxVarintLen_def Let_def)

lemma Read_frame:
  assumes "length payload \<le> read_max lim"
  shows "Read consumeVarint lim (map RByte (encode_frame appendVarint typ payload) @ s) = (Inr (frame_of typ payload), s)"
proof -
  have len: "unat (len64 payload) = length payload" using assms read_max_less [of lim] by (simp add: unat_len64)
  have hdr: "io_ReadFull FixedHeaderSz (RByte typ # RByte 0 # s') = ([typ, 0], None, s')" for s'
    using io_ReadFull_all [of FixedHeaderSz "[typ, 0]" s'] by (simp add: FixedHeaderSz_def)
  have max: "\<not> (if fl_MaxFrameBytes lim = 0 then MaxFrameBytes else fl_MaxFrameBytes lim) < len64 payload"
    using assms by (simp add: read_max_def word_less_nat_alt len not_less)
  have "0 < len64 payload \<longleftrightarrow> payload \<noteq> []" by (simp add: word_less_nat_alt len)
  with max show ?thesis
    by (auto simp: Read_def encode_frame_def hdr readVarint_append io_ReadFull_all len frame_of_def Let_def)
qed

lemma Read_only:
  assumes "Read consumeVarint lim s = (Inr f, r)"
  shows "\<exists>typ payload. s = map RByte (encode_frame appendVarint typ payload) @ r \<and> f = frame_of typ payload \<and>
    length payload \<le> read_max lim"
proof -
  let ?max = "if fl_MaxFrameBytes lim = 0 then MaxFrameBytes else fl_MaxFrameBytes lim"
  from assms obtain hdr s1 where h: "io_ReadFull FixedHeaderSz s = (hdr, None, s1)"
    by (auto simp: Read_def split: prod.splits option.splits)
  from io_ReadFull_None [OF h] obtain t fl where s: "s = RByte t # RByte fl # s1" and hdr: "hdr = [t, fl]"
    by (auto simp: FixedHeaderSz_def numeral_2_eq_2 length_Suc_conv)
  from assms h hdr have fl: "fl = 0" by (auto simp: Read_def Let_def split: if_splits)
  from assms h hdr fl obtain len s2 where v: "readVarint consumeVarint s1 = (Inr len, s2)" and max: "len \<le> ?max"
    by (auto simp: Read_def Let_def not_less split: prod.splits sum.splits if_splits)
  note s1 = readVarint_only_append [OF v]
  have "\<exists>bs. s2 = map RByte bs @ r \<and> length bs = unat len \<and>
      f = \<lparr>Header_of = \<lparr>Flags = 0, Type = t, Length = len\<rparr>, Payload = bs\<rparr>"
  proof (cases "0 < len")
    case True
    with assms h hdr fl v max obtain bs where "io_ReadFull (unat len) s2 = (bs, None, r)"
      "f = \<lparr>Header_of = \<lparr>Flags = 0, Type = t, Length = len\<rparr>, Payload = bs\<rparr>"
      by (auto simp: Read_def Let_def not_less split: prod.splits option.splits if_splits)
    with io_ReadFull_None show ?thesis by blast
  next
    case False
    with assms h hdr fl v max have "s2 = r" "f = \<lparr>Header_of = \<lparr>Flags = 0, Type = t, Length = len\<rparr>, Payload = []\<rparr>"
      by (auto simp: Read_def Let_def not_less split: if_splits)
    with False show ?thesis by (auto simp: word_less_nat_alt)
  qed
  then obtain bs where b: "s2 = map RByte bs @ r" "length bs = unat len"
    "f = \<lparr>Header_of = \<lparr>Flags = 0, Type = t, Length = len\<rparr>, Payload = bs\<rparr>" by blast
  from b(2) have "len64 bs = len" by (simp add: len64_def)
  moreover have "length bs \<le> read_max lim" using max b(2) by (simp add: read_max_def word_le_nat_alt split: if_splits)
  ultimately show ?thesis
    using s s1 b fl by (intro exI [of _ t] exI [of _ bs]) (simp add: encode_frame_def frame_of_def)
qed

end

text \<open>An implementation of the format, which shows that the laws can be met.\<close>

function base128 :: "nat \<Rightarrow> byte list" where
  "base128 n = (if n < 128 then [of_nat n] else of_nat (n mod 128 + 128) # base128 (n div 128))"
  by pat_completeness auto
termination
  by (relation "measure id") auto

declare base128.simps [simp del]

definition base128_append :: "u64 \<Rightarrow> byte list" where
  "base128_append v = base128 (unat v)"

definition base128_consume :: "byte list \<Rightarrow> u64 \<times> int" where
  "base128_consume bs = (if 2 ^ 64 \<le> varint_val bs then (0, - 3) else (of_nat (varint_val bs), int (length bs)))"

lemma unat_of_nat_byte: "n < 256 \<Longrightarrow> unat (of_nat n :: byte) = n"
  by (simp add: unat_of_nat)

lemma base128_ne: "base128 n \<noteq> []"
  by (subst base128.simps) simp

lemma base128_shape: "varint_shape (base128 n)"
proof (induction n rule: base128.induct)
  case (1 n)
  show ?case
  proof (cases "n < 128")
    case False
    have "n mod 128 < 128" by simp
    then have "n mod 128 + 128 < 256" by linarith
    then have "unat (of_nat (n mod 128 + 128) :: byte) = n mod 128 + 128" by (rule unat_of_nat_byte)
    with False 1 show ?thesis
      by (simp add: base128.simps [of n] varint_shape_Cons base128_ne del: of_nat_add)
  qed (simp add: base128.simps [of n] varint_shape_single unat_of_nat_byte)
qed

lemma base128_val: "varint_val (base128 n) = n"
proof (induction n rule: base128.induct)
  case (1 n)
  have "n mod 128 < 128" by simp
  then have "n mod 128 + 128 < 256" by linarith
  then have "unat (of_nat (n mod 128 + 128) :: byte) = n mod 128 + 128" by (rule unat_of_nat_byte)
  with 1 show ?case by (simp add: base128.simps [of n] unat_of_nat_byte del: of_nat_add)
qed

lemma base128_minimal: "minimal (base128 n)"
proof (induction n rule: base128.induct)
  case (1 n)
  show ?case
  proof (cases "n < 128")
    case False
    have "2 ^ (7 * (length (base128 (n div 128)) - 1)) \<le> n div 128"
    proof (cases "1 < length (base128 (n div 128))")
      case True
      with 1 False show ?thesis by (simp add: minimal_def base128_val)
    next
      case False
      with \<open>\<not> n < 128\<close> show ?thesis by (simp add: not_less div_greater_zero_iff Suc_le_eq)
    qed
    then have "128 * 2 ^ (7 * (length (base128 (n div 128)) - 1)) \<le> n" by simp
    moreover have "0 < length (base128 (n div 128))" using base128_ne by simp
    then have "(2::nat) ^ (7 * length (base128 (n div 128))) = 128 * 2 ^ (7 * (length (base128 (n div 128)) - 1))"
      by (cases "length (base128 (n div 128))") (simp_all add: power_add)
    moreover have "base128 n = of_nat (n mod 128 + 128) # base128 (n div 128)"
      using False by (simp add: base128.simps [of n])
    then have "length (base128 n) - 1 = length (base128 (n div 128))" by simp
    ultimately show ?thesis by (simp only: minimal_def base128_val) simp
  qed (simp add: base128.simps [of n] minimal_def)
qed

lemma base128_length: "n < 2 ^ 64 \<Longrightarrow> length (base128 n) \<le> 10"
proof (rule ccontr)
  assume n: "n < 2 ^ 64" and "\<not> length (base128 n) \<le> 10"
  then have "2 ^ (7 * (length (base128 n) - 1)) \<le> n"
    using base128_minimal [of n] by (simp add: minimal_def base128_val)
  moreover have "(2::nat) ^ 64 \<le> 2 ^ (7 * (length (base128 n) - 1))"
    using \<open>\<not> length (base128 n) \<le> 10\<close> by (intro power_increasing) auto
  ultimately show False using n by linarith
qed

interpretation varint: protowire base128_append base128_consume
proof unfold_locales
  fix v :: u64
  have "unat v < 2 ^ LENGTH(64)" by (rule unsigned_less)
  then show "varint_shape (base128_append v) \<and> length (base128_append v) \<le> 10"
    by (simp add: base128_append_def base128_shape base128_length)
  show "varint_val (base128_append v) = unat v \<and> minimal (base128_append v)"
    by (simp add: base128_append_def base128_val base128_minimal)
qed (simp_all add: base128_consume_def)

section \<open>Properties\<close>

fun write_frames :: "(u64 \<Rightarrow> byte list) \<Rightarrow> (byte \<times> byte list) list \<Rightarrow> Writer \<Rightarrow> go_err option \<times> Writer" where
  "write_frames av [] w = (None, w)"
| "write_frames av ((t, p) # fs) w = (case Write av t 0 p w of
     (Some e, w') \<Rightarrow> (Some e, w') | (None, w') \<Rightarrow> write_frames av fs w')"

fun read_frames :: "(byte list \<Rightarrow> u64 \<times> int) \<Rightarrow> FrameLimits \<Rightarrow> nat \<Rightarrow> rev list \<Rightarrow> Frame list res \<times> rev list" where
  "read_frames cv lim 0 s = (Inr [], s)"
| "read_frames cv lim (Suc n) s = (case Read cv lim s of
     (Inl e, s') \<Rightarrow> (Inl e, s')
   | (Inr f, s') \<Rightarrow> (case read_frames cv lim n s' of
        (Inl e, s'') \<Rightarrow> (Inl e, s'') | (Inr fs, s'') \<Rightarrow> (Inr (f # fs), s'')))"

lemma writeFull_cases:
  assumes "writeFull p w = (e, w')"
  obtains sent rest where "p = sent @ rest" "w_out w' = w_out w @ sent" "e = None \<Longrightarrow> rest = []"
proof -
  have "\<exists>k. w_out w' = w_out w @ take k p \<and> (e = None \<longrightarrow> drop k p = [])"
    using assms by (auto simp: writeFull_def io_Write_def min_def split: list.splits wans.splits if_splits)
      (metis order_refl take_all drop_all)+
  then show ?thesis using that append_take_drop_id by metis
qed

lemma writeFull_all: "w_ans w = [] \<Longrightarrow> writeFull p w = (None, w\<lparr>w_out := w_out w @ p\<rparr>)"
  by (simp add: writeFull_def io_Write_def)

text \<open>
  \<open>Write\<close> never desynchronises the stream silently. Whatever the writer answers (errors, short
  writes), the bytes that went out are a prefix of the frame's encoding; \<open>Write\<close> reports success only
  when all of them did; and a frame with non-zero flags or an oversized payload puts nothing on the wire.
\<close>

theorem Write_prefix:
  assumes "protowire av cv" and "Write av t flags payload w = (e, w')"
  shows "\<exists>sent rest. encode_frame av t payload = sent @ rest \<and> w_out w' = w_out w @ sent \<and>
    (e = None \<longrightarrow> flags = 0 \<and> rest = []) \<and>
    (flags \<noteq> 0 \<or> MaxFrameBytes < len64 payload \<longrightarrow> e \<noteq> None \<and> w' = w)"
proof (cases "flags \<noteq> 0 \<or> MaxFrameBytes < len64 payload")
  case True
  then have "e \<noteq> None \<and> w' = w" using assms(2) by (auto simp: Write_def split: if_splits)
  then show ?thesis by auto
next
  case False
  let ?enc = "encode_frame av t payload" and ?vb = "av (len64 payload)"
  note pv = protowire.putVarint_take [OF assms(1), of "len64 payload"]
  obtain e1 w1 where s1: "writeFull [t, 0] w = (e1, w1)" by (cases "writeFull [t, 0] w")
  obtain e2 w2 where s2: "writeFull ?vb w1 = (e2, w2)" by (cases "writeFull ?vb w1")
  obtain e3 w3 where s3: "writeFull payload w2 = (e3, w3)" by (cases "writeFull payload w2")
  have out: "(e1 \<noteq> None \<and> e \<noteq> None \<and> w' = w1) \<or> (e1 = None \<and> e2 \<noteq> None \<and> e \<noteq> None \<and> w' = w2) \<or>
      (e1 = None \<and> e2 = None \<and> payload \<noteq> [] \<and> w' = w3 \<and> (e = None \<longleftrightarrow> e3 = None)) \<or>
      (e1 = None \<and> e2 = None \<and> payload = [] \<and> w' = w2 \<and> e = None)"
    using assms(2) False s1 s2 s3 pv by (auto simp: Write_def Let_def case_prod_beta split: option.splits if_splits)
  from writeFull_cases [OF s1] obtain x1 y1 where p1: "[t, 0] = x1 @ y1" "w_out w1 = w_out w @ x1" "e1 = None \<Longrightarrow> y1 = []" by blast
  from writeFull_cases [OF s2] obtain x2 y2 where p2: "?vb = x2 @ y2" "w_out w2 = w_out w1 @ x2" "e2 = None \<Longrightarrow> y2 = []" by blast
  from writeFull_cases [OF s3] obtain x3 y3 where p3: "payload = x3 @ y3" "w_out w3 = w_out w2 @ x3" "e3 = None \<Longrightarrow> y3 = []" by blast
  have enc: "?enc = (x1 @ y1) @ (x2 @ y2) @ x3 @ y3"
    unfolding encode_frame_def p1(1) [symmetric] p2(1) [symmetric] p3(1) [symmetric] ..
  have main: ?thesis if "?enc = sent @ rest" "w_out w' = w_out w @ sent" "e = None \<Longrightarrow> rest = []" for sent rest
    using that False by auto
  from out show ?thesis
  proof (elim disjE conjE)
    assume "e1 \<noteq> None" "e \<noteq> None" "w' = w1"
    then show ?thesis using enc p1 by (intro main [of x1 "y1 @ (x2 @ y2) @ x3 @ y3"]) simp_all
  next
    assume "e1 = None" "e \<noteq> None" "w' = w2"
    then show ?thesis using enc p1 p2 by (intro main [of "x1 @ x2" "y2 @ x3 @ y3"]) simp_all
  next
    assume "e1 = None" "e2 = None" "w' = w3" "e = None \<longleftrightarrow> e3 = None"
    then show ?thesis using enc p1 p2 p3 by (intro main [of "x1 @ x2 @ x3" y3]) simp_all
  next
    assume "e1 = None" "e2 = None" "payload = []" "w' = w2" "e = None"
    then show ?thesis using enc p1 p2 p3 by (intro main [of "x1 @ x2" "[]"]) simp_all
  qed
qed

theorem Write_prefix_witness:
  "\<exists>sent rest. encode_frame base128_append TypeBatch [7, 8] = sent @ rest \<and>
     w_out (snd (Write base128_append TypeBatch 0 [7, 8] \<lparr>w_out = [], w_ans = [WAll, WShort 0]\<rparr>)) = [] @ sent"
  using Write_prefix [OF varint.protowire_axioms, of TypeBatch 0 "[7, 8]" "\<lparr>w_out = [], w_ans = [WAll, WShort 0]\<rparr>"
      "fst (Write base128_append TypeBatch 0 [7, 8] \<lparr>w_out = [], w_ans = [WAll, WShort 0]\<rparr>)"
      "snd (Write base128_append TypeBatch 0 [7, 8] \<lparr>w_out = [], w_ans = [WAll, WShort 0]\<rparr>)"]
  by (metis Writer.select_convs(1) prod.collapse)

lemma Write_all:
  assumes "protowire av cv" "w_ans w = []" "length payload \<le> 16777216"
  shows "Write av t 0 payload w = (None, w\<lparr>w_out := w_out w @ encode_frame av t payload\<rparr>)"
proof -
  have "\<not> MaxFrameBytes < len64 payload" using assms(3) by (simp add: word_less_nat_alt unat_len64)
  then show ?thesis
    using assms(2) protowire.putVarint_take [OF assms(1), of "len64 payload"]
    by (cases payload) (simp_all add: Write_def Let_def case_prod_beta writeFull_all encode_frame_def)
qed

lemma write_frames_all:
  assumes "protowire av cv" "w_ans w = []" "\<forall>(t, p) \<in> set fs. length p \<le> 16777216"
  shows "write_frames av fs w = (None, w\<lparr>w_out := w_out w @ concat (map (\<lambda>(t, p). encode_frame av t p) fs)\<rparr>)"
  using assms(2,3) by (induction fs arbitrary: w) (auto simp: Write_all [OF assms(1)])

lemma read_frames_all:
  assumes "protowire av cv" "\<forall>(t, p) \<in> set fs. length p \<le> read_max lim"
  shows "read_frames cv lim (length fs) (map RByte (concat (map (\<lambda>(t, p). encode_frame av t p) fs)) @ s) =
    (Inr (map (\<lambda>(t, p). frame_of t p) fs), s)"
  using assms(2) by (induction fs) (auto simp: protowire.Read_frame [OF assms(1)])

text \<open>
  C24. Framing round trip. Frames written one after the other are read back one after the other,
  unchanged and with nothing of the following bytes consumed, as long as each payload is within the
  writer's and the reader's limit.
\<close>

theorem frames_roundtrip:
  assumes "protowire av cv"
    and "\<forall>(t, p) \<in> set fs. length p \<le> 16777216 \<and> length p \<le> read_max lim"
  shows "\<exists>w. write_frames av fs \<lparr>w_out = [], w_ans = []\<rparr> = (None, w) \<and>
    read_frames cv lim (length fs) (map RByte (w_out w) @ s) = (Inr (map (\<lambda>(t, p). frame_of t p) fs), s)"
  using assms(2) write_frames_all [OF assms(1), of "\<lparr>w_out = [], w_ans = []\<rparr>" fs] read_frames_all [OF assms(1), of fs lim s]
  by fastforce

theorem frames_roundtrip_witness:
  "\<exists>w. write_frames base128_append [(TypePing, []), (TypeBatch, [1, 2, 3])] \<lparr>w_out = [], w_ans = []\<rparr> = (None, w) \<and>
     read_frames base128_consume DefaultLimits (length [(TypePing, []), (TypeBatch, [1, 2, 3 :: byte])]) (map RByte (w_out w) @ [RErr ''reset'']) =
       (Inr [frame_of TypePing [], frame_of TypeBatch [1, 2, 3]], [RErr ''reset''])"
  using frames_roundtrip [OF varint.protowire_axioms, of "[(TypePing, []), (TypeBatch, [1, 2, 3])]" DefaultLimits "[RErr ''reset'']"]
  by (simp add: read_max_def DefaultLimits_def del: write_frames.simps read_frames.simps)

text \<open>
  C29. The reader accepts nothing but canonical frames. Whatever stream it is given, if \<open>Read\<close> returns
  a frame then it consumed exactly the bytes \<open>Write\<close> produces for that frame (zero flags, shortest
  length encoding) and the payload is within the limit; so no two different byte sequences are
  read as the same frame.
\<close>

theorem Read_canonical:
  assumes "protowire av cv" and "Read cv lim s = (Inr f, r)"
  shows "s = map RByte (encode_frame av (Type (Header_of f)) (Payload f)) @ r \<and> Flags (Header_of f) = 0 \<and>
    Length (Header_of f) = len64 (Payload f) \<and> length (Payload f) \<le> read_max lim"
  using protowire.Read_only [OF assms] by (auto simp: frame_of_def)

theorem Read_canonical_witness:
  "[RByte TypePing, RByte 0, RByte 1, RByte 42] =
     map RByte (encode_frame base128_append TypePing [42]) @ [] \<and> length [42 :: byte] \<le> read_max DefaultLimits"
proof -
  have "Read base128_consume DefaultLimits [RByte TypePing, RByte 0, RByte 1, RByte 42] = (Inr (frame_of TypePing [42]), [])"
    using protowire.Read_frame [OF varint.protowire_axioms, of "[42]" DefaultLimits TypePing "[]"]
    by (simp add: encode_frame_def base128_append_def base128.simps read_max_def DefaultLimits_def len64_def)
  from Read_canonical [OF varint.protowire_axioms this] show ?thesis by (simp add: frame_of_def)
qed

text \<open>
  The limit is checked before the payload is touched. A frame that announces more than the limit is
  refused right after its length: the reader has consumed the header and the length and nothing else.
\<close>

theorem Read_limit_first:
  assumes "protowire av cv" and "read_max lim < unat len"
  shows "Read cv lim (map RByte ([t, 0] @ av len) @ s) =
    (Inl (NewError ErrCodeProtocolError ''frame too large''), s)"
proof -
  have "io_ReadFull FixedHeaderSz (RByte t # RByte 0 # s') = ([t, 0], None, s')" for s'
    using io_ReadFull_all [of FixedHeaderSz "[t, 0]" s'] by (simp add: FixedHeaderSz_def)
  moreover have "(if fl_MaxFrameBytes lim = 0 then MaxFrameBytes else fl_MaxFrameBytes lim) < len"
    using assms(2) by (simp add: read_max_def word_less_nat_alt)
  ultimately show ?thesis by (simp add: Read_def protowire.readVarint_append [OF assms(1)] Let_def)
qed

theorem Read_limit_first_witness:
  "Read base128_consume \<lparr>fl_MaxFrameBytes = 5\<rparr> (map RByte ([TypeBatch, 0] @ base128_append 6) @ [RByte 9]) =
     (Inl (NewError ErrCodeProtocolError ''frame too large''), [RByte 9])"
  by (rule Read_limit_first [OF varint.protowire_axioms]) (simp add: read_max_def)

text \<open>
  C39. A payload cut short by a read error is drained. When the error comes after \<open>k\<close> payload bytes and
  the stream goes on, \<open>Read\<close> reports the error and leaves the stream at the first byte after this
  frame, so the next read starts at a frame boundary.
\<close>

theorem Read_drains_short_payload:
  assumes "protowire av cv" and "length (pre @ post) \<le> read_max lim" and "length (pre @ post) < 2 ^ 63" and "post \<noteq> []"
  shows "\<exists>err. Read cv lim (map RByte ([t, 0] @ av (len64 (pre @ post)) @ pre) @ [RErr e] @ map RByte post @ s) = (Inl err, s) \<and>
    CodeNumOf (Some err) = CodeProtocolError"
proof -
  let ?len = "len64 (pre @ post)"
  have hdr: "io_ReadFull FixedHeaderSz (RByte t # RByte 0 # s') = ([t, 0], None, s')" for s'
    using io_ReadFull_all [of FixedHeaderSz "[t, 0]" s'] by (simp add: FixedHeaderSz_def)
  have u: "unat ?len = length (pre @ post)" using assms(3) by (intro unat_len64) simp
  have si: "sint ?len = int (length (pre @ post))" using assms(3) by (rule sint_len64)
  have max: "\<not> (if fl_MaxFrameBytes lim = 0 then MaxFrameBytes else fl_MaxFrameBytes lim) < ?len"
    using assms(2) u by (simp add: read_max_def word_less_nat_alt)
  have pos: "0 < ?len" using u assms(4) by (simp add: word_less_nat_alt)
  have cut: "take_bytes (length bs + Suc n) (map RByte bs @ RErr e # r) = (bs, Some e, r)" for bs n r
    by (induction bs) auto
  obtain n where n: "length post = Suc n" using assms(4) by (cases post) auto
  have "\<exists>e'. io_ReadFull (unat ?len) (map RByte pre @ RErr e # map RByte post @ s) = (pre, Some e', map RByte post @ s)"
    unfolding u using cut [of pre n "map RByte post @ s"] by (simp add: io_ReadFull_def n)
  then obtain e' where rf: "io_ReadFull (unat ?len) (map RByte pre @ RErr e # map RByte post @ s) = (pre, Some e', map RByte post @ s)" ..
  have "nat (sint ?len - int (length pre)) = length post" "0 < sint ?len - int (length pre)"
    using si assms(4) by simp_all
  moreover have "io_Discard (length post) (map RByte post @ s) = s" by (simp add: io_Discard_def)
  ultimately show ?thesis
    using max pos by (simp add: Read_def hdr protowire.readVarint_append [OF assms(1)] rf Let_def errcode_defs)
qed

theorem Read_drains_short_payload_witness:
  "\<exists>err. Read base128_consume DefaultLimits
      (map RByte ([TypeBatch, 0] @ base128_append (len64 ([1] @ [2, 3 :: byte])) @ [1]) @ [RErr ''timeout''] @ map RByte [2, 3] @ [RByte 9]) =
      (Inl err, [RByte 9]) \<and> CodeNumOf (Some err) = CodeProtocolError"
  by (rule Read_drains_short_payload [OF varint.protowire_axioms]) (simp_all add: read_max_def DefaultLimits_def)

end
