(* ===== verification/Policy.thy ===== *)
theory Policy
  imports Frame
begin

text \<open>
  The server's policy and the single-round negotiation, \<open>core/policy.go\<close>, with the profile key
  lengths of \<open>core/cipher.go\<close>. The protobuf enumerations are 32-bit numbers, as on the wire, so that
  values outside the registered ones are representable.
\<close>

section \<open>Protocol enumerations and constants\<close>

type_synonym Profile = u32
definition PROFILE_INTL :: Profile where "PROFILE_INTL = 1"
definition PROFILE_GM :: Profile where "PROFILE_GM = 2"

type_synonym AckMode = u32
definition ACK_MODE_ACCEPTED_ONLY :: AckMode where "ACK_MODE_ACCEPTED_ONLY = 1"
definition ACK_MODE_DURABLE :: AckMode where "ACK_MODE_DURABLE = 2"

type_synonym Codec = u32
definition CODEC_PROTO :: Codec where "CODEC_PROTO = 1"
definition CODEC_CBOR :: Codec where "CODEC_CBOR = 2"

lemmas enum_defs [simp] = PROFILE_INTL_def PROFILE_GM_def ACK_MODE_ACCEPTED_ONLY_def ACK_MODE_DURABLE_def
  CODEC_PROTO_def CODEC_CBOR_def

definition CapTraceContext :: string where "CapTraceContext = ''trace_context''"
definition CapDatagram :: string where "CapDatagram = ''datagram''"
definition CapCbor :: string where "CapCbor = ''cbor''"
definition CapDualIntegrity :: string where "CapDualIntegrity = ''dual_integrity''"
definition CapZstdDict :: string where "CapZstdDict = ''zstd_dict''"
definition CapControlCommands :: string where "CapControlCommands = ''control_commands''"

lemmas cap_defs = CapTraceContext_def CapDatagram_def CapCbor_def CapDualIntegrity_def CapZstdDict_def
  CapControlCommands_def

definition MaxZstdDictBytes :: nat where "MaxZstdDictBytes = 2 ^ 20"
definition DefaultInitialCreditBatches :: u64 where "DefaultInitialCreditBatches = 256"
definition DefaultInitialCreditBytes :: u64 where "DefaultInitialCreditBytes = push_bit 20 64"

record Limits =
  lim_MaxFrameBytes :: u64
  lim_MaxBatchBytes :: u64

definition DefaultPolicyLimits :: Limits where
  "DefaultPolicyLimits = \<lparr>lim_MaxFrameBytes = MaxFrameBytes, lim_MaxBatchBytes = push_bit 20 8\<rparr>"

section \<open>Profile key lengths\<close>

definition HMACKeyLen :: "Profile \<Rightarrow> int" where
  "HMACKeyLen p = (if p = PROFILE_INTL then 32 else if p = PROFILE_GM then 32 else - 1)"

definition AEADKeyLen :: "Profile \<Rightarrow> int" where
  "AEADKeyLen p = (if p = PROFILE_INTL then 32 else if p = PROFILE_GM then 16 else - 1)"

section \<open>Policy\<close>

record ServerPolicy =
  sp_Profile :: Profile
  sp_SupportedCapabilities :: "string list"
  sp_AckMode :: AckMode
  sp_InitialCreditBatches :: u64
  sp_InitialCreditBytes :: u64
  sp_MaxFrameBytes :: u64
  sp_MaxBatchBytes :: u64
  sp_DatagramRateBytes :: i64
  sp_ZstdDict :: "byte list"
  sp_ZstdDictID :: u32

definition IsZero :: "ServerPolicy \<Rightarrow> bool" where
  "IsZero p \<longleftrightarrow> sp_Profile p = 0 \<and> sp_AckMode p = 0 \<and> sp_InitialCreditBatches p = 0 \<and>
     sp_InitialCreditBytes p = 0 \<and> sp_MaxFrameBytes p = 0 \<and> sp_MaxBatchBytes p = 0 \<and>
     length (sp_SupportedCapabilities p) = 0 \<and> length (sp_ZstdDict p) = 0"

definition DefaultServerPolicy :: "Profile \<Rightarrow> ServerPolicy" where
  "DefaultServerPolicy p =
    \<lparr>sp_Profile = p,
     sp_SupportedCapabilities = [CapTraceContext, CapDatagram, CapCbor, CapControlCommands],
     sp_AckMode = ACK_MODE_ACCEPTED_ONLY,
     sp_InitialCreditBatches = DefaultInitialCreditBatches,
     sp_InitialCreditBytes = DefaultInitialCreditBytes,
     sp_MaxFrameBytes = lim_MaxFrameBytes DefaultPolicyLimits,
     sp_MaxBatchBytes = lim_MaxBatchBytes DefaultPolicyLimits,
     sp_DatagramRateBytes = 0, sp_ZstdDict = [], sp_ZstdDictID = 0\<rparr>"

definition Policy_Validate :: "ServerPolicy \<Rightarrow> go_err option" where
  "Policy_Validate p =
    (if sp_Profile p \<noteq> PROFILE_INTL \<and> sp_Profile p \<noteq> PROFILE_GM then
       Some (NewError ErrCodeUnsupportedProfile ''policy profile must be intl or gm'')
     else if sp_AckMode p \<noteq> ACK_MODE_ACCEPTED_ONLY \<and> sp_AckMode p \<noteq> ACK_MODE_DURABLE then
       Some (NewError ErrCodeAckModeBad ''policy ack_mode invalid'')
     else if sp_InitialCreditBatches p = 0 \<or> sp_InitialCreditBytes p = 0 then
       Some (NewError ErrCodeCreditInvalid ''policy initial credits must be positive'')
     else if sp_MaxFrameBytes p = 0 \<or> sp_MaxBatchBytes p = 0 then
       Some (NewError ErrCodeBadHandshake ''policy limits must be positive'')
     else if MaxFrameBytes < sp_MaxFrameBytes p then
       Some (NewError LocalConfig ''policy max_frame_bytes exceeds hard cap'')
     else let n = length (sp_ZstdDict p) in
       if 0 < n then
         (if MaxZstdDictBytes < n then Some (NewError LocalConfig ''zstd dict bytes exceeds max'')
          else if sp_ZstdDictID p = 0 then
            Some (NewError LocalConfig ''zstd dict configured but ZstdDictID is 0 (must be non-zero)'')
          else None)
       else None)"

fun Negotiate_loop :: "string list \<Rightarrow> string list \<Rightarrow> string list \<Rightarrow> string list" where
  "Negotiate_loop clientCaps [] selected = selected"
| "Negotiate_loop clientCaps (c # cs) selected =
    Negotiate_loop clientCaps cs (if c \<in> set clientCaps then selected @ [c] else selected)"

definition Negotiate :: "ServerPolicy \<Rightarrow> string list \<Rightarrow> string list" where
  "Negotiate p clientCaps = Negotiate_loop clientCaps (sp_SupportedCapabilities p) []"

definition CodecFor :: "string list \<Rightarrow> Codec" where
  "CodecFor selected = (if CapCbor \<in> set selected then CODEC_CBOR else CODEC_PROTO)"

definition KnownCaps :: "string set" where
  "KnownCaps = {CapTraceContext, CapDatagram, CapCbor, CapDualIntegrity, CapZstdDict, CapControlCommands}"

definition FilterUnknownCaps :: "string list \<Rightarrow> string list" where
  "FilterUnknownCaps caps = filter (\<lambda>c. c \<notin> KnownCaps) caps"

section \<open>Properties\<close>

lemma Negotiate_loop_filter: "Negotiate_loop cc cs sel = sel @ filter (\<lambda>c. c \<in> set cc) cs"
  by (induction cs arbitrary: sel) simp_all

lemma Negotiate_filter: "Negotiate p cc = filter (\<lambda>c. c \<in> set cc) (sp_SupportedCapabilities p)"
  by (simp add: Negotiate_def Negotiate_loop_filter)

text \<open>
  What a validated policy guarantees, and exactly that: an accepted policy has a known profile and
  acknowledgement mode, positive credits and limits, a frame limit within the wire's hard cap, and a
  dictionary (if any) of at most 1 MiB with a non-zero id. The defaults of both profiles pass, the
  zero policy never does.
\<close>

theorem Policy_Validate_iff:
  "(Policy_Validate p = None \<longleftrightarrow>
     sp_Profile p \<in> {PROFILE_INTL, PROFILE_GM} \<and> sp_AckMode p \<in> {ACK_MODE_ACCEPTED_ONLY, ACK_MODE_DURABLE} \<and>
     0 < sp_InitialCreditBatches p \<and> 0 < sp_InitialCreditBytes p \<and>
     0 < sp_MaxFrameBytes p \<and> sp_MaxFrameBytes p \<le> MaxFrameBytes \<and> 0 < sp_MaxBatchBytes p \<and>
     length (sp_ZstdDict p) \<le> 2 ^ 20 \<and> (sp_ZstdDict p = [] \<or> sp_ZstdDictID p \<noteq> 0)) \<and>
   Policy_Validate (DefaultServerPolicy PROFILE_INTL) = None \<and>
   Policy_Validate (DefaultServerPolicy PROFILE_GM) = None \<and> \<not> (IsZero p \<and> Policy_Validate p = None)"
proof -
  have pos: "(0 < w) \<longleftrightarrow> w \<noteq> 0" for w :: u64 by (simp add: word_gt_0)
  have main: "Policy_Validate p = None \<longleftrightarrow>
     sp_Profile p \<in> {PROFILE_INTL, PROFILE_GM} \<and> sp_AckMode p \<in> {ACK_MODE_ACCEPTED_ONLY, ACK_MODE_DURABLE} \<and>
     0 < sp_InitialCreditBatches p \<and> 0 < sp_InitialCreditBytes p \<and>
     0 < sp_MaxFrameBytes p \<and> sp_MaxFrameBytes p \<le> MaxFrameBytes \<and> 0 < sp_MaxBatchBytes p \<and>
     length (sp_ZstdDict p) \<le> 2 ^ 20 \<and> (sp_ZstdDict p = [] \<or> sp_ZstdDictID p \<noteq> 0)"
    by (auto simp: Policy_Validate_def Let_def pos MaxZstdDictBytes_def not_less)
  have "Policy_Validate (DefaultServerPolicy PROFILE_INTL) = None"
    "Policy_Validate (DefaultServerPolicy PROFILE_GM) = None"
    by (simp_all add: Policy_Validate_def DefaultServerPolicy_def DefaultPolicyLimits_def
        DefaultInitialCreditBatches_def DefaultInitialCreditBytes_def push_bit_eq_mult)
  with main show ?thesis by (auto simp: IsZero_def)
qed

theorem Policy_Validate_iff_witness:
  "sp_MaxFrameBytes (DefaultServerPolicy PROFILE_GM) \<le> MaxFrameBytes \<and>
   Policy_Validate (DefaultServerPolicy PROFILE_GM) = None"
  using Policy_Validate_iff [of "DefaultServerPolicy PROFILE_GM"]
  by (simp add: DefaultServerPolicy_def DefaultPolicyLimits_def)

text \<open>
  Negotiation is the intersection in the server's order: exactly the capabilities both sides
  name are selected, in the order of the server's policy and with its multiplicities, and the CBOR
  codec is used if and only if both sides named it.
\<close>

theorem Negotiate_intersection:
  "set (Negotiate p caps) = set (sp_SupportedCapabilities p) \<inter> set caps \<and>
   Negotiate p caps = filter (\<lambda>c. c \<in> set caps) (sp_SupportedCapabilities p) \<and>
   (CodecFor (Negotiate p caps) = CODEC_CBOR \<longleftrightarrow> CapCbor \<in> set (sp_SupportedCapabilities p) \<and> CapCbor \<in> set caps) \<and>
   CodecFor (Negotiate p caps) \<in> {CODEC_PROTO, CODEC_CBOR} \<and>
   FilterUnknownCaps (Negotiate (DefaultServerPolicy prof) caps) = []"
  by (auto simp: Negotiate_filter CodecFor_def FilterUnknownCaps_def DefaultServerPolicy_def KnownCaps_def
      filter_empty_conv)

end
