(* ===== verification/Messages.thy ===== *)
theory Messages
  imports Policy
begin

text \<open>
  The control and data messages of \<open>corepb\<close> as records (field names of the protobuf schema), and the
  byte-level helpers the transcripts and the associated data are built from: big-endian integers, strings as
  bytes and length-prefixed chunks. A sub-message that may be absent is an option.
\<close>

section \<open>Messages\<close>

type_synonym bytes = "byte list"
type_synonym Compression = u32

definition COMPRESSION_NONE :: Compression where "COMPRESSION_NONE = 1"
definition COMPRESSION_GZIP :: Compression where "COMPRESSION_GZIP = 2"
definition COMPRESSION_ZSTD :: Compression where "COMPRESSION_ZSTD = 3"
definition COMPRESSION_LZ4 :: Compression where "COMPRESSION_LZ4 = 4"
definition COMPRESSION_ZSTD_DICT :: Compression where "COMPRESSION_ZSTD_DICT = 5"

lemmas compression_defs [simp] = COMPRESSION_NONE_def COMPRESSION_GZIP_def COMPRESSION_ZSTD_def
  COMPRESSION_LZ4_def COMPRESSION_ZSTD_DICT_def

record Hello =
  h_Profile :: Profile
  h_AgentId :: string
  h_Meta :: "(string \<times> string) list"
  h_Capabilities :: "string list"
  h_ClientEph :: bytes
  h_TokenProof :: bytes

record Credits =
  cr_Batches :: u64
  cr_Bytes :: u64

record HelloAck =
  ha_SessionId :: bytes
  ha_Epoch :: u64
  ha_AckMode :: AckMode
  ha_SelectedCapabilities :: "string list"
  ha_Limits :: "Limits option"
  ha_Credits :: "Credits option"
  ha_ServerEph :: bytes
  ha_Finished :: bytes
  ha_ExpiryUnix :: i64

record HelloNak =
  hn_Code :: u32
  hn_Retryable :: bool
  hn_RetryHintMs :: u32

record Envelope =
  en_KeyEpoch :: u32
  en_Seq :: u64
  en_Compression :: Compression
  en_Ciphertext :: bytes
  en_Mac :: bytes

record TraceStateEntry =
  ts_Key :: string
  ts_Value :: string

record TraceContext =
  tc_TraceId :: string
  tc_SpanId :: string
  tc_ParentSpanId :: string
  tc_TraceFlags :: u32
  tc_TraceState :: "TraceStateEntry option list"

record Batch =
  b_Seq :: u64
  b_Correlation :: string
  b_Trace :: "TraceContext option"
  b_EventsCount :: u32
  b_Payload :: bytes

section \<open>Bytes\<close>

definition bytes_of :: "string \<Rightarrow> bytes" where
  "bytes_of s = map of_char s"

text \<open>\<open>binary.BigEndian.PutUint32\<close> and \<open>PutUint64\<close>: the \<open>n\<close> bytes of a word, most significant first.\<close>

definition PutUint :: "nat \<Rightarrow> 'a::len word \<Rightarrow> bytes" where
  "PutUint n w = map (\<lambda>i. ucast (drop_bit (8 * i) w)) (rev [0..<n])"

lemma length_PutUint [simp]: "length (PutUint n w) = n"
  by (simp add: PutUint_def)

lemma PutUint_inj:
  fixes v w :: "'a::len word"
  assumes "PutUint n v = PutUint n w" and "LENGTH('a) \<le> 8 * n"
  shows "v = w"
proof (rule bit_word_eqI)
  fix k
  assume k: "k < LENGTH('a)"
  let ?i = "k div 8"
  have i: "?i < n" using k assms(2) by (metis div_less_iff_less_mult less_le_trans mult.commute zero_less_numeral)
  have "(ucast (drop_bit (8 * ?i) v) :: byte) = ucast (drop_bit (8 * ?i) w)"
    using assms(1) i by (simp add: PutUint_def)
  then have "bit (ucast (drop_bit (8 * ?i) v) :: byte) (k mod 8) = bit (ucast (drop_bit (8 * ?i) w) :: byte) (k mod 8)"
    by simp
  then show "bit v k = bit w k" by (simp add: bit_simps)
qed

text \<open>A chunk with its 4-byte big-endian length in front.\<close>

definition appendLenPrefixed :: "bytes \<Rightarrow> bytes \<Rightarrow> bytes" where
  "appendLenPrefixed dst b = dst @ PutUint 4 (of_nat (length b) :: u32) @ b"

lemma lp_inj:
  assumes "PutUint 4 (of_nat (length a) :: u32) @ a @ x = PutUint 4 (of_nat (length b) :: u32) @ b @ y"
    and "length a < 2 ^ 32" "length b < 2 ^ 32"
  shows "a = b \<and> x = y"
proof -
  from assms(1) have "PutUint 4 (of_nat (length a) :: u32) = PutUint 4 (of_nat (length b) :: u32)" and ax: "a @ x = b @ y"
    by (simp_all add: append_eq_append_conv)
  then have "(of_nat (length a) :: u32) = of_nat (length b)" by (intro PutUint_inj [of 4]) simp_all
  then have "unat (of_nat (length a) :: u32) = unat (of_nat (length b) :: u32)" by simp
  with assms(2,3) have "length a = length b" by (simp add: unat_of_nat)
  with ax show ?thesis by (simp add: append_eq_append_conv)
qed

text \<open>A sequence of length-prefixed chunks can be read back.\<close>

definition lp_all :: "bytes list \<Rightarrow> bytes" where
  "lp_all cs = concat (map (\<lambda>c. PutUint 4 (of_nat (length c) :: u32) @ c) cs)"

lemma lp_all_inj:
  assumes "lp_all cs = lp_all ds" "\<forall>c \<in> set cs. length c < 2 ^ 32" "\<forall>d \<in> set ds. length d < 2 ^ 32"
  shows "cs = ds"
  using assms
proof (induction cs arbitrary: ds)
  case Nil
  then show ?case by (cases ds) (auto simp: lp_all_def dest: arg_cong [where f = length])
next
  case (Cons c cs)
  show ?case
  proof (cases ds)
    case Nil
    with Cons show ?thesis by (auto simp: lp_all_def dest: arg_cong [where f = length])
  next
    case (Cons d ds')
    with Cons.prems lp_inj [of c "lp_all cs" d "lp_all ds'"] Cons.IH [of ds'] show ?thesis by (simp add: lp_all_def)
  qed
qed

end
