(* ===== verification/Keys.thy ===== *)
theory Keys
  imports Messages
begin

text \<open>
  The key schedule, \<open>core/keyschedule.go\<close>, with the cipher choice of \<open>core/cipher.go\<close>: canonical
  transcripts, token proof, session keys, finished MAC and nonces. The cryptographic primitives and the
  deterministic protobuf marshaller are parameters, the fields of the record \<open>crypto\<close>; a reader of
  key material (\<open>hkdf.Expand\<close>) is a byte stream as in the frame codec. A Go panic (negative slice
  bound, nil key) is the error \<open>gopanic\<close>.
\<close>

section \<open>Primitives\<close>

datatype hashid = SHA256 | SM3
datatype aeadid = AES_GCM | SM4_GCM

record crypto =
  c_hash :: "hashid \<Rightarrow> bytes \<Rightarrow> bytes"
  c_hmac :: "hashid \<Rightarrow> bytes \<Rightarrow> bytes \<Rightarrow> bytes"
  c_extract :: "hashid \<Rightarrow> bytes \<Rightarrow> bytes \<Rightarrow> bytes"
  c_expand :: "hashid \<Rightarrow> bytes \<Rightarrow> bytes \<Rightarrow> rev list"
  c_marshal_hello :: "Hello \<Rightarrow> bytes res"
  c_marshal_ack :: "HelloAck \<Rightarrow> bytes res"
  c_pub :: "Profile \<Rightarrow> bytes \<Rightarrow> bytes"
  c_newpub :: "Profile \<Rightarrow> bytes \<Rightarrow> go_err option"
  c_ecdh :: "Profile \<Rightarrow> bytes \<Rightarrow> bytes \<Rightarrow> bytes res"
  c_init :: "aeadid \<Rightarrow> bytes \<Rightarrow> go_err option"
  c_seal :: "aeadid \<Rightarrow> bytes \<Rightarrow> bytes \<Rightarrow> bytes \<Rightarrow> bytes \<Rightarrow> bytes"
  c_open :: "aeadid \<Rightarrow> bytes \<Rightarrow> bytes \<Rightarrow> bytes \<Rightarrow> bytes \<Rightarrow> bytes res"

definition gopanic :: go_err where
  "gopanic = OtherErr ''panic'' None"

definition ProfileName :: "Profile \<Rightarrow> string" where
  "ProfileName p = (if p = PROFILE_INTL then ''intl'' else if p = PROFILE_GM then ''gm'' else '''')"

definition ProfileHash :: "Profile \<Rightarrow> hashid" where
  "ProfileHash p = (if p = PROFILE_GM then SM3 else SHA256)"

text \<open>\<open>NewAEAD\<close>: which algorithm a profile uses; a wrong key length or profile is an error.\<close>

definition NewAEAD :: "crypto \<Rightarrow> Profile \<Rightarrow> bytes \<Rightarrow> aeadid res" where
  "NewAEAD cr p key =
    (if p = PROFILE_INTL then
       (if int (length key) \<noteq> 32 then Inl (OtherErr ''intl aead key length'' None)
        else case c_init cr AES_GCM key of Some e \<Rightarrow> Inl (OtherErr ''aes init'' (Some e)) | None \<Rightarrow> Inr AES_GCM)
     else if p = PROFILE_GM then
       (if int (length key) \<noteq> 16 then Inl (OtherErr ''gm aead key length'' None)
        else case c_init cr SM4_GCM key of Some e \<Rightarrow> Inl e | None \<Rightarrow> Inr SM4_GCM)
     else Inl (OtherErr ''unsupported profile'' None))"

definition NewHMAC :: "Profile \<Rightarrow> bytes \<Rightarrow> (hashid \<times> bytes) res" where
  "NewHMAC p key =
    (if p = PROFILE_INTL then
       (if int (length key) \<noteq> 32 then Inl (OtherErr ''intl hmac key length'' None) else Inr (SHA256, key))
     else if p = PROFILE_GM then
       (if int (length key) \<noteq> 32 then Inl (OtherErr ''gm hmac key length'' None) else Inr (SM3, key))
     else Inl (OtherErr ''unsupported profile'' None))"

section \<open>Ephemeral keys\<close>

text \<open>A private key is its bytes; exactly the field of the key's profile is set.\<close>

record EphemeralKey =
  ek_profile :: Profile
  ek_x25519 :: "bytes option"
  ek_sm2 :: "bytes option"

text \<open>The argument \<open>rnd\<close> is what the curve's \<open>GenerateKey\<close> returns.\<close>

definition GenerateEphemeral :: "crypto \<Rightarrow> Profile \<Rightarrow> bytes res \<Rightarrow> (EphemeralKey \<times> bytes) res" where
  "GenerateEphemeral cr p rnd =
    (if p = PROFILE_INTL then
       (case rnd of Inl e \<Rightarrow> Inl (WrapError ErrCodeInternal ''generate x25519'' e)
        | Inr priv \<Rightarrow> Inr (\<lparr>ek_profile = p, ek_x25519 = Some priv, ek_sm2 = None\<rparr>, c_pub cr p priv))
     else if p = PROFILE_GM then
       (case rnd of Inl e \<Rightarrow> Inl (WrapError ErrCodeInternal ''generate sm2 eph'' e)
        | Inr priv \<Rightarrow> Inr (\<lparr>ek_profile = p, ek_x25519 = None, ek_sm2 = Some priv\<rparr>, c_pub cr p priv))
     else Inl (NewError ErrCodeUnsupportedProfile ''unknown profile''))"

definition PubBytes :: "crypto \<Rightarrow> EphemeralKey \<Rightarrow> bytes res" where
  "PubBytes cr k =
    (if ek_profile k = PROFILE_INTL then
       (case ek_x25519 k of Some priv \<Rightarrow> Inr (c_pub cr PROFILE_INTL priv) | None \<Rightarrow> Inl gopanic)
     else if ek_profile k = PROFILE_GM then
       (case ek_sm2 k of Some priv \<Rightarrow> Inr (c_pub cr PROFILE_GM priv) | None \<Rightarrow> Inl gopanic)
     else Inl (NewError ErrCodeUnsupportedProfile ''unknown profile''))"

definition DeriveZZ :: "crypto \<Rightarrow> Profile \<Rightarrow> EphemeralKey \<Rightarrow> bytes \<Rightarrow> bytes res" where
  "DeriveZZ cr p priv peerWire =
    (if p = PROFILE_INTL then
       (if length peerWire \<noteq> 32 then Inl (NewError ErrCodeHelloEphInvalid ''x25519 pubkey must be 32 bytes'')
        else case c_newpub cr p peerWire of
          Some e \<Rightarrow> Inl (WrapError ErrCodeHelloEphInvalid ''parse x25519 pubkey'' e)
        | None \<Rightarrow>
            (case ek_x25519 priv of
               None \<Rightarrow> Inl gopanic
             | Some k \<Rightarrow> (case c_ecdh cr p k peerWire of
                 Inl e \<Rightarrow> Inl (WrapError ErrCodeHelloEphInvalid ''x25519 ecdh'' e)
               | Inr zz \<Rightarrow> Inr zz)))
     else if p = PROFILE_GM then
       (if length peerWire \<noteq> 65 \<or> peerWire ! 0 \<noteq> 0x04 then
          Inl (NewError ErrCodeHelloEphInvalid ''sm2 pubkey must be 65B uncompressed'')
        else case c_newpub cr p peerWire of
          Some e \<Rightarrow> Inl (WrapError ErrCodeHelloEphInvalid ''parse sm2 pubkey'' e)
        | None \<Rightarrow>
            (case ek_sm2 priv of
               None \<Rightarrow> Inl gopanic
             | Some k \<Rightarrow> (case c_ecdh cr p k peerWire of
                 Inl e \<Rightarrow> Inl (WrapError ErrCodeHelloEphInvalid ''sm2 ecdh'' e)
               | Inr zz \<Rightarrow> Inr zz)))
     else Inl (NewError ErrCodeUnsupportedProfile ''unknown profile''))"

section \<open>Transcripts\<close>

definition CanonicalHello :: "crypto \<Rightarrow> Hello \<Rightarrow> bytes res" where
  "CanonicalHello cr h = (case c_marshal_hello cr (h\<lparr>h_TokenProof := []\<rparr>) of
     Inl e \<Rightarrow> Inl (WrapError ErrCodeInternal ''canonical marshal'' e) | Inr b \<Rightarrow> Inr b)"

definition CanonicalHelloAck :: "crypto \<Rightarrow> HelloAck \<Rightarrow> bytes res" where
  "CanonicalHelloAck cr a = (case c_marshal_ack cr (a\<lparr>ha_Finished := []\<rparr>) of
     Inl e \<Rightarrow> Inl (WrapError ErrCodeInternal ''canonical marshal'' e) | Inr b \<Rightarrow> Inr b)"

fun transcript_loop :: "bytes \<Rightarrow> bytes list \<Rightarrow> bytes" where
  "transcript_loop written [] = written"
| "transcript_loop written (c # cs) =
    transcript_loop (written @ PutUint 4 (of_nat (length c) :: u32) @ c) cs"

definition transcriptHash :: "crypto \<Rightarrow> Profile \<Rightarrow> bytes list \<Rightarrow> bytes" where
  "transcriptHash cr p chunks = c_hash cr (ProfileHash p) (transcript_loop [] chunks)"

definition TranscriptHello :: "crypto \<Rightarrow> Profile \<Rightarrow> Hello \<Rightarrow> bytes res" where
  "TranscriptHello cr p hello = (case CanonicalHello cr hello of
     Inl e \<Rightarrow> Inl e | Inr cb \<Rightarrow> Inr (transcriptHash cr p [bytes_of (ProfileName p), cb]))"

definition TranscriptFull :: "crypto \<Rightarrow> Profile \<Rightarrow> Hello \<Rightarrow> HelloAck \<Rightarrow> bytes res" where
  "TranscriptFull cr p hello ack = (case CanonicalHello cr hello of
     Inl e \<Rightarrow> Inl e
   | Inr hb \<Rightarrow> (case CanonicalHelloAck cr ack of
       Inl e \<Rightarrow> Inl e | Inr ab \<Rightarrow> Inr (transcriptHash cr p [bytes_of (ProfileName p), hb, ab])))"

definition TokenProof :: "crypto \<Rightarrow> Profile \<Rightarrow> string \<Rightarrow> bytes \<Rightarrow> bytes" where
  "TokenProof cr p token thHello = c_hmac cr (ProfileHash p) (bytes_of token) thHello"

section \<open>Session keys\<close>

record SessionKeys =
  sk_Profile :: Profile
  sk_C2SKey :: bytes
  sk_S2CKey :: bytes
  sk_HandshakeKey :: bytes
  sk_NoncePrefixC :: bytes
  sk_NoncePrefixS :: bytes
  sk_DualMACKey :: bytes

definition Wipe :: "SessionKeys \<Rightarrow> SessionKeys" where
  "Wipe k = k\<lparr>sk_C2SKey := map (\<lambda>_. 0) (sk_C2SKey k), sk_S2CKey := map (\<lambda>_. 0) (sk_S2CKey k),
     sk_HandshakeKey := map (\<lambda>_. 0) (sk_HandshakeKey k), sk_DualMACKey := map (\<lambda>_. 0) (sk_DualMACKey k),
     sk_NoncePrefixC := [0, 0, 0, 0], sk_NoncePrefixS := [0, 0, 0, 0]\<rparr>"

text \<open>\<open>io_readFull\<close> into a buffer of \<open>n\<close> bytes.\<close>

definition io_readFull :: "rev list \<Rightarrow> nat \<Rightarrow> bytes res" where
  "io_readFull r n = (case take_bytes n r of
     (bs, Some e, _) \<Rightarrow> Inl (OtherErr e None) | (bs, None, _) \<Rightarrow> Inr bs)"

definition pskCK :: "crypto \<Rightarrow> Profile \<Rightarrow> bytes \<Rightarrow> bytes \<Rightarrow> bytes \<Rightarrow> bytes res" where
  "pskCK cr p zz thHello tokenProof =
    (let h = ProfileHash p; ck = c_extract cr h zz thHello
     in case io_readFull (c_expand cr h ck (bytes_of ''mbta/psk'')) 32 of
          Inl e \<Rightarrow> Inl (WrapError ErrCodeInternal ''hkdf psk expand'' e)
        | Inr pskMix \<Rightarrow> Inr (c_extract cr h tokenProof pskMix))"

definition DeriveSessionKeys :: "crypto \<Rightarrow> Profile \<Rightarrow> bytes \<Rightarrow> bytes \<Rightarrow> bytes \<Rightarrow> SessionKeys res" where
  "DeriveSessionKeys cr p zz thHello tokenProof =
    (case pskCK cr p zz thHello tokenProof of
       Inl e \<Rightarrow> Inl e
     | Inr pck \<Rightarrow>
         let keyLen = AEADKeyLen p; splitLen = keyLen * 2 + HMACKeyLen p + 8
         in case io_readFull (c_expand cr (ProfileHash p) pck (bytes_of ''mbta/split'')) (nat splitLen) of
              Inl e \<Rightarrow> Inl (WrapError ErrCodeInternal ''hkdf split expand'' e)
            | Inr okm \<Rightarrow>
                if keyLen < 0 then Inl gopanic
                else
                  let k = nat keyLen; hsEnd = nat (keyLen * 2 + HMACKeyLen p)
                  in Inr \<lparr>sk_Profile = p, sk_C2SKey = take k okm, sk_S2CKey = take k (drop k okm),
                         sk_HandshakeKey = take (hsEnd - 2 * k) (drop (2 * k) okm),
                         sk_NoncePrefixC = take 4 (drop hsEnd okm),
                         sk_NoncePrefixS = take 4 (drop (hsEnd + 4) okm), sk_DualMACKey = []\<rparr>)"

definition DeriveDualMACKey :: "crypto \<Rightarrow> Profile \<Rightarrow> bytes \<Rightarrow> bytes \<Rightarrow> bytes \<Rightarrow> bytes res" where
  "DeriveDualMACKey cr p zz thHello tokenProof =
    (case pskCK cr p zz thHello tokenProof of
       Inl e \<Rightarrow> Inl e
     | Inr pck \<Rightarrow>
         if HMACKeyLen p < 0 then Inl gopanic
         else case io_readFull (c_expand cr (ProfileHash p) pck (bytes_of ''mbta/dual'')) (nat (HMACKeyLen p)) of
           Inl e \<Rightarrow> Inl (WrapError ErrCodeInternal ''hkdf dual expand'' e)
         | Inr dk \<Rightarrow> Inr dk)"

fun CapIn :: "string list \<Rightarrow> string \<Rightarrow> bool" where
  "CapIn [] want = False"
| "CapIn (c # caps) want = (if c = want then True else CapIn caps want)"

definition DeriveSessionKeysWithCaps ::
    "crypto \<Rightarrow> Profile \<Rightarrow> bytes \<Rightarrow> bytes \<Rightarrow> bytes \<Rightarrow> string list \<Rightarrow> SessionKeys res" where
  "DeriveSessionKeysWithCaps cr p zz thHello tokenProof selectedCaps =
    (case DeriveSessionKeys cr p zz thHello tokenProof of
       Inl e \<Rightarrow> Inl e
     | Inr keys \<Rightarrow>
         if CapIn selectedCaps CapDualIntegrity then
           (case DeriveDualMACKey cr p zz thHello tokenProof of
              Inl e \<Rightarrow> Inl e | Inr dk \<Rightarrow> Inr (keys\<lparr>sk_DualMACKey := dk\<rparr>))
         else Inr keys)"

definition FinishedMAC :: "crypto \<Rightarrow> SessionKeys \<Rightarrow> bytes \<Rightarrow> bytes" where
  "FinishedMAC cr keys thFull = c_hmac cr (ProfileHash (sk_Profile keys)) (sk_HandshakeKey keys) thFull"

definition BuildNonce :: "bytes \<Rightarrow> u64 \<Rightarrow> bytes" where
  "BuildNonce prefix seq = take 4 prefix @ PutUint 8 seq"

section \<open>Properties\<close>

lemma CapIn_mem: "CapIn caps c \<longleftrightarrow> c \<in> set caps"
  by (induction caps) auto

lemma transcript_loop_lp: "transcript_loop w cs = w @ lp_all cs"
  by (induction cs arbitrary: w) (simp_all add: lp_all_def)

lemma io_readFull_length: "io_readFull r n = Inr bs \<Longrightarrow> length bs = n"
  by (auto simp: io_readFull_def split: prod.splits option.splits dest: take_bytes_None)

text \<open>
  No nonce is used twice. The 12-byte nonce is the 4-byte prefix followed by the full-width
  sequence number, so two nonces agree only if prefix and sequence number do: under one key, distinct
  sequence numbers give distinct nonces, with no truncation.
\<close>

theorem BuildNonce_unique:
  assumes "length prefix = 4" "length prefix' = 4"
  shows "length (BuildNonce prefix s) = 12 \<and>
    (BuildNonce prefix s = BuildNonce prefix' s' \<longleftrightarrow> prefix = prefix' \<and> s = s')"
proof -
  have "s = s'" if "PutUint 8 s = PutUint 8 s'" using PutUint_inj [OF that] by simp
  with assms show ?thesis by (auto simp: BuildNonce_def)
qed

theorem BuildNonce_unique_witness:
  "BuildNonce [1, 2, 3, 4] 5 \<noteq> BuildNonce [1, 2, 3, 4] 6"
  using BuildNonce_unique [of "[1, 2, 3, 4]" "[1, 2, 3, 4]" 5 6] by simp

lemma split_five:
  assumes "length xs = 2 * k + h + 8"
  shows "xs = take k xs @ take k (drop k xs) @ take h (drop (2 * k) xs) @ take 4 (drop (2 * k + h) xs) @ take 4 (drop (2 * k + h + 4) xs)"
proof -
  have "take 4 (drop (2 * k + h + 4) xs) = drop (2 * k + h + 4) xs" using assms by simp
  moreover have "take 4 (drop (2 * k + h) xs) @ drop (2 * k + h + 4) xs = drop (2 * k + h) xs"
    by (metis add.commute append_take_drop_id drop_drop)
  moreover have "take h (drop (2 * k) xs) @ drop (2 * k + h) xs = drop (2 * k) xs"
    by (metis add.commute append_take_drop_id drop_drop)
  moreover have "take k (drop k xs) @ drop (2 * k) xs = drop k xs"
    by (metis append_take_drop_id drop_drop mult_2)
  ultimately show ?thesis by (metis append_take_drop_id)
qed

text \<open>
  The key block is split without overlap or loss. For a registered profile a successful derivation
  yields keys of exactly the profile's lengths and two 4-byte nonce prefixes, which together are the
  expanded block, in order; the extra MAC key has its length when \<open>dual_integrity\<close> was selected and
  is absent otherwise, and it leaves the other keys as they are.
\<close>

theorem DeriveSessionKeys_split:
  assumes "p \<in> {PROFILE_INTL, PROFILE_GM}" "DeriveSessionKeysWithCaps cr p zz th proof caps = Inr keys"
  shows "int (length (sk_C2SKey keys)) = AEADKeyLen p \<and> int (length (sk_S2CKey keys)) = AEADKeyLen p \<and>
    int (length (sk_HandshakeKey keys)) = HMACKeyLen p \<and> length (sk_NoncePrefixC keys) = 4 \<and>
    length (sk_NoncePrefixS keys) = 4 \<and> sk_Profile keys = p \<and>
    int (length (sk_DualMACKey keys)) = (if CapDualIntegrity \<in> set caps then HMACKeyLen p else 0) \<and>
    (\<exists>pck. pskCK cr p zz th proof = Inr pck \<and>
      io_readFull (c_expand cr (ProfileHash p) pck (bytes_of ''mbta/split'')) (nat (2 * AEADKeyLen p + HMACKeyLen p + 8)) =
        Inr (sk_C2SKey keys @ sk_S2CKey keys @ sk_HandshakeKey keys @ sk_NoncePrefixC keys @ sk_NoncePrefixS keys))"
proof -
  let ?k = "nat (AEADKeyLen p)" and ?h = "nat (HMACKeyLen p)"
  have lens: "AEADKeyLen p = int ?k" "HMACKeyLen p = int ?h" using assms(1) by (auto simp: AEADKeyLen_def HMACKeyLen_def)
  from assms(2) obtain base where base: "DeriveSessionKeys cr p zz th proof = Inr base"
    and keys: "keys = base \<or> (\<exists>dk. DeriveDualMACKey cr p zz th proof = Inr dk \<and> keys = base\<lparr>sk_DualMACKey := dk\<rparr>)"
    and dual: "if CapDualIntegrity \<in> set caps then DeriveDualMACKey cr p zz th proof = Inr (sk_DualMACKey keys) else keys = base"
    by (auto simp: DeriveSessionKeysWithCaps_def CapIn_mem split: sum.splits if_splits)
  from base lens obtain pck okm where pck: "pskCK cr p zz th proof = Inr pck"
    and okm: "io_readFull (c_expand cr (ProfileHash p) pck (bytes_of ''mbta/split'')) (nat (AEADKeyLen p * 2 + HMACKeyLen p + 8)) = Inr okm"
    and b: "base = \<lparr>sk_Profile = p, sk_C2SKey = take ?k okm, sk_S2CKey = take ?k (drop ?k okm),
      sk_HandshakeKey = take (nat (AEADKeyLen p * 2 + HMACKeyLen p) - 2 * ?k) (drop (2 * ?k) okm),
      sk_NoncePrefixC = take 4 (drop (nat (AEADKeyLen p * 2 + HMACKeyLen p)) okm),
      sk_NoncePrefixS = take 4 (drop (nat (AEADKeyLen p * 2 + HMACKeyLen p) + 4) okm), sk_DualMACKey = []\<rparr>"
    by (auto simp: DeriveSessionKeys_def Let_def split: sum.splits if_splits)
  have ends: "nat (AEADKeyLen p * 2 + HMACKeyLen p) = 2 * ?k + ?h" using lens by linarith
  have len: "length okm = 2 * ?k + ?h + 8" using io_readFull_length [OF okm] lens by linarith
  have dlen: "int (length dk) = HMACKeyLen p" if "DeriveDualMACKey cr p zz th proof = Inr dk" for dk
    using that lens io_readFull_length by (fastforce simp: DeriveDualMACKey_def pck split: sum.splits if_splits)
  note split_five [OF len]
  moreover have "nat (2 * AEADKeyLen p + HMACKeyLen p + 8) = nat (AEADKeyLen p * 2 + HMACKeyLen p + 8)" by (simp add: mult.commute)
  moreover have kk: "sk_C2SKey keys = take ?k okm" "sk_S2CKey keys = take ?k (drop ?k okm)"
    "sk_HandshakeKey keys = take ?h (drop (2 * ?k) okm)" "sk_NoncePrefixC keys = take 4 (drop (2 * ?k + ?h) okm)"
    "sk_NoncePrefixS keys = take 4 (drop (2 * ?k + ?h + 4) okm)" "sk_Profile keys = p"
    using keys b unfolding ends by auto
  ultimately have "io_readFull (c_expand cr (ProfileHash p) pck (bytes_of ''mbta/split'')) (nat (2 * AEADKeyLen p + HMACKeyLen p + 8)) =
      Inr (sk_C2SKey keys @ sk_S2CKey keys @ sk_HandshakeKey keys @ sk_NoncePrefixC keys @ sk_NoncePrefixS keys)"
    using okm by simp
  moreover have "int (length (sk_DualMACKey keys)) = (if CapDualIntegrity \<in> set caps then HMACKeyLen p else 0)"
    using dual dlen b by (simp split: if_splits)
  moreover have "length (sk_C2SKey keys) = ?k" "length (sk_S2CKey keys) = ?k" "length (sk_HandshakeKey keys) = ?h"
    "length (sk_NoncePrefixC keys) = 4" "length (sk_NoncePrefixS keys) = 4"
    using len by (simp_all add: kk)
  ultimately show ?thesis using lens pck kk(6) by simp
qed

text \<open>Concrete primitives, used to show that the hypotheses of the theorems can be met.\<close>

definition demo_crypto :: crypto where
  "demo_crypto = \<lparr>c_hash = (\<lambda>_ m. m), c_hmac = (\<lambda>_ k m. k @ m), c_extract = (\<lambda>_ s t. s @ t),
     c_expand = (\<lambda>_ k i. map RByte (concat (replicate 200 (k @ i)))),
     c_marshal_hello = (\<lambda>h. Inr (bytes_of (h_AgentId h))), c_marshal_ack = (\<lambda>a. Inr (ha_SessionId a)),
     c_pub = (\<lambda>_ k. k), c_newpub = (\<lambda>_ _. None), c_ecdh = (\<lambda>_ a b. Inr (map2 (XOR) a b)),
     c_init = (\<lambda>_ _. None), c_seal = (\<lambda>_ k n m ad. m @ [sum_list (k @ n @ m @ ad)]),
     c_open = (\<lambda>_ k n c ad. if c \<noteq> [] \<and> last c = sum_list (k @ n @ butlast c @ ad) then Inr (butlast c)
       else Inl (OtherErr ''cipher: message authentication failed'' None))\<rparr>"

lemma demo_expand: "\<exists>bs. io_readFull (c_expand demo_crypto h k i) n = Inr bs" if "i \<noteq> []" "n \<le> 200"
proof -
  have "n \<le> length (concat (replicate 200 (k @ i)))"
    using that by (cases i) (simp_all add: length_concat sum_list_replicate)
  then have "take_bytes n (map RByte (concat (replicate 200 (k @ i)))) =
      (take n (concat (replicate 200 (k @ i))), None, map RByte (drop n (concat (replicate 200 (k @ i)))))"
    using take_bytes_all [of "take n (concat (replicate 200 (k @ i)))" "map RByte (drop n (concat (replicate 200 (k @ i))))"]
    by (simp add: min_absorb2 flip: map_append)
  then show ?thesis by (simp add: io_readFull_def demo_crypto_def)
qed

lemma demo_derives:
  assumes "p \<in> {PROFILE_INTL, PROFILE_GM}"
  shows "\<exists>keys. DeriveSessionKeysWithCaps demo_crypto p zz th prf caps = Inr keys"
proof -
  obtain pck where pck: "pskCK demo_crypto p zz th prf = Inr pck"
    using demo_expand [of "bytes_of ''mbta/psk''" 32 "ProfileHash p" "c_extract demo_crypto (ProfileHash p) zz th"]
    by (auto simp: pskCK_def Let_def bytes_of_def)
  have "nat (AEADKeyLen p * 2 + HMACKeyLen p + 8) \<le> 200" "nat (HMACKeyLen p) \<le> 200" "0 \<le> AEADKeyLen p" "0 \<le> HMACKeyLen p"
    using assms by (auto simp: AEADKeyLen_def HMACKeyLen_def)
  with demo_expand [of "bytes_of ''mbta/split''" "nat (AEADKeyLen p * 2 + HMACKeyLen p + 8)" "ProfileHash p" pck]
    demo_expand [of "bytes_of ''mbta/dual''" "nat (HMACKeyLen p)" "ProfileHash p" pck]
  show ?thesis
    by (auto simp: DeriveSessionKeysWithCaps_def DeriveSessionKeys_def DeriveDualMACKey_def pck Let_def bytes_of_def
        split: sum.splits)
qed

theorem DeriveSessionKeys_split_witness:
  "\<exists>keys. DeriveSessionKeysWithCaps demo_crypto PROFILE_GM [1] [2] [3] [CapDualIntegrity] = Inr keys \<and>
     int (length (sk_C2SKey keys)) = 16 \<and> int (length (sk_DualMACKey keys)) = 32"
proof -
  obtain keys where k: "DeriveSessionKeysWithCaps demo_crypto PROFILE_GM [1] [2] [3] [CapDualIntegrity] = Inr keys"
    using demo_derives [of PROFILE_GM] by blast
  from DeriveSessionKeys_split [OF _ k] have "int (length (sk_C2SKey keys)) = AEADKeyLen PROFILE_GM"
    "int (length (sk_DualMACKey keys)) = HMACKeyLen PROFILE_GM" by simp_all
  with k show ?thesis by (simp add: AEADKeyLen_def HMACKeyLen_def)
qed

text \<open>
  C30. The finished MAC binds the whole handshake. If a client that received \<open>ack'\<close> computes the MAC
  the server computed for \<open>ack\<close> over the same keys, then the two acknowledgements have the same canonical
  encoding (and the two sides agree on the HELLO), or the two transcripts are an explicit collision of
  the MAC or of the hash: rewriting limits, credits, mode, epoch or capabilities in transit goes
  unnoticed only by breaking a primitive.
\<close>

theorem FinishedMAC_binds_handshake:
  assumes "CanonicalHello cr hello = Inr hb" "CanonicalHello cr hello' = Inr hb'"
    and "CanonicalHelloAck cr ack = Inr ab" "CanonicalHelloAck cr ack' = Inr ab'"
    and "length hb < 2 ^ 32" "length hb' < 2 ^ 32" "length ab < 2 ^ 32" "length ab' < 2 ^ 32"
    and "TranscriptFull cr p hello ack = Inr th" "TranscriptFull cr p hello' ack' = Inr th'"
    and "FinishedMAC cr keys th = FinishedMAC cr keys th'"
  defines "enc \<equiv> lp_all [bytes_of (ProfileName p), hb, ab]" and "enc' \<equiv> lp_all [bytes_of (ProfileName p), hb', ab']"
  shows "hb = hb' \<and> ab = ab' \<or>
    (th \<noteq> th' \<and> c_hmac cr (ProfileHash (sk_Profile keys)) (sk_HandshakeKey keys) th =
      c_hmac cr (ProfileHash (sk_Profile keys)) (sk_HandshakeKey keys) th') \<or>
    (enc \<noteq> enc' \<and> c_hash cr (ProfileHash p) enc = c_hash cr (ProfileHash p) enc')"
proof (cases "th = th'")
  case False
  with assms(11) show ?thesis unfolding FinishedMAC_def by simp
next
  case True
  let ?x = "lp_all [bytes_of (ProfileName p), hb, ab]" and ?y = "lp_all [bytes_of (ProfileName p), hb', ab']"
  have eq: "c_hash cr (ProfileHash p) ?x = c_hash cr (ProfileHash p) ?y"
    using assms(1-4,9,10) True by (simp add: TranscriptFull_def transcriptHash_def transcript_loop_lp)
  show ?thesis
  proof (cases "?x = ?y")
    case True
    have "length (bytes_of (ProfileName p)) < 2 ^ 32" by (simp add: bytes_of_def ProfileName_def)
    then have "[bytes_of (ProfileName p), hb, ab] = [bytes_of (ProfileName p), hb', ab']"
      using assms(5-8) by (intro lp_all_inj [OF True]) simp_all
    then show ?thesis by simp
  next
    case False
    with eq show ?thesis unfolding enc_def enc'_def by simp
  qed
qed

definition demo_ack :: HelloAck where
  "demo_ack = \<lparr>ha_SessionId = [7], ha_Epoch = 1, ha_AckMode = 1, ha_SelectedCapabilities = [], ha_Limits = None,
     ha_Credits = None, ha_ServerEph = [], ha_Finished = [], ha_ExpiryUnix = 0\<rparr>"

definition demo_hello :: Hello where
  "demo_hello = \<lparr>h_Profile = 1, h_AgentId = ''a'', h_Meta = [], h_Capabilities = [], h_ClientEph = [], h_TokenProof = []\<rparr>"

theorem FinishedMAC_binds_handshake_witness:
  "\<exists>ab. CanonicalHelloAck demo_crypto demo_ack = Inr ab \<and>
     CanonicalHelloAck demo_crypto (demo_ack\<lparr>ha_Finished := [9]\<rparr>) = Inr ab"
proof -
  let ?k = "\<lparr>sk_Profile = PROFILE_INTL, sk_C2SKey = [], sk_S2CKey = [], sk_HandshakeKey = [1], sk_NoncePrefixC = [],
    sk_NoncePrefixS = [], sk_DualMACKey = []\<rparr>"
  let ?a = "demo_ack\<lparr>ha_Finished := [9]\<rparr>"
  obtain hb ab ab' where c: "CanonicalHello demo_crypto demo_hello = Inr hb"
    "CanonicalHelloAck demo_crypto demo_ack = Inr ab" "CanonicalHelloAck demo_crypto ?a = Inr ab'"
    and l: "length hb < 2 ^ 32" "length ab < 2 ^ 32" "length ab' < 2 ^ 32"
    by (simp add: CanonicalHello_def CanonicalHelloAck_def demo_crypto_def demo_hello_def demo_ack_def bytes_of_def)
  obtain th th' where t: "TranscriptFull demo_crypto PROFILE_INTL demo_hello demo_ack = Inr th"
    "TranscriptFull demo_crypto PROFILE_INTL demo_hello ?a = Inr th'" and eq: "th = th'"
    by (simp add: TranscriptFull_def CanonicalHello_def CanonicalHelloAck_def demo_crypto_def demo_hello_def demo_ack_def)
  have "FinishedMAC demo_crypto ?k th = FinishedMAC demo_crypto ?k th'" using eq by simp
  from FinishedMAC_binds_handshake [OF c(1) c(1) c(2) c(3) l(1) l(1) l(2) l(3) t this]
  have "ab = ab'" using eq by (auto simp: demo_crypto_def)
  with c show ?thesis by blast
qed

end
