(* ===== verification/EnvelopeSeal.thy ===== *)
theory EnvelopeSeal
  imports Keys
begin

text \<open>
  The data envelope, \<open>core/envelope.go\<close>: compress, then encrypt with a deterministic nonce and the
  metadata as associated data, optionally with an outer MAC; and the bounded registry of zstd
  dictionaries. The compression libraries are parameters (the record \<open>codecs\<close>): an encoder returns
  bytes or an error, a decoder is a byte stream. The encoder and decoder pools only reuse memory, so an
  encoder or decoder taken from a pool is the parameter itself.
\<close>

section \<open>Parameters and data\<close>

record ZstdDictCodec =
  zd_ID :: u32
  zd_raw :: bytes

record codecs =
  z_gzip_write :: "bytes \<Rightarrow> go_err option"
  z_gzip_close :: "bytes \<Rightarrow> bytes res"
  z_gzip_reader :: "bytes \<Rightarrow> rev list res"
  z_zstd_enc :: "bytes \<Rightarrow> bytes"
  z_zstd_reader :: "bytes \<Rightarrow> rev list res"
  z_lz4_write :: "bytes \<Rightarrow> go_err option"
  z_lz4_close :: "bytes \<Rightarrow> bytes res"
  z_lz4_reader :: "bytes \<Rightarrow> rev list"
  z_dict_pool :: "ZstdDictCodec \<Rightarrow> bool"
  z_dict_enc :: "ZstdDictCodec \<Rightarrow> bytes \<Rightarrow> bytes"
  z_dict_dec :: "ZstdDictCodec \<Rightarrow> bytes \<Rightarrow> bytes res"

definition MaxDecompressedSize :: nat where "MaxDecompressedSize = 8 * 1024 * 1024"

record SealParams =
  sl_FrameType :: byte
  sl_SessionID :: bytes
  sl_Seq :: u64
  sl_KeyEpoch :: u32
  sl_Compression :: Compression
  sl_Keys :: "SessionKeys option"
  sl_Dict :: "ZstdDictCodec option"
  sl_BatchWire :: bytes
  sl_DualMACKey :: bytes

section \<open>Compression\<close>

definition compressZstdDict :: "codecs \<Rightarrow> bytes \<Rightarrow> ZstdDictCodec option \<Rightarrow> bytes res" where
  "compressZstdDict zl src dict = (case dict of
      None \<Rightarrow> Inl (NewError ErrCodeBatchInvalid ''zstd dict compression requested but no dict provided'')
    | Some d \<Rightarrow>
        if \<not> z_dict_pool zl d then Inl (NewError ErrCodeInternal ''zstd dict encoder pool corrupted'')
        else Inr (z_dict_enc zl d src))"

definition decompressZstdDict :: "codecs \<Rightarrow> bytes \<Rightarrow> ZstdDictCodec option \<Rightarrow> bytes res" where
  "decompressZstdDict zl src dict = (case dict of
      None \<Rightarrow> Inl (NewError ErrCodeEnvelopeOpenFail ''zstd dict compression present but no dict provided'')
    | Some d \<Rightarrow> (case z_dict_dec zl d src of
        Inl e \<Rightarrow> Inl (WrapError ErrCodeEnvelopeOpenFail ''zstd dict decode'' e)
      | Inr out \<Rightarrow>
          if MaxDecompressedSize < length out then Inl (NewError ErrCodeDecompressLimit ''decompressed exceeds limit'')
          else Inr out))"

definition compress :: "codecs \<Rightarrow> Compression \<Rightarrow> bytes \<Rightarrow> ZstdDictCodec option \<Rightarrow> bytes res" where
  "compress zl c src dict =
    (if c = COMPRESSION_GZIP then
       (case z_gzip_write zl src of
          Some e \<Rightarrow> Inl (WrapError ErrCodeInternal ''gzip compress'' e)
        | None \<Rightarrow> (case z_gzip_close zl src of
            Inl e \<Rightarrow> Inl (WrapError ErrCodeInternal ''gzip close'' e) | Inr b \<Rightarrow> Inr b))
     else if c = COMPRESSION_ZSTD then Inr (z_zstd_enc zl src)
     else if c = COMPRESSION_ZSTD_DICT then compressZstdDict zl src dict
     else if c = COMPRESSION_LZ4 then
       (case z_lz4_write zl src of
          Some e \<Rightarrow> Inl (WrapError ErrCodeInternal ''lz4 compress'' e)
        | None \<Rightarrow> (case z_lz4_close zl src of
            Inl e \<Rightarrow> Inl (WrapError ErrCodeInternal ''lz4 close'' e) | Inr b \<Rightarrow> Inr b))
     else Inl (NewError ErrCodeBatchInvalid ''unsupported compression''))"

text \<open>
  \<open>copyLimited\<close>: \<open>io.Copy\<close> from a \<open>LimitedReader\<close> of \<open>MaxDecompressedSize + 1\<close> bytes. The copy ends well
  at end of file or when the limit is used up; in the second case the result is refused.
\<close>

definition copyLimited :: "rev list \<Rightarrow> bytes res" where
  "copyLimited r = (case take_bytes (MaxDecompressedSize + 1) r of
      (buf, Some e, _) \<Rightarrow>
        if e \<noteq> ''EOF'' then Inl (WrapError ErrCodeEnvelopeOpenFail ''decompress'' (OtherErr e None)) else Inr buf
    | (buf, None, _) \<Rightarrow> Inl (NewError ErrCodeDecompressLimit ''decompressed exceeds limit''))"

definition decompress :: "codecs \<Rightarrow> Compression \<Rightarrow> bytes \<Rightarrow> ZstdDictCodec option \<Rightarrow> bytes res" where
  "decompress zl c src dict =
    (if c = COMPRESSION_GZIP then
       (case z_gzip_reader zl src of
          Inl e \<Rightarrow> Inl (WrapError ErrCodeEnvelopeOpenFail ''gzip reader'' e) | Inr r \<Rightarrow> copyLimited r)
     else if c = COMPRESSION_ZSTD then
       (case z_zstd_reader zl src of
          Inl e \<Rightarrow> Inl (WrapError ErrCodeEnvelopeOpenFail ''zstd reset'' e) | Inr r \<Rightarrow> copyLimited r)
     else if c = COMPRESSION_ZSTD_DICT then decompressZstdDict zl src dict
     else if c = COMPRESSION_LZ4 then copyLimited (z_lz4_reader zl src)
     else Inl (NewError ErrCodeBatchInvalid ''unsupported compression''))"

section \<open>Sealing and opening\<close>

definition envelopeAD :: "byte \<Rightarrow> bytes \<Rightarrow> u32 \<Rightarrow> u64 \<Rightarrow> Compression \<Rightarrow> Profile \<Rightarrow> bytes" where
  "envelopeAD frameType sessionID keyEpoch seq cmpr profile =
    (let ad = [frameType, 0];
         ad = appendLenPrefixed ad sessionID;
         ad = ad @ [ucast keyEpoch];
         ad = ad @ PutUint 8 seq;
         ad = ad @ [ucast cmpr]
     in appendLenPrefixed ad (bytes_of (ProfileName profile)))"

definition dualMAC :: "crypto \<Rightarrow> Profile \<Rightarrow> bytes \<Rightarrow> bytes \<Rightarrow> bytes \<Rightarrow> bytes" where
  "dualMAC cr profile key ad ciphertext = c_hmac cr (ProfileHash profile) key (ad @ ciphertext)"

definition SealEnvelope :: "crypto \<Rightarrow> codecs \<Rightarrow> (Envelope \<Rightarrow> bytes res) \<Rightarrow> SealParams \<Rightarrow> bytes res" where
  "SealEnvelope cr zl marshal p =
    (case sl_Keys p of
       None \<Rightarrow> Inl (NewError ErrCodeInternal ''seal: nil session keys'')
     | Some keys \<Rightarrow>
         if sl_Seq p = 0 then Inl (NewError ErrCodeBatchInvalid ''seal: seq must be >= 1'')
         else if sl_KeyEpoch p \<noteq> 0 then
           Inl (NewError ErrCodeBatchInvalid ''seal: key_epoch must be 0 in first version'')
         else if 0 < length (sl_DualMACKey p) \<and> int (length (sl_DualMACKey p)) \<noteq> HMACKeyLen (sk_Profile keys) then
           Inl (NewError ErrCodeInternal ''seal: dual mac key length mismatch'')
         else
           case (if sl_Compression p \<noteq> COMPRESSION_NONE
                 then compress zl (sl_Compression p) (sl_BatchWire p) (sl_Dict p) else Inr (sl_BatchWire p)) of
             Inl e \<Rightarrow> Inl e
           | Inr plain \<Rightarrow>
               (case NewAEAD cr (sk_Profile keys) (sk_C2SKey keys) of
                  Inl e \<Rightarrow> Inl (WrapError ErrCodeInternal ''seal: new aead'' e)
                | Inr aead \<Rightarrow>
                    let nonce = BuildNonce (sk_NoncePrefixC keys) (sl_Seq p);
                        ad = envelopeAD (sl_FrameType p) (sl_SessionID p) (sl_KeyEpoch p) (sl_Seq p)
                               (sl_Compression p) (sk_Profile keys);
                        ct = c_seal cr aead (sk_C2SKey keys) nonce plain ad
                    in marshal \<lparr>en_KeyEpoch = sl_KeyEpoch p, en_Seq = sl_Seq p,
                         en_Compression = sl_Compression p, en_Ciphertext = ct,
                         en_Mac = (if 0 < length (sl_DualMACKey p)
                                   then dualMAC cr (sk_Profile keys) (sl_DualMACKey p) ad ct else [])\<rparr>))"

definition OpenEnvelope :: "crypto \<Rightarrow> codecs \<Rightarrow> byte \<Rightarrow> bytes \<Rightarrow> SessionKeys option \<Rightarrow> ZstdDictCodec option
    \<Rightarrow> Envelope \<Rightarrow> bytes res" where
  "OpenEnvelope cr zl frameType sessionID okeys dict env =
    (case okeys of
       None \<Rightarrow> Inl (NewError ErrCodeEnvelopeOpenFail ''open: nil session keys'')
     | Some keys \<Rightarrow>
         if en_KeyEpoch env \<noteq> 0 then Inl (NewError ErrCodeEnvelopeOpenFail ''unsupported key_epoch'')
         else if en_Seq env = 0 then Inl (NewError ErrCodeEnvelopeOpenFail ''envelope seq must be >= 1'')
         else
           let ad = envelopeAD frameType sessionID (en_KeyEpoch env) (en_Seq env) (en_Compression env) (sk_Profile keys);
               hasMAC = (0 < length (en_Mac env));
               dual = (0 < length (sk_DualMACKey keys))
           in if hasMAC \<noteq> dual then
                (if hasMAC
                 then Inl (NewError ErrCodeEnvelopeOpenFail ''envelope mac present but dual_integrity not negotiated'')
                 else Inl (NewError ErrCodeEnvelopeOpenFail ''dual_integrity negotiated but envelope mac missing''))
              else if dual \<and> dualMAC cr (sk_Profile keys) (sk_DualMACKey keys) ad (en_Ciphertext env) \<noteq> en_Mac env then
                Inl (NewError ErrCodeEnvelopeOpenFail ''dual integrity mac mismatch'')
              else case NewAEAD cr (sk_Profile keys) (sk_C2SKey keys) of
                Inl e \<Rightarrow> Inl (WrapError ErrCodeInternal ''open: new aead'' e)
              | Inr aead \<Rightarrow>
                  let nonce = BuildNonce (sk_NoncePrefixC keys) (en_Seq env)
                  in case c_open cr aead (sk_C2SKey keys) nonce (en_Ciphertext env) ad of
                       Inl e \<Rightarrow> Inl (WrapError ErrCodeEnvelopeOpenFail ''aead open'' e)
                     | Inr plain \<Rightarrow>
                         if en_Compression env = COMPRESSION_NONE then Inr plain
                         else decompress zl (en_Compression env) plain dict)"

section \<open>The dictionary registry\<close>

text \<open>The key is the pair the code formats into a string: id and the first half of the digest.\<close>

type_synonym dict_key = "u32 \<times> bytes"

record zstdDictRegistry =
  zr_reg :: "(dict_key \<times> ZstdDictCodec) list"
  zr_ord :: "dict_key list"

definition zstdDictRegistryCap :: nat where "zstdDictRegistryCap = 8"

definition touchZstdDictLocked :: "dict_key \<Rightarrow> dict_key list \<Rightarrow> dict_key list" where
  "touchZstdDictLocked key ord = (if key \<in> set ord then remove1 key ord @ [key] else ord @ [key])"

fun dict_evict :: "(dict_key \<times> ZstdDictCodec) list \<Rightarrow> dict_key list \<Rightarrow> (dict_key \<times> ZstdDictCodec) list \<times> dict_key list" where
  "dict_evict reg [] = (reg, [])"
| "dict_evict reg (front # ord) =
    (if zstdDictRegistryCap < length (front # ord) then dict_evict (AList.delete front reg) ord
     else (reg, front # ord))"

text \<open>The argument \<open>mkdec\<close> is the error of building the decoder, if any.\<close>

definition RegisterZstdDict :: "crypto \<Rightarrow> (u32 \<Rightarrow> bytes \<Rightarrow> go_err option) \<Rightarrow> u32 \<Rightarrow> bytes \<Rightarrow> zstdDictRegistry
    \<Rightarrow> ZstdDictCodec res \<times> zstdDictRegistry" where
  "RegisterZstdDict cr mkdec did dict r =
    (if did = 0 then (Inl (NewError LocalConfig ''zstd dict id must be non-zero''), r)
     else if length dict = 0 then (Inl (NewError LocalConfig ''zstd dict must not be empty''), r)
     else
       let key = (did, take 16 (c_hash cr SHA256 dict))
       in case map_of (zr_reg r) key of
            Some c \<Rightarrow> (Inr c, r\<lparr>zr_ord := touchZstdDictLocked key (zr_ord r)\<rparr>)
          | None \<Rightarrow>
              (case mkdec did dict of
                 Some e \<Rightarrow> (Inl (WrapError ErrCodeInternal ''zstd dict decoder'' e), r)
               | None \<Rightarrow>
                   let c = \<lparr>zd_ID = did, zd_raw = dict\<rparr>;
                       (reg, ord) = dict_evict (AList.update key c (zr_reg r)) (touchZstdDictLocked key (zr_ord r))
                   in (Inr c, \<lparr>zr_reg = reg, zr_ord = ord\<rparr>)))"

definition ResetZstdDicts :: "zstdDictRegistry \<Rightarrow> zstdDictRegistry" where
  "ResetZstdDicts r = \<lparr>zr_reg = [], zr_ord = []\<rparr>"

section \<open>Laws of the libraries\<close>

text \<open>
  Documented behaviour of an authenticated cipher: opening a sealed message with the same key, nonce and
  associated data returns it, and (for the two GCM modes, whose output is determined by its inputs)
  only sealed messages open. A MAC is not empty. A decoder gives back what its encoder was given.
\<close>

definition aead_roundtrip :: "crypto \<Rightarrow> bool" where
  "aead_roundtrip cr \<longleftrightarrow> (\<forall>a k n m ad. c_open cr a k n (c_seal cr a k n m ad) ad = Inr m) \<and>
     (\<forall>h k m. c_hmac cr h k m \<noteq> [])"

definition aead_tight :: "crypto \<Rightarrow> bool" where
  "aead_tight cr \<longleftrightarrow> (\<forall>a k n c ad m. c_open cr a k n c ad = Inr m \<longrightarrow> c = c_seal cr a k n m ad)"

definition codecs_roundtrip :: "codecs \<Rightarrow> bool" where
  "codecs_roundtrip zl \<longleftrightarrow>
     (\<forall>x b. z_gzip_close zl x = Inr b \<longrightarrow> z_gzip_reader zl b = Inr (map RByte x)) \<and>
     (\<forall>x. z_zstd_reader zl (z_zstd_enc zl x) = Inr (map RByte x)) \<and>
     (\<forall>x b. z_lz4_close zl x = Inr b \<longrightarrow> z_lz4_reader zl b = map RByte x) \<and>
     (\<forall>d x. z_dict_dec zl d (z_dict_enc zl d x) = Inr x)"

section \<open>Lemmas\<close>

lemma take_bytes_eof: "length bs < n \<Longrightarrow> take_bytes n (map RByte bs) = (bs, Some ''EOF'', [])"
proof (induction bs arbitrary: n)
  case Nil
  then show ?case by (cases n) simp_all
next
  case (Cons b bs)
  then show ?case by (cases n) simp_all
qed

lemma take_bytes_length: "take_bytes n s = (bs, Some e, r) \<Longrightarrow> length bs < n"
  by (induction n s arbitrary: bs rule: take_bytes.induct) (auto split: prod.splits)

lemma copyLimited_all: "length bs \<le> MaxDecompressedSize \<Longrightarrow> copyLimited (map RByte bs) = Inr bs"
  by (simp add: copyLimited_def take_bytes_eof)

lemma copyLimited_bound: "copyLimited r = Inr out \<Longrightarrow> length out \<le> MaxDecompressedSize"
  by (auto simp: copyLimited_def split: prod.splits option.splits if_splits dest: take_bytes_length)

lemma decompress_compress:
  assumes "codecs_roundtrip zl" "length src \<le> MaxDecompressedSize" "compress zl c src dict = Inr b"
  shows "decompress zl c b dict = Inr src"
  using assms
  by (auto simp: compress_def decompress_def codecs_roundtrip_def compressZstdDict_def decompressZstdDict_def
      copyLimited_all split: if_splits option.splits sum.splits)

lemma envelopeAD_lp:
  "envelopeAD t sid ke seq cmpr prof = [t, 0] @ (PutUint 4 (of_nat (length sid) :: u32) @ sid @
     ([ucast ke] @ PutUint 8 seq @ [ucast cmpr] @ PutUint 4 (of_nat (length (bytes_of (ProfileName prof))) :: u32) @
      bytes_of (ProfileName prof)))"
  by (simp add: envelopeAD_def appendLenPrefixed_def Let_def)

lemma profile_name_inj:
  assumes "p \<in> {PROFILE_INTL, PROFILE_GM}" "p' \<in> {PROFILE_INTL, PROFILE_GM}"
    "bytes_of (ProfileName p) = bytes_of (ProfileName p')"
  shows "p = p'"
  using assms by (auto simp: ProfileName_def bytes_of_def)

section \<open>Properties of the envelope\<close>

text \<open>What is sealed is the encoding of an envelope that opens.\<close>

lemma seal_open:
  assumes "aead_roundtrip cr" "codecs_roundtrip zl"
    and "sl_Keys p = Some keys" "sl_DualMACKey p = sk_DualMACKey keys"
    and "length (sl_BatchWire p) \<le> MaxDecompressedSize"
    and "SealEnvelope cr zl marshal p = Inr payload"
  shows "\<exists>env. marshal env = Inr payload \<and> en_Seq env = sl_Seq p \<and>
    OpenEnvelope cr zl (sl_FrameType p) (sl_SessionID p) (Some keys) (sl_Dict p) env = Inr (sl_BatchWire p)"
proof -
  let ?ad = "envelopeAD (sl_FrameType p) (sl_SessionID p) 0 (sl_Seq p) (sl_Compression p) (sk_Profile keys)"
  from assms(3,6) obtain plain aead where
    pl: "(if sl_Compression p \<noteq> COMPRESSION_NONE
       then compress zl (sl_Compression p) (sl_BatchWire p) (sl_Dict p) else Inr (sl_BatchWire p)) = Inr plain"
    and ae: "NewAEAD cr (sk_Profile keys) (sk_C2SKey keys) = Inr aead"
    and sq: "sl_Seq p \<noteq> 0" "sl_KeyEpoch p = 0"
    by (auto simp: SealEnvelope_def Let_def split: if_splits sum.splits)
  let ?ct = "c_seal cr aead (sk_C2SKey keys) (BuildNonce (sk_NoncePrefixC keys) (sl_Seq p)) plain ?ad"
  let ?env = "\<lparr>en_KeyEpoch = 0, en_Seq = sl_Seq p, en_Compression = sl_Compression p, en_Ciphertext = ?ct,
    en_Mac = (if 0 < length (sl_DualMACKey p) then dualMAC cr (sk_Profile keys) (sl_DualMACKey p) ?ad ?ct else [])\<rparr>"
  have "marshal ?env = Inr payload"
    using assms(3,6) sq pl ae by (simp add: SealEnvelope_def Let_def split: if_splits)
  moreover have "c_open cr aead (sk_C2SKey keys) (BuildNonce (sk_NoncePrefixC keys) (sl_Seq p)) ?ct ?ad = Inr plain"
    using assms(1) by (simp add: aead_roundtrip_def)
  moreover have "sl_Compression p = COMPRESSION_NONE \<and> plain = sl_BatchWire p \<or>
      sl_Compression p \<noteq> COMPRESSION_NONE \<and> decompress zl (sl_Compression p) plain (sl_Dict p) = Inr (sl_BatchWire p)"
    using pl decompress_compress [OF assms(2,5), of "sl_Compression p" "sl_Dict p" plain] by (auto split: if_splits)
  moreover have "dualMAC cr q k ad ct \<noteq> []" for q k ad ct using assms(1) by (simp add: aead_roundtrip_def dualMAC_def)
  ultimately show ?thesis
    using sq ae assms(4) by (intro exI [of _ ?env]) (auto simp: OpenEnvelope_def Let_def)
qed

text \<open>
  C23. Seal and open are inverse. What \<open>SealEnvelope\<close> puts on the wire, \<open>OpenEnvelope\<close> with the same frame
  type, session and keys turns back into the batch, with every compression, with and without the outer
  MAC, for batches up to the decompression limit.
\<close>

theorem envelope_roundtrip:
  assumes "aead_roundtrip cr" "codecs_roundtrip zl"
    and "\<And>e b. marshal e = Inr b \<Longrightarrow> unmarshal b = Inr e"
    and "sl_Keys p = Some keys" "sl_DualMACKey p = sk_DualMACKey keys"
    and "length (sl_BatchWire p) \<le> MaxDecompressedSize"
    and "SealEnvelope cr zl marshal p = Inr payload"
  shows "\<exists>env. unmarshal payload = Inr env \<and>
    OpenEnvelope cr zl (sl_FrameType p) (sl_SessionID p) (Some keys) (sl_Dict p) env = Inr (sl_BatchWire p)"
  using seal_open [OF assms(1,2,4-7)] assms(3) by blast

text \<open>
  C27. Only sealed envelopes open. If \<open>OpenEnvelope\<close> succeeds, then the ciphertext is the encryption, under the
  session's key and the nonce of this very sequence number, of a plaintext with the associated data of this
  frame type, session, sequence number, compression and profile; the outer MAC is present exactly when it was
  negotiated and then it is the right one; and a decompressed result is within the limit.
\<close>

theorem open_only_sealed:
  assumes "aead_tight cr" and "OpenEnvelope cr zl t sid okeys dict env = Inr out"
  shows "\<exists>keys aead plain. okeys = Some keys \<and> en_KeyEpoch env = 0 \<and> en_Seq env \<noteq> 0 \<and>
    (let ad = envelopeAD t sid (en_KeyEpoch env) (en_Seq env) (en_Compression env) (sk_Profile keys)
     in en_Ciphertext env = c_seal cr aead (sk_C2SKey keys) (BuildNonce (sk_NoncePrefixC keys) (en_Seq env)) plain ad \<and>
        (if sk_DualMACKey keys = [] then en_Mac env = []
         else en_Mac env = dualMAC cr (sk_Profile keys) (sk_DualMACKey keys) ad (en_Ciphertext env))) \<and>
    (if en_Compression env = COMPRESSION_NONE then out = plain
     else decompress zl (en_Compression env) plain dict = Inr out \<and> length out \<le> MaxDecompressedSize)"
proof -
  obtain keys where keys: "okeys = Some keys" using assms(2) by (cases okeys) (simp_all add: OpenEnvelope_def)
  let ?ad = "envelopeAD t sid (en_KeyEpoch env) (en_Seq env) (en_Compression env) (sk_Profile keys)"
  from assms(2) keys obtain aead plain where
    op: "c_open cr aead (sk_C2SKey keys) (BuildNonce (sk_NoncePrefixC keys) (en_Seq env)) (en_Ciphertext env) ?ad = Inr plain"
    and out: "if en_Compression env = COMPRESSION_NONE then out = plain else decompress zl (en_Compression env) plain dict = Inr out"
    and mac: "(en_Mac env \<noteq> []) = (sk_DualMACKey keys \<noteq> [])"
      "sk_DualMACKey keys \<noteq> [] \<Longrightarrow> en_Mac env = dualMAC cr (sk_Profile keys) (sk_DualMACKey keys) ?ad (en_Ciphertext env)"
    and hd: "en_KeyEpoch env = 0" "en_Seq env \<noteq> 0"
    by (auto simp: OpenEnvelope_def Let_def split: if_splits sum.splits)
  have "decompress zl c b dict = Inr out \<Longrightarrow> length out \<le> MaxDecompressedSize" for c b
    by (auto simp: decompress_def decompressZstdDict_def not_less split: if_splits sum.splits option.splits
        dest: copyLimited_bound)
  then show ?thesis
    using keys op out mac hd assms(1) unfolding aead_tight_def Let_def
    by (intro exI [of _ keys] exI [of _ aead] exI [of _ plain]) (auto split: if_splits)
qed

text \<open>
  The associated data separates contexts. Two associated-data strings agree only if the frame
  type, the session, the sequence number and the profile agree and the key epoch and the compression agree in their
  low byte. So a captured envelope replayed as another frame type, in another session or under another
  number is authenticated against different data.
\<close>

theorem envelopeAD_separates:
  assumes "length sid < 2 ^ 32" "length sid' < 2 ^ 32"
    and "prof \<in> {PROFILE_INTL, PROFILE_GM}" "prof' \<in> {PROFILE_INTL, PROFILE_GM}"
    and "envelopeAD t sid ke seq cm prof = envelopeAD t' sid' ke' seq' cm' prof'"
  shows "t = t' \<and> sid = sid' \<and> seq = seq' \<and> prof = prof' \<and> (ucast ke :: byte) = ucast ke' \<and> (ucast cm :: byte) = ucast cm'"
proof -
  let ?x = "\<lambda>ke seq cm prof. [ucast ke :: byte] @ PutUint 8 (seq :: u64) @ [ucast cm] @
     PutUint 4 (of_nat (length (bytes_of (ProfileName prof))) :: u32) @ bytes_of (ProfileName prof)"
  from assms(5) have t: "t = t'" and
    rest: "PutUint 4 (of_nat (length sid) :: u32) @ sid @ ?x ke seq cm prof = PutUint 4 (of_nat (length sid') :: u32) @ sid' @ ?x ke' seq' cm' prof'"
    by (simp_all add: envelopeAD_lp)
  from lp_inj [OF rest assms(1,2)] have sid: "sid = sid'" and x: "?x ke seq cm prof = ?x ke' seq' cm' prof'" by auto
  from x have ke: "(ucast ke :: byte) = ucast ke'" and sq: "PutUint 8 seq = PutUint 8 seq'" and cm: "(ucast cm :: byte) = ucast cm'"
    and pn: "PutUint 4 (of_nat (length (bytes_of (ProfileName prof))) :: u32) @ bytes_of (ProfileName prof) =
      PutUint 4 (of_nat (length (bytes_of (ProfileName prof'))) :: u32) @ bytes_of (ProfileName prof')"
    by (simp_all add: append_eq_append_conv)
  have "seq = seq'" using sq by (rule PutUint_inj) simp
  moreover have "prof = prof'" using pn assms(3,4) by (intro profile_name_inj) (simp_all add: append_eq_append_conv)
  ultimately show ?thesis using t sid ke cm by simp
qed

theorem envelopeAD_separates_witness:
  "envelopeAD TypeBatch [1] 0 5 COMPRESSION_NONE PROFILE_INTL \<noteq> envelopeAD TypeDgram [1] 0 5 COMPRESSION_NONE PROFILE_INTL"
proof
  assume "envelopeAD TypeBatch [1] 0 5 COMPRESSION_NONE PROFILE_INTL = envelopeAD TypeDgram [1] 0 5 COMPRESSION_NONE PROFILE_INTL"
  from envelopeAD_separates [OF _ _ _ _ this] show False by simp
qed

section \<open>Witnesses of the envelope\<close>

definition demo_codecs :: codecs where
  "demo_codecs = \<lparr>z_gzip_write = (\<lambda>_. None), z_gzip_close = (\<lambda>x. Inr (0 # x)),
     z_gzip_reader = (\<lambda>b. Inr (map RByte (tl b))), z_zstd_enc = (\<lambda>x. 1 # x),
     z_zstd_reader = (\<lambda>b. Inr (map RByte (tl b))), z_lz4_write = (\<lambda>_. None), z_lz4_close = (\<lambda>x. Inr (2 # x)),
     z_lz4_reader = (\<lambda>b. map RByte (tl b)), z_dict_pool = (\<lambda>_. True), z_dict_enc = (\<lambda>_ x. 3 # x),
     z_dict_dec = (\<lambda>_ b. Inr (tl b))\<rparr>"

definition mac_crypto :: crypto where
  "mac_crypto = demo_crypto\<lparr>c_hmac := (\<lambda>_ k m. [sum_list (k @ m)])\<rparr>"

definition demo_keys :: SessionKeys where
  "demo_keys = \<lparr>sk_Profile = PROFILE_INTL, sk_C2SKey = replicate 32 7, sk_S2CKey = [], sk_HandshakeKey = [],
     sk_NoncePrefixC = [1, 2, 3, 4], sk_NoncePrefixS = [5, 6, 7, 8], sk_DualMACKey = replicate 32 9\<rparr>"

definition demo_seal :: SealParams where
  "demo_seal = \<lparr>sl_FrameType = TypeBatch, sl_SessionID = [1], sl_Seq = 5, sl_KeyEpoch = 0, sl_Compression = COMPRESSION_ZSTD,
     sl_Keys = Some demo_keys, sl_Dict = None, sl_BatchWire = [10, 20], sl_DualMACKey = replicate 32 9\<rparr>"

text \<open>A concrete wire format for the envelope: fixed-width integers, then the ciphertext with a mark per byte.\<close>

fun beval :: "bytes \<Rightarrow> nat" where
  "beval [] = 0"
| "beval (b # bs) = unat b * 256 ^ length bs + beval bs"

definition GetUint :: "bytes \<Rightarrow> 'a::len word" where
  "GetUint bs = of_nat (beval bs)"

lemma beval_PutUint: "beval (PutUint n w) = unat w mod 256 ^ n"
proof (induction n)
  case (Suc n)
  have "PutUint (Suc n) w = ucast (drop_bit (8 * n) w) # PutUint n w" by (simp add: PutUint_def)
  moreover have "unat (ucast (drop_bit (8 * n) w) :: byte) = unat w div 256 ^ n mod 256"
    unfolding unsigned_ucast_eq unat_drop_bit_eq unfolding take_bit_eq_mod drop_bit_eq_div by (simp add: power_mult)
  moreover have "unat w mod (256 ^ n * 256) = 256 ^ n * (unat w div 256 ^ n mod 256) + unat w mod 256 ^ n"
    by (rule mod_mult2_eq)
  ultimately show ?case using Suc by (simp add: mult.commute)
qed (simp add: PutUint_def)

lemma GetUint_PutUint: "LENGTH('a) = 8 * n \<Longrightarrow> GetUint (PutUint n (w :: 'a::len word)) = w"
proof -
  assume "LENGTH('a) = 8 * n"
  moreover have "unat w < 2 ^ LENGTH('a)" by (rule unsigned_less)
  ultimately show ?thesis by (simp add: GetUint_def beval_PutUint power_mult)
qed

fun marked :: "bytes \<Rightarrow> bytes" where
  "marked [] = [0]"
| "marked (b # bs) = 1 # b # marked bs"

fun unmarked :: "bytes \<Rightarrow> bytes \<times> bytes" where
  "unmarked (x # b # bs) = (if x = 0 then ([], b # bs) else (case unmarked bs of (c, r) \<Rightarrow> (b # c, r)))"
| "unmarked [x] = ([], [])"
| "unmarked [] = ([], [])"

lemma unmarked_marked: "unmarked (marked c @ r) = (c, r)"
  by (induction c) (cases r; simp)+

definition demo_marshal :: "Envelope \<Rightarrow> bytes res" where
  "demo_marshal e = Inr (PutUint 4 (en_KeyEpoch e) @ PutUint 8 (en_Seq e) @ PutUint 4 (en_Compression e) @
     marked (en_Ciphertext e) @ en_Mac e)"

definition demo_unmarshal :: "bytes \<Rightarrow> Envelope res" where
  "demo_unmarshal b = (case unmarked (drop 16 b) of (c, m) \<Rightarrow>
     Inr \<lparr>en_KeyEpoch = GetUint (take 4 b), en_Seq = GetUint (take 8 (drop 4 b)),
          en_Compression = GetUint (take 4 (drop 12 b)), en_Ciphertext = c, en_Mac = m\<rparr>)"

lemma demo_unmarshal_marshal: "demo_marshal e = Inr b \<Longrightarrow> demo_unmarshal b = Inr e"
  by (auto simp: demo_marshal_def demo_unmarshal_def unmarked_marked GetUint_PutUint)

lemma demo_laws: "aead_roundtrip mac_crypto" "aead_tight demo_crypto" "codecs_roundtrip demo_codecs"
  by (auto simp: aead_roundtrip_def mac_crypto_def aead_tight_def codecs_roundtrip_def demo_codecs_def demo_crypto_def
      split: if_splits) (metis append_butlast_last_id)?

theorem envelope_roundtrip_witness:
  "\<exists>payload env. SealEnvelope mac_crypto demo_codecs demo_marshal demo_seal = Inr payload \<and> demo_unmarshal payload = Inr env \<and>
     OpenEnvelope mac_crypto demo_codecs TypeBatch [1] (Some demo_keys) None env = Inr [10, 20]"
proof -
  obtain payload where pl: "SealEnvelope mac_crypto demo_codecs demo_marshal demo_seal = Inr payload"
    by (auto simp: SealEnvelope_def demo_seal_def demo_keys_def HMACKeyLen_def compress_def NewAEAD_def mac_crypto_def
        demo_crypto_def demo_marshal_def Let_def)
  have k: "sl_Keys demo_seal = Some demo_keys" "sl_DualMACKey demo_seal = sk_DualMACKey demo_keys"
    "length (sl_BatchWire demo_seal) \<le> MaxDecompressedSize"
    by (simp_all add: demo_seal_def demo_keys_def MaxDecompressedSize_def)
  have "\<exists>env. demo_unmarshal payload = Inr env \<and> OpenEnvelope mac_crypto demo_codecs (sl_FrameType demo_seal)
      (sl_SessionID demo_seal) (Some demo_keys) (sl_Dict demo_seal) env = Inr (sl_BatchWire demo_seal)"
    by (rule envelope_roundtrip [where marshal = demo_marshal, OF demo_laws(1,3) _ k pl]) (rule demo_unmarshal_marshal)
  with pl show ?thesis by (simp add: demo_seal_def)
qed

theorem open_only_sealed_witness:
  "\<exists>keys aead plain. Some (demo_keys\<lparr>sk_DualMACKey := []\<rparr>) = Some keys \<and>
     en_Ciphertext \<lparr>en_KeyEpoch = 0, en_Seq = 5, en_Compression = COMPRESSION_NONE, en_Ciphertext =
       c_seal demo_crypto AES_GCM (sk_C2SKey demo_keys) (BuildNonce [1, 2, 3, 4] 5) [10]
         (envelopeAD TypeBatch [1] 0 5 COMPRESSION_NONE PROFILE_INTL), en_Mac = []\<rparr> =
     c_seal demo_crypto aead (sk_C2SKey keys) (BuildNonce (sk_NoncePrefixC keys) 5) plain
       (envelopeAD TypeBatch [1] 0 5 COMPRESSION_NONE (sk_Profile keys)) \<and> [10] = plain"
proof -
  let ?keys = "demo_keys\<lparr>sk_DualMACKey := []\<rparr>"
  let ?env = "\<lparr>en_KeyEpoch = 0, en_Seq = 5, en_Compression = COMPRESSION_NONE, en_Ciphertext =
       c_seal demo_crypto AES_GCM (sk_C2SKey demo_keys) (BuildNonce [1, 2, 3, 4] 5) [10]
         (envelopeAD TypeBatch [1] 0 5 COMPRESSION_NONE PROFILE_INTL), en_Mac = []\<rparr>"
  have "OpenEnvelope demo_crypto demo_codecs TypeBatch [1] (Some ?keys) None ?env = Inr [10]"
    by (simp add: OpenEnvelope_def demo_keys_def NewAEAD_def demo_crypto_def Let_def)
  from open_only_sealed [OF demo_laws(2) this] show ?thesis by (auto simp: Let_def)
qed

section \<open>The dictionary registry is bounded\<close>

definition dict_inv :: "zstdDictRegistry \<Rightarrow> bool" where
  "dict_inv r \<longleftrightarrow> distinct_keys (zr_reg r) \<and> distinct (zr_ord r) \<and> set (zr_ord r) = dom (map_of (zr_reg r)) \<and>
     length (zr_ord r) \<le> zstdDictRegistryCap \<and> (\<forall>(k, c) \<in> set (zr_reg r). zd_ID c = fst k)"

lemma dict_evict_spec:
  assumes "distinct ord" "set ord = dom (map_of reg)" "distinct_keys reg" "length ord \<le> Suc zstdDictRegistryCap"
    "dict_evict reg ord = (reg', ord')"
  shows "distinct ord' \<and> set ord' = dom (map_of reg') \<and> distinct_keys reg' \<and> length ord' \<le> zstdDictRegistryCap \<and>
    set reg' \<subseteq> set reg \<and> (ord' = ord \<or> ord' = tl ord \<and> ord' \<noteq> []) \<and> (ord \<noteq> [] \<longrightarrow> last ord \<in> set ord' \<and> map_of reg' (last ord) = map_of reg (last ord))"
proof (cases "length ord \<le> zstdDictRegistryCap")
  case True
  then have "reg' = reg" "ord' = ord" using assms(5) by (cases ord; simp)+
  with True assms show ?thesis by auto
next
  case False
  then obtain x q where q: "ord = x # q" "q \<noteq> []" using assms(4) by (cases ord; cases "tl ord") (auto simp: zstdDictRegistryCap_def)
  then have r: "reg' = AList.delete x reg" "ord' = q" using False assms(4,5) by (cases q; simp)+
  have ln: "last q \<noteq> x" using q assms(1) last_in_set [of q] by auto
  have "set q = dom (map_of (AList.delete x reg))" using q assms(1,2) by (auto simp: map_of_alist_delete)
  moreover have "set (AList.delete x reg) \<subseteq> set reg" by (rule set_alist_delete)
  ultimately show ?thesis using q r False assms ln by (auto simp: map_of_alist_delete)
qed

fun register_all :: "crypto \<Rightarrow> (u32 \<Rightarrow> bytes \<Rightarrow> go_err option) \<Rightarrow> (u32 \<times> bytes) list \<Rightarrow> zstdDictRegistry \<Rightarrow> zstdDictRegistry" where
  "register_all cr mkdec [] r = r"
| "register_all cr mkdec ((i, d) # xs) r = register_all cr mkdec xs (snd (RegisterZstdDict cr mkdec i d r))"

lemma touch_spec:
  assumes "distinct ord"
  shows "distinct (touchZstdDictLocked k ord) \<and> set (touchZstdDictLocked k ord) = insert k (set ord) \<and>
    length (touchZstdDictLocked k ord) = (if k \<in> set ord then length ord else Suc (length ord)) \<and>
    last (touchZstdDictLocked k ord) = k \<and> touchZstdDictLocked k ord \<noteq> []"
proof (cases "k \<in> set ord")
  case True
  then have "0 < length ord" by (cases ord) auto
  with True assms show ?thesis by (auto simp: touchZstdDictLocked_def length_remove1)
qed (use assms in \<open>auto simp: touchZstdDictLocked_def\<close>)

lemma RegisterZstdDict_inv:
  assumes inv: "dict_inv r" and reg: "RegisterZstdDict cr mkdec i d r = (res, r')"
  shows "dict_inv r' \<and> (case res of Inl _ \<Rightarrow> r' = r | Inr c \<Rightarrow> zd_ID c = i \<and>
    map_of (zr_reg r') (i, take 16 (c_hash cr SHA256 d)) = Some c \<and> last (zr_ord r') = (i, take 16 (c_hash cr SHA256 d)))"
proof -
  let ?k = "(i, take 16 (c_hash cr SHA256 d))"
  have v: "distinct_keys (zr_reg r)" "distinct (zr_ord r)" "set (zr_ord r) = dom (map_of (zr_reg r))"
    "length (zr_ord r) \<le> zstdDictRegistryCap" "\<forall>(k, c) \<in> set (zr_reg r). zd_ID c = fst k"
    using inv by (simp_all add: dict_inv_def)
  note t = touch_spec [OF v(2), of ?k]
  show ?thesis
  proof (cases "i = 0 \<or> d = [] \<or> (map_of (zr_reg r) ?k = None \<and> mkdec i d \<noteq> None)")
    case True
    then have "r' = r" "\<exists>e. res = Inl e" using reg by (auto simp: RegisterZstdDict_def Let_def split: option.splits if_splits)
    with inv show ?thesis by auto
  next
    case ok: False
    show ?thesis
    proof (cases "map_of (zr_reg r) ?k")
      case (Some c)
      then have "zd_ID c = i" using v(5) map_of_SomeD [OF Some] by auto
      moreover have "?k \<in> set (zr_ord r)" using v(3) Some by auto
      moreover have "res = Inr c" "r' = r\<lparr>zr_ord := touchZstdDictLocked ?k (zr_ord r)\<rparr>"
        using reg ok Some by (auto simp: RegisterZstdDict_def Let_def)
      ultimately show ?thesis using t v Some by (auto simp: dict_inv_def)
    next
      case None
      let ?c = "\<lparr>zd_ID = i, zd_raw = d\<rparr>"
      let ?reg = "AList.update ?k ?c (zr_reg r)"
      obtain rg od where ev: "dict_evict ?reg (touchZstdDictLocked ?k (zr_ord r)) = (rg, od)"
        by (cases "dict_evict ?reg (touchZstdDictLocked ?k (zr_ord r))")
      have res: "res = Inr ?c" "r' = \<lparr>zr_reg = rg, zr_ord = od\<rparr>"
        using reg ok None ev by (auto simp: RegisterZstdDict_def Let_def)
      have nk: "?k \<notin> set (zr_ord r)" using v(3) None by auto
      have "set (touchZstdDictLocked ?k (zr_ord r)) = dom (map_of ?reg)" using t v(3) by (auto simp: map_of_alist_update)
      note e = dict_evict_spec [OF _ this _ _ ev]
      have e': "distinct od \<and> set od = dom (map_of rg) \<and> distinct_keys rg \<and> length od \<le> zstdDictRegistryCap \<and> set rg \<subseteq> set ?reg \<and>
          map_of rg ?k = Some ?c \<and> (od = touchZstdDictLocked ?k (zr_ord r) \<or> od = tl (touchZstdDictLocked ?k (zr_ord r)) \<and> od \<noteq> [])"
        using e t v nk by (auto simp: map_of_alist_update)
      have "\<forall>(k, c) \<in> set ?reg. zd_ID c = fst k" using v(5) by (intro alist_update_all) simp_all
      with e' have "dict_inv r'" using res by (auto simp: dict_inv_def)
      moreover have "last od = ?k" using e' t by (auto simp: last_tl)
      ultimately show ?thesis using e' res by simp
    qed
  qed
qed

lemma register_all_inv: "dict_inv r \<Longrightarrow> dict_inv (register_all cr mkdec xs r)"
  by (induction cr mkdec xs r rule: register_all.induct)
    (auto simp: RegisterZstdDict_inv [OF _ prod.collapse [symmetric]])

text \<open>
  The dictionary registry is bounded and coherent. Starting from an empty registry, whatever
  dictionaries are registered, it never holds more than 8, its usage list names exactly the
  registered ones, each once, every codec carries the id it is filed under, and a successful registration
  leaves the returned codec registered as the most recently used one: the next registration of the
  same dictionary returns the same codec.
\<close>

theorem dict_registry_bounded:
  fixes cr :: crypto and mkdec :: "u32 \<Rightarrow> bytes \<Rightarrow> go_err option" and xs :: "(u32 \<times> bytes) list"
    and old :: zstdDictRegistry
  defines "r \<equiv> register_all cr mkdec xs (ResetZstdDicts old)"
  assumes "RegisterZstdDict cr mkdec i d r = (res, r')"
  shows "length (zr_ord r') \<le> 8 \<and> length (zr_reg r') = length (zr_ord r') \<and> distinct (zr_ord r') \<and>
    (\<forall>e. res = Inl e \<longrightarrow> r' = r) \<and>
    (\<forall>c. res = Inr c \<longrightarrow> zd_ID c = i \<and> fst (RegisterZstdDict cr mkdec i d r') = Inr c)"
proof -
  have "dict_inv r" unfolding r_def by (intro register_all_inv) (simp add: dict_inv_def ResetZstdDicts_def)
  from RegisterZstdDict_inv [OF this assms(2)] have inv: "dict_inv r'"
    and out: "case res of Inl _ \<Rightarrow> r' = r | Inr c \<Rightarrow> zd_ID c = i \<and>
      map_of (zr_reg r') (i, take 16 (c_hash cr SHA256 d)) = Some c \<and> last (zr_ord r') = (i, take 16 (c_hash cr SHA256 d))" by auto
  have "length (zr_ord r') = length (zr_reg r')"
    using inv by (intro alist_keys_length) (simp_all add: dict_inv_def dom_map_of_conv_image_fst)
  moreover have "fst (RegisterZstdDict cr mkdec i d r') = Inr c" if "res = Inr c" for c
  proof -
    have "i \<noteq> 0" "d \<noteq> []" using assms(2) that by (auto simp: RegisterZstdDict_def split: if_splits)
    with out that show ?thesis by (simp add: RegisterZstdDict_def Let_def)
  qed
  ultimately show ?thesis using inv out by (auto simp: dict_inv_def zstdDictRegistryCap_def)
qed

theorem dict_registry_bounded_witness:
  "length (zr_ord (snd (RegisterZstdDict demo_crypto (\<lambda>_ _. None) 3 [1, 2]
     (register_all demo_crypto (\<lambda>_ _. None) [(1, [5]), (2, [6])] (ResetZstdDicts \<lparr>zr_reg = [], zr_ord = []\<rparr>))))) \<le> 8"
  using dict_registry_bounded [OF prod.collapse [symmetric], where cr = demo_crypto and mkdec = "\<lambda>_ _. None" and i = 3 and d = "[1, 2]"
      and xs = "[(1, [5]), (2, [6])]" and old = "\<lparr>zr_reg = [], zr_ord = []\<rparr>"]
  by simp

end
