(* ===== verification/Manager.thy ===== *)
theory Manager
  imports Errors
begin

text \<open>
  The server side of the flow control, \<open>core/credit.go\<close> lines 226 to 541: the \<open>CreditManager\<close>
  (admission, deduplication, terminal ring and credit recovery under one lock) and the one-shot
  \<open>SettleGrant\<close>. Every method that holds the lock is one function on the manager; a method of a
  grant also takes and returns the grant. RESULT frames a method sends are returned as a list.
  The map \<open>seen\<close> is iterated by the reaper, so it is an association list; \<open>accepted\<close> is used as a
  set and \<open>terminal\<close> only looked up.
\<close>

section \<open>Data\<close>

type_synonym ResultLevel = u32

definition RESULT_LEVEL_ACCEPTED :: ResultLevel where "RESULT_LEVEL_ACCEPTED = 1"
definition RESULT_LEVEL_DURABLE :: ResultLevel where "RESULT_LEVEL_DURABLE = 2"
definition RESULT_LEVEL_REJECTED :: ResultLevel where "RESULT_LEVEL_REJECTED = 3"
definition RESULT_LEVEL_RELEASED :: ResultLevel where "RESULT_LEVEL_RELEASED = 4"

lemmas level_defs [simp] =
  RESULT_LEVEL_ACCEPTED_def RESULT_LEVEL_DURABLE_def RESULT_LEVEL_REJECTED_def RESULT_LEVEL_RELEASED_def

text \<open>The RESULT message; its \<open>detail\<close> field is never set by the code.\<close>

record Result =
  r_RefSeq :: u64
  r_Level :: ResultLevel
  r_Code :: u32
  r_RetryHintMs :: u32
  r_Correlation :: string

datatype AdmitDecision = AdmitAccept | AdmitDuplicate | AdmitTerminalHit | AdmitBelowUnknown | AdmitViolation

record TerminalEntry =
  te_Level :: ResultLevel
  te_Code :: u32

record InflightSlot =
  is_Seq :: u64
  is_Bytes :: i64
  is_Correlation :: string
  is_AddedAt :: time

record CreditManager =
  outstandingB :: i64
  outstandingY :: i64
  recoveredB :: i64
  recoveredY :: i64
  low :: u64
  accepted :: "u64 set"
  seen :: "(u64 \<times> InflightSlot) list"
  terminal :: "u64 \<rightharpoonup> TerminalEntry"
  ringOrd :: "u64 list"
  ringCap :: int

record SettleGrant =
  g_seq :: u64
  g_consumed :: bool
  g_done :: bool
  g_accepted :: bool

text \<open>The grant and the receipt data of an admission are present on the decisions that set them.\<close>

record AdmitResult =
  ar_Decision :: AdmitDecision
  ar_Grant :: "SettleGrant option"
  ar_DupSlot :: "InflightSlot option"
  ar_Terminal :: "TerminalEntry option"

section \<open>Operations\<close>

definition NewCreditManager :: "i64 \<Rightarrow> i64 \<Rightarrow> int \<Rightarrow> CreditManager" where
  "NewCreditManager initialB initialY cap =
    \<lparr>outstandingB = initialB, outstandingY = initialY, recoveredB = 0, recoveredY = 0, low = 1,
     accepted = {}, seen = [], terminal = Map.empty, ringOrd = [],
     ringCap = (if cap \<le> 0 then 256 else cap)\<rparr>"

definition Admit :: "u64 \<Rightarrow> time \<Rightarrow> CreditManager \<Rightarrow> AdmitResult \<times> CreditManager" where
  "Admit seq now m =
    (if seq = 0 then
       (\<lparr>ar_Decision = AdmitViolation, ar_Grant = None, ar_DupSlot = None, ar_Terminal = None\<rparr>, m)
     else case map_of (seen m) seq of
       Some s \<Rightarrow>
         (\<lparr>ar_Decision = AdmitDuplicate, ar_Grant = None, ar_DupSlot = Some s, ar_Terminal = None\<rparr>, m)
     | None \<Rightarrow>
         if seq \<in> accepted m \<or> seq < low m then
           (case terminal m seq of
              Some e \<Rightarrow>
                (\<lparr>ar_Decision = AdmitTerminalHit, ar_Grant = None, ar_DupSlot = None, ar_Terminal = Some e\<rparr>, m)
            | None \<Rightarrow>
                (\<lparr>ar_Decision = AdmitBelowUnknown, ar_Grant = None, ar_DupSlot = None, ar_Terminal = None\<rparr>, m))
         else
           (\<lparr>ar_Decision = AdmitAccept,
             ar_Grant = Some \<lparr>g_seq = seq, g_consumed = False, g_done = False, g_accepted = False\<rparr>,
             ar_DupSlot = None, ar_Terminal = None\<rparr>,
            m\<lparr>seen := AList.update seq
                \<lparr>is_Seq = seq, is_Bytes = 0, is_Correlation = [], is_AddedAt = now\<rparr> (seen m)\<rparr>))"

definition releaseLocked :: "u64 \<Rightarrow> CreditManager \<Rightarrow> CreditManager" where
  "releaseLocked seq m = m\<lparr>seen := AList.delete seq (seen m)\<rparr>"

definition Grant_Consume ::
    "i64 \<Rightarrow> SettleGrant \<Rightarrow> CreditManager \<Rightarrow> go_err option \<times> SettleGrant \<times> CreditManager" where
  "Grant_Consume frameBytes g m =
    (if g_done g then (Some (NewError ErrCodeInternal ''grant already settled''), g, m)
     else if sint (outstandingB m) < 1 \<or> sint (outstandingY m) < sint frameBytes then
       (Some (NewError ErrCodeWindowExceeded ''credit exhausted at admission''),
        g\<lparr>g_done := True\<rparr>, releaseLocked (g_seq g) m)
     else
       (None, g\<lparr>g_consumed := True\<rparr>,
        m\<lparr>outstandingB := outstandingB m - 1, outstandingY := outstandingY m - frameBytes,
          seen := (case map_of (seen m) (g_seq g) of
             Some s \<Rightarrow> AList.update (g_seq g) (s\<lparr>is_Bytes := frameBytes\<rparr>) (seen m)
           | None \<Rightarrow> seen m)\<rparr>))"

definition Grant_Backfill :: "string \<Rightarrow> SettleGrant \<Rightarrow> CreditManager \<Rightarrow> CreditManager" where
  "Grant_Backfill corr g m = m\<lparr>seen := (case map_of (seen m) (g_seq g) of
      Some s \<Rightarrow> AList.update (g_seq g) (s\<lparr>is_Correlation := corr\<rparr>) (seen m)
    | None \<Rightarrow> seen m)\<rparr>"

definition slot_corr :: "CreditManager \<Rightarrow> u64 \<Rightarrow> string" where
  "slot_corr m seq = (case map_of (seen m) seq of Some s \<Rightarrow> is_Correlation s | None \<Rightarrow> [])"

text \<open>The argument \<open>send\<close> of the next three says whether the injected sender is non-nil.\<close>

definition Grant_Accept :: "bool \<Rightarrow> SettleGrant \<Rightarrow> CreditManager \<Rightarrow> Result list \<times> SettleGrant" where
  "Grant_Accept send g m =
    (if \<not> send then ([], g)
     else (if \<not> g_accepted g \<and> \<not> g_done g
           then [\<lparr>r_RefSeq = g_seq g, r_Level = RESULT_LEVEL_ACCEPTED, r_Code = 0, r_RetryHintMs = 0,
                  r_Correlation = slot_corr m (g_seq g)\<rparr>]
           else [],
           g\<lparr>g_accepted := True\<rparr>))"

text \<open>\<open>advanceLowLocked\<close>: each round removes an element of a finite set, so the loop ends.\<close>

function advance :: "u64 set \<Rightarrow> u64 \<Rightarrow> u64 set \<times> u64" where
  "advance A l = (if l \<in> A then advance (A - {l}) (l + 1) else (A, l))"
  by pat_completeness auto
termination
  by (relation "measure (\<lambda>(A, l). card A)") (auto intro!: diff_less simp: card_gt_0_iff)

declare advance.simps [simp del]

definition advanceLowLocked :: "CreditManager \<Rightarrow> CreditManager" where
  "advanceLowLocked m = (let (A, l) = advance (accepted m) (low m) in m\<lparr>accepted := A, low := l\<rparr>)"

text \<open>Recording an outcome: a new entry goes to the back of the ring and may evict the front one.\<close>

definition record_terminal :: "u64 \<Rightarrow> TerminalEntry \<Rightarrow> CreditManager \<Rightarrow> CreditManager" where
  "record_terminal seq e m =
    (let (tm, ring) =
       (if terminal m seq = None then
          (let ring1 = ringOrd m @ [seq]
           in if int (length ring1) > ringCap m
              then ((terminal m)(hd ring1 := None), tl ring1)
              else (terminal m, ring1))
        else (terminal m, ringOrd m))
     in m\<lparr>terminal := tm(seq \<mapsto> e), ringOrd := ring\<rparr>)"

definition Grant_Settle :: "bool \<Rightarrow> ResultLevel \<Rightarrow> u32 \<Rightarrow> u32 \<Rightarrow> i64 \<Rightarrow> SettleGrant \<Rightarrow> CreditManager
    \<Rightarrow> Result list \<times> SettleGrant \<times> CreditManager" where
  "Grant_Settle send level code retryMs frameBytes g m =
    (if g_done g then ([], g, m)
     else
       let g = g\<lparr>g_done := True\<rparr>; seq = g_seq g; sl = map_of (seen m) seq;
           corr = slot_corr m seq;
           frameBytes = (case sl of Some s \<Rightarrow> if 0 < sint (is_Bytes s) then is_Bytes s else frameBytes
                                  | None \<Rightarrow> frameBytes);
           frameBytes = (if sint frameBytes < 0 then 0 else frameBytes)
       in if terminal m seq \<noteq> None \<and> sl = None then ([], g, m)
          else
            let m = m\<lparr>seen := AList.delete seq (seen m), accepted := insert seq (accepted m)\<rparr>;
                m = record_terminal seq \<lparr>te_Level = level, te_Code = code\<rparr> m;
                m = m\<lparr>recoveredB := recoveredB m + 1, recoveredY := recoveredY m + frameBytes\<rparr>;
                m = advanceLowLocked m
            in (if send then [\<lparr>r_RefSeq = seq, r_Level = level, r_Code = code, r_RetryHintMs = retryMs,
                              r_Correlation = corr\<rparr>] else [], g, m))"

definition Grant_Release :: "SettleGrant \<Rightarrow> CreditManager \<Rightarrow> SettleGrant \<times> CreditManager" where
  "Grant_Release g m = (if g_done g then (g, m) else (g\<lparr>g_done := True\<rparr>, releaseLocked (g_seq g) m))"

text \<open>
  \<open>ForceSettle\<close> holds the lock twice. The first section looks the sequence number up: an in-flight
  one yields a fresh grant and the byte count to settle with, an already settled one re-sends the
  stored outcome. The second section is \<open>Settle\<close> on that grant.
\<close>

definition force_lookup :: "bool \<Rightarrow> u64 \<Rightarrow> i64 \<Rightarrow> CreditManager \<Rightarrow> Result list \<times> (SettleGrant \<times> i64) option" where
  "force_lookup send seq frameBytes m = (case map_of (seen m) seq of
      None \<Rightarrow>
        (if seq \<in> accepted m \<or> seq < low m then
           (case terminal m seq of
              Some e \<Rightarrow> (if send then [\<lparr>r_RefSeq = seq, r_Level = te_Level e, r_Code = te_Code e,
                          r_RetryHintMs = 0, r_Correlation = []\<rparr>] else [], None)
            | None \<Rightarrow> ([], None))
         else ([], None))
    | Some s \<Rightarrow>
        ([], Some (\<lparr>g_seq = seq, g_consumed = True, g_done = False, g_accepted = False\<rparr>,
                   if 0 < sint (is_Bytes s) then is_Bytes s else frameBytes)))"

definition ForceSettle :: "bool \<Rightarrow> u64 \<Rightarrow> ResultLevel \<Rightarrow> u32 \<Rightarrow> u32 \<Rightarrow> i64 \<Rightarrow> CreditManager
    \<Rightarrow> Result list \<times> CreditManager" where
  "ForceSettle send seq level code retryMs frameBytes m =
    (case force_lookup send seq frameBytes m of
       (rs, None) \<Rightarrow> (rs, m)
     | (rs, Some (g, fb)) \<Rightarrow>
         (let (rs', _, m') = Grant_Settle send level code retryMs fb g m in (rs @ rs', m')))"

definition TakeRecovered :: "CreditManager \<Rightarrow> (i64 \<times> i64) \<times> CreditManager" where
  "TakeRecovered m =
    (if sint (recoveredB m) \<le> 0 \<and> sint (recoveredY m) \<le> 0 then ((0, 0), m)
     else ((recoveredB m, recoveredY m),
       m\<lparr>recoveredB := 0, recoveredY := 0, outstandingB := outstandingB m + recoveredB m,
         outstandingY := outstandingY m + recoveredY m\<rparr>))"

definition Manager_Pending :: "CreditManager \<Rightarrow> nat" where
  "Manager_Pending m = length (seen m)"

definition older :: "time \<Rightarrow> u64 \<times> InflightSlot \<Rightarrow> (u64 \<times> InflightSlot) option \<Rightarrow> (u64 \<times> InflightSlot) option" where
  "older cutoff kv best = (if is_AddedAt (snd kv) < cutoff \<and>
      (case best of None \<Rightarrow> True | Some (bestSeq, _) \<Rightarrow> fst kv < bestSeq) then Some kv else best)"

definition OldestBefore :: "time \<Rightarrow> CreditManager \<Rightarrow> (u64 \<times> InflightSlot) option" where
  "OldestBefore cutoff m = fold (older cutoff) (seen m) None"

section \<open>Settled sequence numbers and the manager's invariant\<close>

text \<open>A number is settled when it is in \<open>accepted\<close> or below the contiguous prefix.\<close>

definition settled :: "CreditManager \<Rightarrow> u64 set" where
  "settled m = accepted m \<union> {s. s < low m}"

definition inflight :: "CreditManager \<Rightarrow> u64 set" where
  "inflight m = dom (map_of (seen m))"

definition mgr_inv :: "CreditManager \<Rightarrow> bool" where
  "mgr_inv m \<longleftrightarrow>
     distinct_keys (seen m) \<and> (\<forall>(k, s) \<in> set (seen m). is_Seq s = k \<and> k \<noteq> 0 \<and> k \<noteq> -1) \<and>
     0 < ringCap m \<and> int (length (ringOrd m)) \<le> ringCap m \<and> distinct (ringOrd m) \<and>
     dom (terminal m) = set (ringOrd m) \<and> set (ringOrd m) \<subseteq> settled m \<and>
     low m \<notin> accepted m \<and> 0 \<notin> accepted m \<and> -1 \<notin> accepted m \<and> 0 < low m \<and>
     inflight m \<inter> settled m = {}"

lemma mgr_inv_New: "mgr_inv (NewCreditManager b y cap)"
  by (simp add: mgr_inv_def NewCreditManager_def inflight_def)

section \<open>The contiguous prefix\<close>

lemma less_inc_iff:
  fixes l x :: u64
  assumes "l \<noteq> -1"
  shows "x < l + 1 \<longleftrightarrow> x \<le> l"
proof -
  have "l + 1 \<noteq> 0" using assms by (simp add: eq_neg_iff_add_eq_0)
  then have "unat (l + 1) = Suc (unat l)" using unatSuc [of l] by (simp add: add.commute)
  then show ?thesis by (simp add: word_less_nat_alt word_le_nat_alt less_Suc_eq_le)
qed

lemma advance_spec:
  assumes "-1 \<notin> A" and "advance A l = (A', l')"
  shows "A' \<union> {s. s < l'} = A \<union> {s. s < l} \<and> l' \<notin> A' \<and> A' \<subseteq> A \<and> l \<le> l'"
  using assms
proof (induction A l arbitrary: A' l' rule: advance.induct)
  case (1 A l)
  show ?case
  proof (cases "l \<in> A")
    case True
    with 1 have "l \<noteq> -1" by auto
    from True 1 have "A' \<union> {s. s < l'} = A - {l} \<union> {s. s < l + 1} \<and> l' \<notin> A' \<and> A' \<subseteq> A - {l} \<and> l + 1 \<le> l'"
      by (simp add: advance.simps [of A l])
    moreover have "l < l + 1" using \<open>l \<noteq> -1\<close> by (simp add: less_inc_iff)
    moreover have "A - {l} \<union> {s. s < l + 1} = A \<union> {s. s < l}"
      using True \<open>l \<noteq> -1\<close> by (auto simp: less_inc_iff order_le_less)
    ultimately show ?thesis by auto
  next
    case False
    with 1 show ?thesis by (simp add: advance.simps [of A l])
  qed
qed

lemma advanceLow_fields [simp]:
  "outstandingB (advanceLowLocked m) = outstandingB m" "outstandingY (advanceLowLocked m) = outstandingY m"
  "recoveredB (advanceLowLocked m) = recoveredB m" "recoveredY (advanceLowLocked m) = recoveredY m"
  "seen (advanceLowLocked m) = seen m" "terminal (advanceLowLocked m) = terminal m"
  "ringOrd (advanceLowLocked m) = ringOrd m" "ringCap (advanceLowLocked m) = ringCap m"
  "inflight (advanceLowLocked m) = inflight m"
  by (simp_all add: advanceLowLocked_def inflight_def split: prod.splits)

lemma advanceLow_settled:
  assumes "-1 \<notin> accepted m"
  shows "settled (advanceLowLocked m) = settled m" "low (advanceLowLocked m) \<notin> accepted (advanceLowLocked m)"
    "accepted (advanceLowLocked m) \<subseteq> accepted m" "low m \<le> low (advanceLowLocked m)"
  using advance_spec [OF assms, of "low m"]
  by (auto simp: advanceLowLocked_def settled_def split: prod.splits)

section \<open>Effects of the operations\<close>

lemma inflight_iff: "s \<in> inflight m \<longleftrightarrow> map_of (seen m) s \<noteq> None"
  by (auto simp: inflight_def)

lemma settled_iff: "s \<in> settled m \<longleftrightarrow> s \<in> accepted m \<or> s < low m"
  by (simp add: settled_def)

text \<open>When a \<open>Settle\<close> takes effect, and what it then does.\<close>

definition effective :: "SettleGrant \<Rightarrow> CreditManager \<Rightarrow> bool" where
  "effective g m \<longleftrightarrow> \<not> g_done g \<and> (terminal m (g_seq g) = None \<or> g_seq g \<in> inflight m)"

definition settle_bytes :: "i64 \<Rightarrow> SettleGrant \<Rightarrow> CreditManager \<Rightarrow> i64" where
  "settle_bytes fb g m =
    (let fb = (case map_of (seen m) (g_seq g) of
                 Some s \<Rightarrow> if 0 < sint (is_Bytes s) then is_Bytes s else fb | None \<Rightarrow> fb)
     in if sint fb < 0 then 0 else fb)"

lemma Settle_ineffective:
  assumes "\<not> effective g m"
  shows "Grant_Settle send level code retry fb g m = ([], g\<lparr>g_done := True\<rparr>, m)"
  using assms by (cases g) (auto simp: Grant_Settle_def effective_def inflight_iff Let_def)

lemma ring_terminal_None: "mgr_inv m \<Longrightarrow> effective g m \<Longrightarrow> terminal m (g_seq g) = None"
  by (auto simp: mgr_inv_def effective_def)

lemma Settle_effective:
  assumes "mgr_inv m" "effective g m" "g_seq g \<noteq> -1"
    and "Grant_Settle send level code retry fb g m = (rs, g', m')"
  defines "ring \<equiv> ringOrd m @ [g_seq g]"
  shows "g' = g\<lparr>g_done := True\<rparr>"
    "rs = (if send then [\<lparr>r_RefSeq = g_seq g, r_Level = level, r_Code = code, r_RetryHintMs = retry,
        r_Correlation = slot_corr m (g_seq g)\<rparr>] else [])"
    "outstandingB m' = outstandingB m" "outstandingY m' = outstandingY m"
    "recoveredB m' = recoveredB m + 1" "recoveredY m' = recoveredY m + settle_bytes fb g m"
    "seen m' = AList.delete (g_seq g) (seen m)" "ringCap m' = ringCap m"
    "ringOrd m' = (if int (length ring) > ringCap m then tl ring else ring)"
    "terminal m' = (if int (length ring) > ringCap m then (terminal m)(hd ring := None) else terminal m)
       (g_seq g \<mapsto> \<lparr>te_Level = level, te_Code = code\<rparr>)"
    "settled m' = insert (g_seq g) (settled m)" "low m' \<notin> accepted m'"
    "accepted m' \<subseteq> insert (g_seq g) (accepted m)" "low m \<le> low m'"
proof -
  let ?m1 = "record_terminal (g_seq g) \<lparr>te_Level = level, te_Code = code\<rparr>
      (m\<lparr>seen := AList.delete (g_seq g) (seen m), accepted := insert (g_seq g) (accepted m)\<rparr>)"
  let ?m2 = "?m1\<lparr>recoveredB := recoveredB ?m1 + 1, recoveredY := recoveredY ?m1 + settle_bytes fb g m\<rparr>"
  have tn: "terminal m (g_seq g) = None" using assms(1,2) by (rule ring_terminal_None)
  have nd: "\<not> g_done g" using assms(2) by (simp add: effective_def)
  have m': "m' = advanceLowLocked ?m2" and g': "g' = g\<lparr>g_done := True\<rparr>"
    and rs: "rs = (if send then [\<lparr>r_RefSeq = g_seq g, r_Level = level, r_Code = code, r_RetryHintMs = retry,
        r_Correlation = slot_corr m (g_seq g)\<rparr>] else [])"
    using assms(4) nd tn by (auto simp: Grant_Settle_def settle_bytes_def Let_def)
  show "g' = g\<lparr>g_done := True\<rparr>" by (fact g')
  show "rs = (if send then [\<lparr>r_RefSeq = g_seq g, r_Level = level, r_Code = code, r_RetryHintMs = retry,
        r_Correlation = slot_corr m (g_seq g)\<rparr>] else [])" by (fact rs)
  have f: "accepted ?m2 = insert (g_seq g) (accepted m)" "low ?m2 = low m"
    by (simp_all add: record_terminal_def Let_def split: prod.splits)
  have "-1 \<notin> accepted ?m2" using assms(1,3) by (auto simp: f mgr_inv_def)
  note adv = advanceLow_settled [OF this]
  have "settled ?m2 = insert (g_seq g) (settled m)" by (auto simp: settled_def f)
  with adv(1) show "settled m' = insert (g_seq g) (settled m)" by (simp add: m')
  from adv(2) show "low m' \<notin> accepted m'" by (simp add: m')
  from adv(3) show "accepted m' \<subseteq> insert (g_seq g) (accepted m)" by (simp add: m' f)
  from adv(4) show "low m \<le> low m'" by (simp add: m' f)
  show "outstandingB m' = outstandingB m" "outstandingY m' = outstandingY m"
    "recoveredB m' = recoveredB m + 1" "recoveredY m' = recoveredY m + settle_bytes fb g m"
    "seen m' = AList.delete (g_seq g) (seen m)" "ringCap m' = ringCap m"
    "ringOrd m' = (if int (length ring) > ringCap m then tl ring else ring)"
    "terminal m' = (if int (length ring) > ringCap m then (terminal m)(hd ring := None) else terminal m)
       (g_seq g \<mapsto> \<lparr>te_Level = level, te_Code = code\<rparr>)"
    by (simp_all add: m' record_terminal_def Let_def tn ring_def split: prod.splits)
qed

lemma inflight_delete: "seen m' = AList.delete s (seen m) \<Longrightarrow> inflight m' = inflight m - {s}"
  by (auto simp: inflight_def map_of_alist_delete)

lemma inflight_update: "seen m' = AList.update s v (seen m) \<Longrightarrow> inflight m' = insert s (inflight m)"
  by (auto simp: inflight_def map_of_alist_update)

end
