(* ===== verification/Validation.thy ===== *)
theory Validation
  imports Messages Manager
begin

text \<open>
  Input validation: \<open>core/validation.go\<close> and the message checks of \<open>core/message.go\<close>. A Go string
  is a sequence of bytes, here of characters; \<open>range\<close> over a string and \<open>strings.Map\<close> decode it as UTF-8, so the decoder and
  the encoder of \<open>unicode/utf8\<close> are modelled, and the rune loops of the validators are shown to be checks on bytes.
\<close>

section \<open>UTF-8\<close>

abbreviation ord :: "char \<Rightarrow> nat" where "ord c \<equiv> of_char c"

definition RuneError :: nat where "RuneError = 0xFFFD"

text \<open>The number of bytes a first byte announces (0: no valid first byte) and the range of its second byte.\<close>

definition utf8_size :: "nat \<Rightarrow> nat" where
  "utf8_size b = (if b < 0x80 then 1 else if b < 0xC2 then 0 else if b < 0xE0 then 2
     else if b < 0xF0 then 3 else if b < 0xF5 then 4 else 0)"

definition utf8_second :: "nat \<Rightarrow> nat \<Rightarrow> bool" where
  "utf8_second b x \<longleftrightarrow> (if b = 0xE0 then 0xA0 else if b = 0xF0 then 0x90 else 0x80) \<le> x \<and>
     x \<le> (if b = 0xED then 0x9F else if b = 0xF4 then 0x8F else 0xBF)"

definition utf8_cont :: "nat \<Rightarrow> bool" where
  "utf8_cont x \<longleftrightarrow> 0x80 \<le> x \<and> x \<le> 0xBF"

fun DecodeRune :: "string \<Rightarrow> nat \<times> nat" where
  "DecodeRune [] = (RuneError, 0)"
| "DecodeRune (a # cs) =
    (if utf8_size (ord a) = 1 then (ord a, 1) else
     case cs of [] \<Rightarrow> (RuneError, 1) | b # cs' \<Rightarrow>
       if utf8_size (ord a) = 0 \<or> \<not> utf8_second (ord a) (ord b) then (RuneError, 1)
       else if utf8_size (ord a) = 2 then ((ord a - 0xC0) * 64 + (ord b - 0x80), 2) else
       case cs' of [] \<Rightarrow> (RuneError, 1) | c # cs'' \<Rightarrow>
         if \<not> utf8_cont (ord c) then (RuneError, 1)
         else if utf8_size (ord a) = 3 then
           ((ord a - 0xE0) * 4096 + (ord b - 0x80) * 64 + (ord c - 0x80), 3) else
         case cs'' of [] \<Rightarrow> (RuneError, 1) | d # _ \<Rightarrow>
           if \<not> utf8_cont (ord d) then (RuneError, 1)
           else ((ord a - 0xF0) * 262144 + (ord b - 0x80) * 4096 + (ord c - 0x80) * 64 + (ord d - 0x80), 4))"

lemma DecodeRune_cases:
  assumes "DecodeRune (a # cs) = (r, w)"
  shows "(ord a < 0x80 \<and> r = ord a \<and> w = 1) \<or>
     (0x80 \<le> r \<and> 1 \<le> w \<and> w \<le> length (a # cs) \<and> (\<forall>x \<in> set (take w (a # cs)). 0x80 \<le> ord x))"
  using assms
  by (auto simp: utf8_size_def utf8_second_def utf8_cont_def RuneError_def split: if_splits list.splits)

lemma DecodeRune_width: "s \<noteq> [] \<Longrightarrow> 0 < snd (DecodeRune s)"
  using DecodeRune_cases [of "hd s" "tl s" "fst (DecodeRune s)" "snd (DecodeRune s)"] by (cases s) auto

text \<open>The runes of a string in the order \<open>range\<close> visits them, each with its width in bytes.\<close>

function runes :: "string \<Rightarrow> (nat \<times> nat) list" where
  "runes [] = []"
| "runes (c # cs) = DecodeRune (c # cs) # runes (drop (snd (DecodeRune (c # cs))) (c # cs))"
  by pat_completeness auto
termination
proof (relation "measure length")
  fix c :: char and cs
  show "(drop (snd (DecodeRune (c # cs))) (c # cs), c # cs) \<in> measure length"
    using DecodeRune_width [of "c # cs"] by simp
qed simp

text \<open>\<open>utf8.AppendRune\<close>: surrogates and numbers above the last code point are written as U+FFFD.\<close>

definition encode3 :: "nat \<Rightarrow> string" where
  "encode3 r = [char_of (0xE0 + r div 4096), char_of (0x80 + r div 64 mod 64), char_of (0x80 + r mod 64)]"

definition AppendRune :: "nat \<Rightarrow> string" where
  "AppendRune r =
    (if r < 0x80 then [char_of r]
     else if r < 0x800 then [char_of (0xC0 + r div 64), char_of (0x80 + r mod 64)]
     else if 0x10FFFF < r \<or> (0xD800 \<le> r \<and> r \<le> 0xDFFF) then encode3 RuneError
     else if r < 0x10000 then encode3 r
     else [char_of (0xF0 + r div 262144), char_of (0x80 + r div 4096 mod 64),
           char_of (0x80 + r div 64 mod 64), char_of (0x80 + r mod 64)])"

definition strings_Map :: "(nat \<Rightarrow> nat) \<Rightarrow> string \<Rightarrow> string" where
  "strings_Map f s = concat (map (\<lambda>(r, w). AppendRune (f r)) (runes s))"

text \<open>A rune below 128 occurs in a string exactly when the byte of that value does.\<close>

lemma ascii_runes:
  assumes "\<And>r. P r \<Longrightarrow> r < 0x80"
  shows "(\<exists>(r, w) \<in> set (runes s). P r) \<longleftrightarrow> (\<exists>c \<in> set s. P (ord c))"
proof (induction s rule: runes.induct)
  case (2 c cs)
  obtain r w where d: "DecodeRune (c # cs) = (r, w)" by force
  have split: "(\<exists>x \<in> set (c # cs). P (ord x)) \<longleftrightarrow>
      (\<exists>x \<in> set (take w (c # cs)). P (ord x)) \<or> (\<exists>x \<in> set (drop w (c # cs)). P (ord x))"
    by (metis Un_iff append_take_drop_id set_append)
  have head: "(\<exists>x \<in> set (take w (c # cs)). P (ord x)) \<longleftrightarrow> P r"
    using DecodeRune_cases [OF d] assms by (fastforce simp: not_less)
  have "(\<exists>(r, w) \<in> set (runes (c # cs)). P r) \<longleftrightarrow> P r \<or> (\<exists>x \<in> set (drop w (c # cs)). P (ord x))"
    using 2 d by (simp del: DecodeRune.simps)
  then show ?case unfolding split head .
qed simp

text \<open>A check that only accepts runes below 128 is the same check on every byte.\<close>

lemma ascii_all:
  assumes "\<And>r. P r \<Longrightarrow> r < 0x80"
  shows "list_all (\<lambda>(r, w). P r) (runes s) \<longleftrightarrow> list_all (\<lambda>c. P (ord c)) s"
proof (induction s rule: runes.induct)
  case (2 c cs)
  obtain r w where d: "DecodeRune (c # cs) = (r, w)" by force
  show ?case
  proof (cases "P r")
    case True
    then have "w = 1" "r = ord c" using DecodeRune_cases [OF d] assms [of r] by auto
    then show ?thesis using 2 d True by (simp del: DecodeRune.simps)
  next
    case False
    have "c \<in> set (take w (c # cs))" if "1 \<le> w" using that by (cases w) simp_all
    then have "\<not> P (ord c)" using False DecodeRune_cases [OF d] assms [of "ord c"] by fastforce
    then show ?thesis using d False by (simp del: DecodeRune.simps)
  qed
qed simp

lemma ord_char_of: "n < 256 \<Longrightarrow> ord (char_of n) = n"
  by (simp add: of_char_of)

lemma digit64: "y < 64 \<Longrightarrow> (x * 64 + y) div 64 = (x :: nat)" "y < 64 \<Longrightarrow> (x * 64 + y) mod 64 = (y :: nat)"
  by simp_all

text \<open>Inversion of the decoder by the width it reports.\<close>

lemma utf8_size_inv:
  "utf8_size b = 1 \<Longrightarrow> b < 0x80"
  "utf8_size b = 2 \<Longrightarrow> 0xC2 \<le> b \<and> b < 0xE0"
  "utf8_size b = 3 \<Longrightarrow> 0xE0 \<le> b \<and> b < 0xF0"
  "utf8_size b = 4 \<Longrightarrow> 0xF0 \<le> b \<and> b < 0xF5"
  "utf8_size b \<in> {0, 1, 2, 3, 4}"
  by (simp_all add: utf8_size_def split: if_splits)

lemma DecodeRune_width1:
  "DecodeRune (a # cs) = (r, 1) \<Longrightarrow> r \<noteq> RuneError \<Longrightarrow> r = ord a \<and> utf8_size (ord a) = 1"
  by (simp split: if_splits list.splits)

lemma DecodeRune_width2:
  "DecodeRune (a # cs) = (r, 2) \<Longrightarrow> \<exists>b cs'. cs = b # cs' \<and> utf8_size (ord a) = 2 \<and>
     utf8_second (ord a) (ord b) \<and> r = (ord a - 0xC0) * 64 + (ord b - 0x80)"
  by (simp split: if_splits list.splits)

lemma DecodeRune_width3:
  "DecodeRune (a # cs) = (r, 3) \<Longrightarrow> \<exists>b c cs'. cs = b # c # cs' \<and> utf8_size (ord a) = 3 \<and>
     utf8_second (ord a) (ord b) \<and> utf8_cont (ord c) \<and>
     r = (ord a - 0xE0) * 4096 + (ord b - 0x80) * 64 + (ord c - 0x80)"
  by (simp split: if_splits list.splits)

lemma DecodeRune_width4:
  assumes "DecodeRune (a # cs) = (r, 4)"
  shows "\<exists>b c d cs'. cs = b # c # d # cs' \<and> utf8_size (ord a) = 4 \<and>
     utf8_second (ord a) (ord b) \<and> utf8_cont (ord c) \<and> utf8_cont (ord d) \<and>
     r = (ord a - 0xF0) * 262144 + (ord b - 0x80) * 4096 + (ord c - 0x80) * 64 + (ord d - 0x80)"
  using assms utf8_size_inv(5) [of "ord a"] by (simp split: if_splits list.splits)

lemma DecodeRune_widths: "DecodeRune (a # cs) = (r, w) \<Longrightarrow> w \<in> {1, 2, 3, 4}"
  by (simp split: if_splits list.splits)

text \<open>Decoding a well-formed rune and encoding it again gives its bytes back.\<close>

lemma char_of_eq_ord: "n < 256 \<Longrightarrow> char_of n = c \<longleftrightarrow> n = ord c" for n :: nat
  by (metis char_of_char ord_char_of)

lemma AppendRune2:
  assumes "0xC2 \<le> ord a" "ord a < 0xE0" "utf8_second (ord a) (ord b)"
    and req: "r = (ord a - 0xC0) * 64 + (ord b - 0x80)"
  shows "AppendRune r = [a, b]"
proof -
  define x y where "x = ord a - 0xC0" and "y = ord b - 0x80"
  have y: "y < 64" "ord b = 0x80 + y" "ord a = 0xC0 + x" "2 \<le> x" "x < 32"
    using assms(1-3) by (auto simp: x_def y_def utf8_second_def split: if_splits)
  have r: "r = x * 64 + y" unfolding req x_def y_def ..
  have "r div 64 = x" "r mod 64 = y" unfolding r using y(1) by (simp_all add: digit64)
  moreover have "0x80 \<le> r" "r < 0x800" using y unfolding r by linarith+
  ultimately show ?thesis using y by (simp add: AppendRune_def char_of_eq_ord)
qed

lemma AppendRune3:
  assumes "0xE0 \<le> ord a" "ord a < 0xF0" "utf8_second (ord a) (ord b)" "utf8_cont (ord c)"
    and req: "r = (ord a - 0xE0) * 4096 + (ord b - 0x80) * 64 + (ord c - 0x80)"
  shows "AppendRune r = [a, b, c]"
proof -
  define x y z where "x = ord a - 0xE0" and "y = ord b - 0x80" and "z = ord c - 0x80"
  have y: "y < 64" "ord b = 0x80 + y" "z < 64" "ord c = 0x80 + z" "ord a = 0xE0 + x" "x < 16"
    "x = 0 \<longrightarrow> 32 \<le> y" "x = 13 \<longrightarrow> y < 32"
    using assms(1-4) by (auto simp: x_def y_def z_def utf8_second_def utf8_cont_def split: if_splits)
  have r: "r = x * 4096 + y * 64 + z" unfolding req x_def y_def z_def ..
  have r': "r = (x * 64 + y) * 64 + z" by (simp add: r)
  have "r div 4096 = r div 64 div 64" by (simp add: div_mult2_eq [symmetric])
  moreover have "r div 64 = x * 64 + y" "r mod 64 = z" unfolding r' by (simp_all only: digit64 y)
  ultimately have d: "r div 4096 = x" "r div 64 mod 64 = y" "r mod 64 = z" by (simp_all only: digit64 y)
  have b: "0x800 \<le> r" "r < 0x10000" using y unfolding r by linarith+
  have "\<not> (0xD800 \<le> r \<and> r \<le> 0xDFFF)"
  proof
    assume "0xD800 \<le> r \<and> r \<le> 0xDFFF"
    moreover from this have "x = 13" using y(1,3) unfolding r by linarith
    ultimately show False using y unfolding r by linarith
  qed
  with d b show ?thesis using y by (auto simp: AppendRune_def encode3_def char_of_eq_ord)
qed

lemma AppendRune4:
  assumes "0xF0 \<le> ord a" "ord a < 0xF5" "utf8_second (ord a) (ord b)" "utf8_cont (ord c)" "utf8_cont (ord d)"
    and req: "r = (ord a - 0xF0) * 262144 + (ord b - 0x80) * 4096 + (ord c - 0x80) * 64 + (ord d - 0x80)"
  shows "AppendRune r = [a, b, c, d]"
proof -
  define x y z v where "x = ord a - 0xF0" and "y = ord b - 0x80" and "z = ord c - 0x80" and "v = ord d - 0x80"
  have y: "y < 64" "ord b = 0x80 + y" "z < 64" "ord c = 0x80 + z" "v < 64" "ord d = 0x80 + v" "ord a = 0xF0 + x"
    "x < 5" "x = 0 \<longrightarrow> 16 \<le> y" "x = 4 \<longrightarrow> y < 16"
    using assms(1-5) by (auto simp: x_def y_def z_def v_def utf8_second_def utf8_cont_def split: if_splits)
  have r: "r = x * 262144 + y * 4096 + z * 64 + v" unfolding req x_def y_def z_def v_def ..
  have r': "r = ((x * 64 + y) * 64 + z) * 64 + v" by (simp add: r)
  have "r div 262144 = r div 64 div 64 div 64" "r div 4096 = r div 64 div 64" by (simp_all add: div_mult2_eq [symmetric])
  moreover have "r div 64 = (x * 64 + y) * 64 + z" "r mod 64 = v" unfolding r' by (simp_all only: digit64 y)
  ultimately have "r div 262144 = x" "r div 4096 mod 64 = y" "r div 64 mod 64 = z" "r mod 64 = v"
    by (simp_all only: digit64 y)
  moreover have "0x10000 \<le> r" "r \<le> 0x10FFFF" using y unfolding r by linarith+
  ultimately show ?thesis using y by (simp add: AppendRune_def char_of_eq_ord)
qed

lemma AppendRune_DecodeRune:
  assumes "DecodeRune s = (r, w)" and "(r, w) \<noteq> (RuneError, 1)" and "s \<noteq> []"
  shows "AppendRune r = take w s"
proof -
  obtain a cs where s: "s = a # cs" using assms(3) by (cases s) auto
  consider (one) "w = 1" "r = ord a" "ord a < 0x80"
    | (two) b cs' where "cs = b # cs'" "0xC2 \<le> ord a" "ord a < 0xE0" "utf8_second (ord a) (ord b)"
        "r = (ord a - 0xC0) * 64 + (ord b - 0x80)" "w = 2"
    | (three) b c cs' where "cs = b # c # cs'" "0xE0 \<le> ord a" "ord a < 0xF0" "utf8_second (ord a) (ord b)"
        "utf8_cont (ord c)" "r = (ord a - 0xE0) * 4096 + (ord b - 0x80) * 64 + (ord c - 0x80)" "w = 3"
    | (four) b c d cs' where "cs = b # c # d # cs'" "0xF0 \<le> ord a" "ord a < 0xF5" "utf8_second (ord a) (ord b)"
        "utf8_cont (ord c)" "utf8_cont (ord d)"
        "r = (ord a - 0xF0) * 262144 + (ord b - 0x80) * 4096 + (ord c - 0x80) * 64 + (ord d - 0x80)" "w = 4"
    using assms(1,2) DecodeRune_widths [of a cs r w] DecodeRune_width1 [of a cs r] DecodeRune_width2 [of a cs r]
      DecodeRune_width3 [of a cs r] DecodeRune_width4 [of a cs r] utf8_size_inv(1-4) [of "ord a"]
    unfolding s by (metis empty_iff insert_iff)
  then show ?thesis
  proof cases
    case one then show ?thesis by (simp add: s AppendRune_def)
  next
    case two then show ?thesis using AppendRune2 [of a b r] by (simp add: s)
  next
    case three then show ?thesis using AppendRune3 [OF three(2-6)] by (simp add: s)
  next
    case four then show ?thesis using AppendRune4 [OF four(2-7)] by (simp add: s)
  qed
qed


section \<open>Identifiers and text fields\<close>

definition MaxSignalFieldLen :: nat where "MaxSignalFieldLen = 4096"
definition MaxTraceStateFieldLen :: nat where "MaxTraceStateFieldLen = 256"
definition MaxAgentIDLen :: nat where "MaxAgentIDLen = 256"

definition hasControlChars :: "string \<Rightarrow> bool" where
  "hasControlChars s \<longleftrightarrow> list_ex (\<lambda>(r, w). (r < 0x20 \<and> r \<noteq> 9 \<and> r \<noteq> 10 \<and> r \<noteq> 13) \<or> r = 0x7F) (runes s)"

definition hasStrictControlChars :: "string \<Rightarrow> bool" where
  "hasStrictControlChars s \<longleftrightarrow> list_ex (\<lambda>(r, w). r < 0x20 \<or> r = 0x7F) (runes s)"

text \<open>The byte-level reading of the two checks.\<close>

definition plain_char :: "char \<Rightarrow> bool" where
  "plain_char c \<longleftrightarrow> \<not> (ord c < 0x20 \<or> ord c = 0x7F)"

lemma hasStrictControlChars_bytes: "hasStrictControlChars s \<longleftrightarrow> \<not> list_all plain_char s"
proof -
  have "hasStrictControlChars s \<longleftrightarrow> (\<exists>c \<in> set s. ord c < 0x20 \<or> ord c = 0x7F)"
    unfolding hasStrictControlChars_def list_ex_iff by (rule ascii_runes) auto
  then show ?thesis by (simp add: plain_char_def list_all_iff)
qed

lemma hasControlChars_bytes:
  "hasControlChars s \<longleftrightarrow> \<not> list_all (\<lambda>c. plain_char c \<or> ord c \<in> {9, 10, 13}) s"
proof -
  have "hasControlChars s \<longleftrightarrow> (\<exists>c \<in> set s. (ord c < 0x20 \<and> ord c \<noteq> 9 \<and> ord c \<noteq> 10 \<and> ord c \<noteq> 13) \<or> ord c = 0x7F)"
    unfolding hasControlChars_def list_ex_iff by (rule ascii_runes) auto
  moreover have "(ord c < 0x20 \<and> ord c \<noteq> 9 \<and> ord c \<noteq> 10 \<and> ord c \<noteq> 13) \<or> ord c = 0x7F \<longleftrightarrow>
      \<not> (plain_char c \<or> ord c \<in> {9, 10, 13})" for c
    by (auto simp: plain_char_def)
  ultimately show ?thesis by (simp only: list_all_iff) blast
qed

definition validateAgentID :: "string \<Rightarrow> go_err option" where
  "validateAgentID agentID =
    (if length agentID = 0 then Some (NewError ErrCodeBatchInvalid ''agent_id must not be empty'')
     else if MaxAgentIDLen < length agentID then
       Some (NewError ErrCodeBatchInvalid ''agent_id exceeds maximum length'')
     else if hasStrictControlChars agentID then
       Some (NewError ErrCodeBatchInvalid ''agent_id contains control characters'')
     else None)"

definition validateTextField :: "string \<Rightarrow> string \<Rightarrow> go_err option" where
  "validateTextField name val =
    (if MaxSignalFieldLen < length val then Some (NewError ErrCodeBatchInvalid (name @ '' exceeds maximum length''))
     else if hasControlChars val then Some (NewError ErrCodeBatchInvalid (name @ '' contains control characters''))
     else None)"

section \<open>Trace identifiers\<close>

text \<open>\<open>encoding/hex\<close>: the value of a hexadecimal digit of either case, and the decoding of pairs of digits.\<close>

definition fromHexChar :: "char \<Rightarrow> nat option" where
  "fromHexChar c =
    (if 48 \<le> ord c \<and> ord c \<le> 57 then Some (ord c - 48)
     else if 97 \<le> ord c \<and> ord c \<le> 102 then Some (ord c - 87)
     else if 65 \<le> ord c \<and> ord c \<le> 70 then Some (ord c - 55) else None)"

fun hex_Decode :: "string \<Rightarrow> bytes option" where
  "hex_Decode [] = Some []"
| "hex_Decode [c] = None"
| "hex_Decode (p # q # cs) =
    (case (fromHexChar p, fromHexChar q) of
       (Some a, Some b) \<Rightarrow> map_option ((#) (of_nat (a * 16 + b))) (hex_Decode cs)
     | _ \<Rightarrow> None)"

definition isLowerHex :: "nat \<Rightarrow> bool" where
  "isLowerHex r \<longleftrightarrow> (48 \<le> r \<and> r \<le> 57) \<or> (97 \<le> r \<and> r \<le> 102)"

definition validateHexID :: "string \<Rightarrow> string \<Rightarrow> nat \<Rightarrow> go_err option" where
  "validateHexID name val wantBytes =
    (if val = [] then None
     else if length val \<noteq> wantBytes * 2 then Some (NewError ErrCodeBatchInvalid (name @ '' must be lowercase hex chars''))
     else if \<not> list_all (\<lambda>(r, w). isLowerHex r) (runes val) then
       Some (NewError ErrCodeBatchInvalid (name @ '' must be lowercase hex, contains invalid char''))
     else case hex_Decode val of
       None \<Rightarrow> Some (NewError ErrCodeBatchInvalid (name @ '' is not valid hex''))
     | Some decoded \<Rightarrow>
         if list_all (\<lambda>b. b = 0) decoded then Some (NewError ErrCodeBatchInvalid (name @ '' must not be all zeros''))
         else None)"

definition validateTraceStateEntryField :: "string \<Rightarrow> string \<Rightarrow> go_err option" where
  "validateTraceStateEntryField name val =
    (if MaxTraceStateFieldLen < length val then
       Some (NewError ErrCodeBatchInvalid (name @ '' exceeds maximum length''))
     else if hasControlChars val then Some (NewError ErrCodeBatchInvalid (name @ '' contains control characters''))
     else None)"

fun validateTraceState_loop :: "TraceStateEntry option list \<Rightarrow> go_err option" where
  "validateTraceState_loop [] = None"
| "validateTraceState_loop (None # es) = Some (NewError ErrCodeBatchInvalid ''trace_state: empty key'')"
| "validateTraceState_loop (Some e # es) =
    (if ts_Key e = [] then Some (NewError ErrCodeBatchInvalid ''trace_state: empty key'')
     else case validateTraceStateEntryField ''trace_state.key'' (ts_Key e) of Some err \<Rightarrow> Some err | None \<Rightarrow>
       case validateTraceStateEntryField ''trace_state.value'' (ts_Value e) of Some err \<Rightarrow> Some err | None \<Rightarrow>
         validateTraceState_loop es)"

definition validateTraceState :: "TraceStateEntry option list \<Rightarrow> go_err option" where
  "validateTraceState entries =
    (if 32 < length entries then Some (NewError ErrCodeBatchInvalid ''trace_state exceeds 32 entries'')
     else validateTraceState_loop entries)"

definition ValidateBatchTraceContext :: "TraceContext option \<Rightarrow> go_err option" where
  "ValidateBatchTraceContext tc' =
    (case tc' of None \<Rightarrow> None | Some tc \<Rightarrow>
     if tc_TraceId tc = [] then Some (NewError ErrCodeBatchInvalid ''trace_context.trace_id must not be empty'')
     else if tc_SpanId tc = [] then Some (NewError ErrCodeBatchInvalid ''trace_context.span_id must not be empty'')
     else case validateHexID ''trace_context.trace_id'' (tc_TraceId tc) 16 of Some err \<Rightarrow> Some err | None \<Rightarrow>
     case validateHexID ''trace_context.span_id'' (tc_SpanId tc) 8 of Some err \<Rightarrow> Some err | None \<Rightarrow>
     case validateHexID ''trace_context.parent_span_id'' (tc_ParentSpanId tc) 8 of Some err \<Rightarrow> Some err | None \<Rightarrow>
     if 0xff < tc_TraceFlags tc then Some (NewError ErrCodeBatchInvalid ''trace_context.trace_flags exceeds 8-bit W3C range'')
     else validateTraceState (tc_TraceState tc))"

lemma hex_digit_value:
  "isLowerHex (ord c) \<Longrightarrow> \<exists>a. fromHexChar c = Some a \<and> a < 16 \<and> (a = 0 \<longleftrightarrow> c = CHR ''0'')"
proof -
  assume h: "isLowerHex (ord c)"
  have "ord c = 48 \<longleftrightarrow> c = CHR ''0''" using of_char_eq_iff [of c "CHR ''0''", where 'a = nat] by simp
  then show ?thesis using h by (auto simp: isLowerHex_def fromHexChar_def)
qed


lemma byte_zero: "n < 256 \<Longrightarrow> (of_nat n :: byte) = 0 \<longleftrightarrow> n = 0"
  by (auto simp: word_of_nat_eq_0_iff dest: nat_dvd_not_less)

lemma hex_lower:
  assumes "list_all (\<lambda>c. isLowerHex (ord c)) s" and "even (length s)"
  shows "\<exists>bs. hex_Decode s = Some bs \<and> length bs = length s div 2 \<and>
     (list_all (\<lambda>b. b = 0) bs \<longleftrightarrow> list_all (\<lambda>c. c = CHR ''0'') s)"
  using assms
proof (induction s rule: hex_Decode.induct)
  case (3 p q cs)
  obtain a b where ab: "fromHexChar p = Some a" "a < 16" "a = 0 \<longleftrightarrow> p = CHR ''0''"
      "fromHexChar q = Some b" "b < 16" "b = 0 \<longleftrightarrow> q = CHR ''0''"
    using 3 hex_digit_value [of p] hex_digit_value [of q] by auto
  have "(of_nat (a * 16 + b) :: byte) = 0 \<longleftrightarrow> a * 16 + b = 0"
    using ab(2,5) by (intro byte_zero) simp
  then have "(of_nat (a * 16 + b) :: byte) = 0 \<longleftrightarrow> p = CHR ''0'' \<and> q = CHR ''0''" using ab by simp
  moreover obtain bs where "hex_Decode cs = Some bs" "length bs = length cs div 2"
      "list_all (\<lambda>b. b = 0) bs \<longleftrightarrow> list_all (\<lambda>c. c = CHR ''0'') cs"
    using 3 ab by auto
  ultimately show ?case using ab by simp
qed simp_all

lemma validateHexID_iff:
  "validateHexID name val n = None \<longleftrightarrow>
     val = [] \<or> (length val = 2 * n \<and> list_all (\<lambda>c. isLowerHex (ord c)) val \<and> \<not> list_all (\<lambda>c. c = CHR ''0'') val)"
proof -
  have "list_all (\<lambda>(r, w). isLowerHex r) (runes val) \<longleftrightarrow> list_all (\<lambda>c. isLowerHex (ord c)) val"
    by (rule ascii_all) (auto simp: isLowerHex_def)
  moreover have "\<exists>bs. hex_Decode val = Some bs \<and> (list_all (\<lambda>b. b = 0) bs \<longleftrightarrow> list_all (\<lambda>c. c = CHR ''0'') val)"
    if "length val = n * 2" "list_all (\<lambda>c. isLowerHex (ord c)) val"
    using hex_lower [of val] that by auto
  ultimately show ?thesis by (auto simp: validateHexID_def mult.commute)
qed


section \<open>Network addresses\<close>

fun IndexByte :: "string \<Rightarrow> char \<Rightarrow> nat option" where
  "IndexByte [] c = None"
| "IndexByte (x # xs) c = (if x = c then Some 0 else map_option Suc (IndexByte xs c))"

definition LastIndexByte :: "string \<Rightarrow> char \<Rightarrow> nat option" where
  "LastIndexByte s c = map_option (\<lambda>i. length s - 1 - i) (IndexByte (rev s) c)"

text \<open>\<open>net.SplitHostPort\<close>.\<close>

definition SplitHostPort :: "string \<Rightarrow> (string \<times> string) res" where
  "SplitHostPort hostport =
    (let missingPort = Inl (OtherErr ''missing port in address'' None);
         tooManyColons = Inl (OtherErr ''too many colons in address'' None);
         finish = (\<lambda>host i j k.
           if IndexByte (drop j hostport) CHR ''['' \<noteq> None then Inl (OtherErr ''unexpected [ in address'' None)
           else if IndexByte (drop k hostport) CHR '']'' \<noteq> None then Inl (OtherErr ''unexpected ] in address'' None)
           else Inr (host, drop (Suc i) hostport))
     in case LastIndexByte hostport CHR '':'' of None \<Rightarrow> missingPort
     | Some i \<Rightarrow>
        if hostport ! 0 = CHR ''['' then
          (case IndexByte hostport CHR '']'' of None \<Rightarrow> Inl (OtherErr ''missing ] in address'' None)
           | Some e \<Rightarrow>
              if e + 1 = length hostport then missingPort
              else if e + 1 = i then finish (take (e - 1) (drop 1 hostport)) i 1 (e + 1)
              else if hostport ! (e + 1) = CHR '':'' then tooManyColons else missingPort)
        else if IndexByte (take i hostport) CHR '':'' \<noteq> None then tooManyColons
        else finish (take i hostport) i 0 0)"

text \<open>\<open>strconv.Atoi\<close> on 64 bits: an optional sign, at least one decimal digit, the value within \<open>int64\<close>.\<close>

fun digits_value :: "string \<Rightarrow> nat \<Rightarrow> nat option" where
  "digits_value [] acc = Some acc"
| "digits_value (c # cs) acc =
    (if 48 \<le> ord c \<and> ord c \<le> 57 then digits_value cs (acc * 10 + (ord c - 48)) else None)"

definition Atoi :: "string \<Rightarrow> int option" where
  "Atoi s =
    (let neg = (s \<noteq> [] \<and> hd s = CHR ''-'');
         ds = (if s \<noteq> [] \<and> (hd s = CHR ''-'' \<or> hd s = CHR ''+'') then tl s else s)
     in if ds = [] then None else
        case digits_value ds 0 of None \<Rightarrow> None
        | Some n \<Rightarrow> if neg then (if n \<le> 2 ^ 63 then Some (- int n) else None)
                    else if n < 2 ^ 63 then Some (int n) else None)"

definition ValidateHostPort :: "string \<Rightarrow> go_err option" where
  "ValidateHostPort addr =
    (case SplitHostPort addr of Inl e \<Rightarrow> Some (NewError LocalConfig ''invalid address'')
     | Inr (host, port) \<Rightarrow>
        if host = [] then Some (NewError LocalConfig ''invalid address: missing host'')
        else case Atoi port of None \<Rightarrow> Some (NewError LocalConfig ''invalid address: port out of range'')
        | Some p \<Rightarrow> if p < 1 \<or> 65535 < p then Some (NewError LocalConfig ''invalid address: port out of range'') else None)"

definition ValidateListenAddr :: "string \<Rightarrow> go_err option" where
  "ValidateListenAddr addr =
    (case SplitHostPort addr of Inl e \<Rightarrow> Some (NewError LocalConfig ''invalid listen address'')
     | Inr (_, port) \<Rightarrow>
        if port = [] then Some (NewError LocalConfig ''invalid listen address: missing port'')
        else if port \<noteq> ''0'' then
          (case Atoi port of None \<Rightarrow> Some (NewError LocalConfig ''invalid listen address: port out of range'')
           | Some p \<Rightarrow>
              if p < 1 \<or> 65535 < p then Some (NewError LocalConfig ''invalid listen address: port out of range'') else None)
        else None)"

section \<open>Log output\<close>

definition RuneStart :: "char \<Rightarrow> bool" where
  "RuneStart c \<longleftrightarrow> \<not> utf8_cont (ord c)"

fun rune_boundary :: "string \<Rightarrow> nat \<Rightarrow> nat" where
  "rune_boundary s 0 = 0"
| "rune_boundary s (Suc e) = (if RuneStart (s ! Suc e) then Suc e else rune_boundary s e)"

definition log_rune :: "nat \<Rightarrow> nat" where
  "log_rune r = (if r < 0x20 \<or> r = 0x7F then 0x20 else r)"

definition truncated_mark :: string where
  "truncated_mark = AppendRune 0x2026 @ ''(truncated)''"

definition SanitizeForLog :: "string \<Rightarrow> string" where
  "SanitizeForLog s =
    (let truncated = MaxSignalFieldLen < length s;
         s = (if truncated then take (rune_boundary s MaxSignalFieldLen) s else s);
         s = strings_Map log_rune s
     in if truncated then s @ truncated_mark else s)"

section \<open>Handshake and result messages\<close>

definition EphemeralPubLen :: "Profile \<Rightarrow> int" where
  "EphemeralPubLen p = (if p = PROFILE_INTL then 32 else if p = PROFILE_GM then 65 else - 1)"

definition validateHelloMetaField :: "string \<Rightarrow> string \<Rightarrow> go_err option" where
  "validateHelloMetaField name val =
    (if val = [] then None
     else if MaxAgentIDLen < length val then Some (NewError ErrCodeBadHandshake (name @ '' exceeds maximum length''))
     else if hasStrictControlChars val then
       Some (NewError ErrCodeBadHandshake (name @ '' contains control characters''))
     else None)"

fun validateMeta_loop :: "(string \<times> string) list \<Rightarrow> go_err option" where
  "validateMeta_loop [] = None"
| "validateMeta_loop ((k, v) # m) =
    (case validateHelloMetaField (''meta.'' @ k) k of Some err \<Rightarrow> Some err | None \<Rightarrow>
     case validateHelloMetaField (''meta.'' @ k) v of Some err \<Rightarrow> Some err | None \<Rightarrow> validateMeta_loop m)"

definition ValidateHello :: "Hello option \<Rightarrow> go_err option" where
  "ValidateHello m' =
    (case m' of None \<Rightarrow> Some (NewError ErrCodeBadHandshake ''agent_id is required'')
     | Some m \<Rightarrow>
     if h_AgentId m = [] then Some (NewError ErrCodeBadHandshake ''agent_id is required'')
     else case validateAgentID (h_AgentId m) of Some err \<Rightarrow> Some err | None \<Rightarrow>
     case validateMeta_loop (h_Meta m) of Some err \<Rightarrow> Some err | None \<Rightarrow>
     if EphemeralPubLen (h_Profile m) < 0 then Some (NewError ErrCodeUnsupportedProfile ''unsupported profile'')
     else if int (length (h_ClientEph m)) \<noteq> EphemeralPubLen (h_Profile m) then
       Some (NewError ErrCodeHelloEphInvalid ''client_eph has the wrong length'')
     else if length (h_TokenProof m) = 0 then Some (NewError ErrCodeBadHandshake ''token_proof is required'')
     else None)"

text \<open>The protobuf getters of an absent sub-message return zero values.\<close>

definition GetCredits :: "HelloAck \<Rightarrow> Credits" where
  "GetCredits a = (case ha_Credits a of None \<Rightarrow> \<lparr>cr_Batches = 0, cr_Bytes = 0\<rparr> | Some c \<Rightarrow> c)"

definition GetLimits :: "HelloAck \<Rightarrow> Limits" where
  "GetLimits a = (case ha_Limits a of None \<Rightarrow> \<lparr>lim_MaxFrameBytes = 0, lim_MaxBatchBytes = 0\<rparr> | Some l \<Rightarrow> l)"

definition ValidateHelloAck :: "HelloAck option \<Rightarrow> go_err option" where
  "ValidateHelloAck a' =
    (case a' of None \<Rightarrow> Some (NewError ErrCodeBadHandshake ''nil hello_ack'')
     | Some a \<Rightarrow>
     if ha_AckMode a \<noteq> ACK_MODE_ACCEPTED_ONLY \<and> ha_AckMode a \<noteq> ACK_MODE_DURABLE then
       Some (NewError ErrCodeAckModeBad ''invalid ack_mode'')
     else if cr_Batches (GetCredits a) = 0 \<or> cr_Bytes (GetCredits a) = 0 then
       Some (NewError ErrCodeCreditInvalid ''initial credits must be positive'')
     else if lim_MaxFrameBytes (GetLimits a) = 0 \<or> lim_MaxBatchBytes (GetLimits a) = 0 then
       Some (NewError ErrCodeBadHandshake ''limits must be positive'')
     else if length (ha_Finished a) = 0 then Some (NewError ErrCodeBadHandshake ''finished mac is required'')
     else if sint (ha_ExpiryUnix a) \<le> 0 then Some (NewError ErrCodeBadHandshake ''expiry_unix must be > 0'')
     else None)"


definition ValidateResultLevel :: "ResultLevel \<Rightarrow> go_err option" where
  "ValidateResultLevel l =
    (if l \<in> {RESULT_LEVEL_ACCEPTED, RESULT_LEVEL_DURABLE, RESULT_LEVEL_REJECTED, RESULT_LEVEL_RELEASED} then None
     else Some (NewError ErrCodeResultLevelBad ''invalid result level''))"

section \<open>Properties\<close>

lemma validateMeta_loop_iff:
  "validateMeta_loop m = None \<longleftrightarrow>
     list_all (\<lambda>(k, v). length k \<le> 256 \<and> list_all plain_char k \<and> length v \<le> 256 \<and> list_all plain_char v) m"
proof (induction m)
  case (Cons kv m)
  have "validateHelloMetaField n s = None \<longleftrightarrow> length s \<le> 256 \<and> list_all plain_char s" for n s
    by (cases s) (auto simp: validateHelloMetaField_def check_simps MaxAgentIDLen_def hasStrictControlChars_bytes)
  then show ?case using Cons by (cases kv) (simp add: check_simps)
qed simp

text \<open>
  C31. What an accepted HELLO guarantees to the handshake, and exactly that: the agent id and every metadata key and
  value have at most 256 bytes and no control byte (so they cannot forge log lines), the agent id and the token proof are
  not empty, the profile is known and the ephemeral key has the length of that profile.
\<close>

theorem ValidateHello_iff:
  "(ValidateHello (Some m) = None \<longleftrightarrow>
     0 < length (h_AgentId m) \<and> length (h_AgentId m) \<le> 256 \<and> list_all plain_char (h_AgentId m) \<and>
     list_all (\<lambda>(k, v). length k \<le> 256 \<and> list_all plain_char k \<and> length v \<le> 256 \<and> list_all plain_char v) (h_Meta m) \<and>
     (h_Profile m = PROFILE_INTL \<and> length (h_ClientEph m) = 32 \<or> h_Profile m = PROFILE_GM \<and> length (h_ClientEph m) = 65) \<and>
     h_TokenProof m \<noteq> []) \<and> ValidateHello None \<noteq> None"
proof -
  have "validateAgentID s = None \<longleftrightarrow> 0 < length s \<and> length s \<le> 256 \<and> list_all plain_char s" for s
    by (auto simp: validateAgentID_def check_simps MaxAgentIDLen_def hasStrictControlChars_bytes)
  moreover have "\<not> EphemeralPubLen p < 0 \<and> \<not> int n \<noteq> EphemeralPubLen p \<longleftrightarrow>
      p = PROFILE_INTL \<and> n = 32 \<or> p = PROFILE_GM \<and> n = 65" for p n
    by (auto simp: EphemeralPubLen_def)
  ultimately show ?thesis
    unfolding ValidateHello_def option.case check_simps validateMeta_loop_iff by auto
qed

definition hex_digits :: string where
  "hex_digits = ''0123456789abcdef''"

definition trace_id_ok :: "nat \<Rightarrow> string \<Rightarrow> bool" where
  "trace_id_ok n s \<longleftrightarrow> length s = 2 * n \<and> set s \<subseteq> set hex_digits \<and> \<not> set s \<subseteq> {CHR ''0''}"

lemma lower_hex_chars: "isLowerHex (ord c) \<longleftrightarrow> c \<in> set hex_digits"
proof -
  have "map ord hex_digits = [48..<58] @ [97..<103]" by (simp add: hex_digits_def upt_rec)
  then have img: "ord ` set hex_digits = set ([48..<58] @ [97..<103])" by (metis list.set_map)
  have "isLowerHex x \<longleftrightarrow> x \<in> set ([48..<58] @ [97..<103])" for x
    unfolding isLowerHex_def set_append set_upt Un_iff atLeastLessThan_iff by linarith
  then have "isLowerHex (ord c) \<longleftrightarrow> ord c \<in> ord ` set hex_digits" unfolding img .
  also have "\<dots> \<longleftrightarrow> c \<in> set hex_digits" by (rule inj_image_mem_iff) (simp add: inj_on_def)
  finally show ?thesis .
qed

lemma validateHexID_ok: "validateHexID name s n = None \<longleftrightarrow> s = [] \<or> trace_id_ok n s"
  unfolding validateHexID_iff trace_id_ok_def list_all_iff lower_hex_chars by auto

lemma validateTraceState_loop_iff:
  "validateTraceState_loop es = None \<longleftrightarrow>
     (\<forall>e \<in> set es. \<exists>x. e = Some x \<and> ts_Key x \<noteq> [] \<and> length (ts_Key x) \<le> 256 \<and> \<not> hasControlChars (ts_Key x) \<and>
        length (ts_Value x) \<le> 256 \<and> \<not> hasControlChars (ts_Value x))"
  by (induction es rule: validateTraceState_loop.induct)
    (auto simp: validateTraceStateEntryField_def MaxTraceStateFieldLen_def check_simps)

text \<open>
  A batch-level trace context is accepted exactly when it is a well-formed W3C context: trace and span ids of 32 and 16
  lowercase hexadecimal digits that are not all zero, a parent span id of that form or none, flags of one byte, and at most
  32 vendor entries with a non-empty key and fields of at most 256 bytes without control characters.
\<close>

theorem ValidateBatchTraceContext_iff:
  "ValidateBatchTraceContext (Some tc) = None \<longleftrightarrow>
     trace_id_ok 16 (tc_TraceId tc) \<and> trace_id_ok 8 (tc_SpanId tc) \<and>
     (tc_ParentSpanId tc = [] \<or> trace_id_ok 8 (tc_ParentSpanId tc)) \<and> tc_TraceFlags tc \<le> 0xff \<and>
     length (tc_TraceState tc) \<le> 32 \<and>
     list_all (\<lambda>e. \<exists>x. e = Some x \<and> ts_Key x \<noteq> [] \<and> length (ts_Key x) \<le> 256 \<and> \<not> hasControlChars (ts_Key x) \<and>
        length (ts_Value x) \<le> 256 \<and> \<not> hasControlChars (ts_Value x)) (tc_TraceState tc)"
proof -
  have "\<not> trace_id_ok n []" if "0 < n" for n using that by (simp add: trace_id_ok_def)
  then show ?thesis
    unfolding ValidateBatchTraceContext_def validateTraceState_def list_all_iff validateTraceState_loop_iff [symmetric]
      option.case check_simps validateHexID_ok not_less by auto
qed


lemma char_plain: "0x80 \<le> n \<Longrightarrow> n < 256 \<Longrightarrow> plain_char (char_of (n :: nat))"
  by (simp add: plain_char_def ord_char_of)

lemma AppendRune_high: "0x80 \<le> r \<Longrightarrow> list_all plain_char (AppendRune r)"
proof -
  assume r: "0x80 \<le> r"
  have e3: "list_all plain_char (encode3 x)" if "x < 0x10000" for x
  proof -
    have "x div 4096 < 16" using that by simp
    then show ?thesis by (simp add: encode3_def char_plain)
  qed
  consider "r < 0x800" | "0x800 \<le> r" "0x10FFFF < r \<or> (0xD800 \<le> r \<and> r \<le> 0xDFFF)"
    | "0x800 \<le> r" "\<not> (0x10FFFF < r \<or> (0xD800 \<le> r \<and> r \<le> 0xDFFF))" "r < 0x10000"
    | "0x10000 \<le> r" "r \<le> 0x10FFFF" by linarith
  then show ?thesis
  proof cases
    case 1
    then have "r div 64 < 32" by simp
    then show ?thesis using 1 r by (simp add: AppendRune_def char_plain)
  next
    case 4
    then have "r div 262144 < 16" by simp
    then show ?thesis using 4 by (simp add: AppendRune_def char_plain)
  qed (simp_all add: AppendRune_def e3 RuneError_def)
qed

lemma AppendRune_plain: "list_all plain_char (AppendRune (log_rune r))"
proof (cases "r < 0x80")
  case True
  then show ?thesis by (simp add: AppendRune_def log_rune_def plain_char_def)
next
  case False
  then show ?thesis using AppendRune_high [of r] by (simp add: log_rune_def)
qed

text \<open>An encoded rune is at most three times as long as the bytes it was decoded from.\<close>

lemma AppendRune_length:
  assumes "DecodeRune (a # cs) = (r, w)"
  shows "length (AppendRune (log_rune r)) \<le> 3 * w"
proof (cases "(r, w) = (RuneError, 1)")
  case True
  then show ?thesis by (simp add: log_rune_def RuneError_def AppendRune_def encode3_def)
next
  case False
  then have r: "AppendRune r = take w (a # cs)" using AppendRune_DecodeRune [OF assms] by simp
  show ?thesis
  proof (cases "log_rune r = r")
    case True then show ?thesis by (simp add: r)
  next
    case False
    then have "log_rune r = 0x20" by (simp add: log_rune_def split: if_splits)
    then show ?thesis using DecodeRune_width [of "a # cs"] assms by (simp add: AppendRune_def)
  qed
qed

lemma strings_Map_plain: "list_all plain_char (strings_Map log_rune s)"
  using AppendRune_plain by (fastforce simp: strings_Map_def list_all_iff)

lemma strings_Map_length: "length (strings_Map log_rune s) \<le> 3 * length s"
proof (induction s rule: runes.induct)
  case (2 c cs)
  obtain r w where d: "DecodeRune (c # cs) = (r, w)" by force
  have "w \<le> length (c # cs)" using DecodeRune_cases [OF d] by auto
  moreover have "length (strings_Map log_rune (drop w (c # cs))) \<le> 3 * (length (c # cs) - w)" using 2 d by simp
  ultimately show ?case using AppendRune_length [OF d] d by (simp add: strings_Map_def del: DecodeRune.simps)
qed (simp add: strings_Map_def)

text \<open>Well-formed UTF-8 without control characters passes unchanged.\<close>

lemma strings_Map_id:
  assumes "(RuneError, 1) \<notin> set (runes s)" and "list_all plain_char s"
  shows "strings_Map log_rune s = s"
  using assms
proof (induction s rule: runes.induct)
  case (2 c cs)
  obtain r w where d: "DecodeRune (c # cs) = (r, w)" by force
  have "log_rune r = r"
    using DecodeRune_cases [OF d] 2(3) by (auto simp: log_rune_def plain_char_def)
  moreover have "AppendRune r = take w (c # cs)" using 2(2) d AppendRune_DecodeRune [OF d] by (auto simp del: DecodeRune.simps)
  moreover have "strings_Map log_rune (drop w (c # cs)) = drop w (c # cs)"
  proof (rule 2(1) [unfolded d snd_conv])
    show "(RuneError, 1) \<notin> set (runes (drop w (c # cs)))" using 2(2) d by (auto simp del: DecodeRune.simps)
    show "list_all plain_char (drop w (c # cs))" using 2(3) unfolding list_all_iff by (meson in_set_dropD)
  qed
  ultimately show ?case using d by (simp add: strings_Map_def del: DecodeRune.simps)
qed (simp add: strings_Map_def)

lemma rune_boundary_le: "rune_boundary s e \<le> e"
  by (induction e) (simp_all add: le_SucI)

text \<open>
  What reaches the log after \<open>SanitizeForLog\<close> contains no control byte at all, whatever the peer sent, and is bounded: at
  most three times the 4096-byte cap (each undecodable byte becomes the three bytes of U+FFFD) plus the truncation mark. Text
  that is already clean, decodable and short is left alone.
\<close>

theorem SanitizeForLog_clean:
  "list_all plain_char (SanitizeForLog s) \<and> length (SanitizeForLog s) \<le> 3 * 4096 + 14 \<and>
   (length s \<le> 4096 \<and> list_all plain_char s \<and> (RuneError, 1) \<notin> set (runes s) \<longrightarrow> SanitizeForLog s = s)"
proof -
  have mark: "list_all plain_char truncated_mark \<and> length truncated_mark = 14"
    by (simp add: truncated_mark_def AppendRune_def encode3_def plain_char_def)
  have "length (strings_Map log_rune (take (rune_boundary s 4096) s)) \<le> 3 * 4096"
    using strings_Map_length [of "take (rune_boundary s 4096) s"] rune_boundary_le [of s 4096] by simp
  moreover have "length (strings_Map log_rune s) \<le> 3 * 4096" if "length s \<le> 4096"
    using strings_Map_length [of s] that by simp
  ultimately show ?thesis using mark strings_Map_plain strings_Map_id [of s]
    by (auto simp: SanitizeForLog_def Let_def MaxSignalFieldLen_def not_less)
qed

theorem SanitizeForLog_clean_witness:
  "SanitizeForLog ''ok go'' = ''ok go'' \<and> list_all plain_char (SanitizeForLog [CHR ''a'', CHR 0x0A, CHR 0x80])"
proof -
  have "length ''ok go'' \<le> 4096 \<and> list_all plain_char ''ok go'' \<and> (RuneError, 1) \<notin> set (runes ''ok go'')"
    by (simp add: plain_char_def utf8_size_def RuneError_def)
  then show ?thesis using SanitizeForLog_clean by blast
qed

end
