(* ===== verification/Signal.thy ===== *)
theory Signal
  imports Validation
begin

text \<open>
  The telemetry payload of a batch and its validation, \<open>core/signal.go\<close>. A Go map is the list of its entries in the
  order \<open>range\<close> visits them; a value of type \<open>any\<close> is tagged with the dynamic types the codecs distinguish, floating-point
  numbers being kept as their IEEE bits.
\<close>

section \<open>Data\<close>

datatype any_value =
    AnyNil
  | AnyString string
  | AnyInt64 i64
  | AnySigned i64 \<comment> \<open>int, int8, int16, int32 and named integer types, by value\<close>
  | AnyUnsigned u64
  | AnyFloat64 u64
  | AnyFloat32 u64 \<comment> \<open>float32 and named float types, by the value as a float64\<close>
  | AnyBool bool
  | AnyBytes bytes
  | AnyOther string \<comment> \<open>any other type, by what the default format prints\<close>

record ExponentialHistogram =
  eh_Scale :: u32
  eh_Offset :: u32
  eh_PositiveBuckets :: "u64 list"
  eh_NegativeBuckets :: "u64 list"
  eh_Sum :: u64
  eh_Count :: u64
  eh_Min :: "u64 option"
  eh_Max :: "u64 option"

record ProfilePayload =
  pp_ProfileType :: string
  pp_Payload :: bytes
  pp_ProfileId :: string
  pp_TraceIdRef :: string
  pp_SpanIdRef :: string
  pp_LogRecordRef :: string

record Resource =
  rs_Attributes :: "(string \<times> any_value) list"

record Scope =
  sc_Name :: string
  sc_Version :: string
  sc_CollectorID :: string

record SignalRecord =
  sr_SignalType :: string
  sr_EventID :: string
  sr_TimeUnixNs :: i64
  sr_ObservedTimeNs :: i64
  sr_TraceID :: string
  sr_SpanID :: string
  sr_ParentSpanID :: string
  sr_Attributes :: "(string \<times> any_value) list"
  sr_Body :: any_value
  sr_SeverityNumber :: i64
  sr_SeverityText :: string
  sr_MetricName :: string
  sr_MetricFields :: "(string \<times> u64) list"
  sr_Unit :: string
  sr_Temporality :: string
  sr_IsMonotonic :: bool
  sr_Name :: string
  sr_Kind :: string
  sr_StartTimeUnixNs :: i64
  sr_EndTimeUnixNs :: i64
  sr_StatusCode :: string
  sr_StatusMessage :: string
  sr_TraceFlags :: u32
  sr_TraceState :: "TraceStateEntry option list"
  sr_ExpHistogram :: "ExponentialHistogram option"
  sr_Profile :: "ProfilePayload option"

record SignalBatch =
  sb_SchemaURL :: string
  sb_Resource :: Resource
  sb_Scope :: Scope
  sb_Signals :: "SignalRecord option list"

definition SignalTypeLog :: string where "SignalTypeLog = ''log''"
definition SignalTypeGauge :: string where "SignalTypeGauge = ''gauge''"
definition SignalTypeCounter :: string where "SignalTypeCounter = ''counter''"
definition SignalTypeHistogram :: string where "SignalTypeHistogram = ''histogram''"
definition SignalTypeSummary :: string where "SignalTypeSummary = ''summary''"
definition SignalTypeSpan :: string where "SignalTypeSpan = ''span''"
definition SignalTypeProfile :: string where "SignalTypeProfile = ''profile''"

definition TemporalityDelta :: string where "TemporalityDelta = ''delta''"
definition TemporalityCumulative :: string where "TemporalityCumulative = ''cumulative''"

lemmas signal_names = SignalTypeLog_def SignalTypeGauge_def SignalTypeCounter_def SignalTypeHistogram_def
  SignalTypeSummary_def SignalTypeSpan_def SignalTypeProfile_def TemporalityDelta_def TemporalityCumulative_def

definition validTemporalities :: "string list" where
  "validTemporalities = [TemporalityDelta, TemporalityCumulative]"

definition validSpanKinds :: "string list" where
  "validSpanKinds = ['''', ''internal'', ''server'', ''client'', ''producer'', ''consumer'']"

definition validSignalTypes :: "string list" where
  "validSignalTypes = [SignalTypeLog, SignalTypeGauge, SignalTypeCounter, SignalTypeHistogram, SignalTypeSummary,
     SignalTypeSpan, SignalTypeProfile]"

definition MaxSignalAttrs :: nat where "MaxSignalAttrs = 128"
definition MaxSignalAttrKeyLen :: nat where "MaxSignalAttrKeyLen = 256"

section \<open>Validation\<close>

abbreviation invalid :: "string \<Rightarrow> go_err option" where
  "invalid msg \<equiv> Some (NewError ErrCodeBatchInvalid msg)"

fun validate_keys :: "string \<Rightarrow> (string \<times> 'v) list \<Rightarrow> go_err option" where
  "validate_keys field [] = None"
| "validate_keys field ((k, v) # m) =
    (if MaxSignalAttrKeyLen < length k then invalid (field @ '' key exceeds max length'')
     else if hasStrictControlChars k then invalid (field @ '' key contains control characters'')
     else validate_keys field m)"

definition validateAttrsMap :: "string \<Rightarrow> string \<Rightarrow> (string \<times> any_value) list \<Rightarrow> go_err option" where
  "validateAttrsMap prefix fieldName attrs =
    (if MaxSignalAttrs < length attrs then invalid (prefix @ fieldName @ '' exceeds max entries'')
     else validate_keys (prefix @ fieldName) attrs)"

definition validateMetricFields :: "string \<Rightarrow> (string \<times> u64) list \<Rightarrow> go_err option" where
  "validateMetricFields prefix mfields =
    (if MaxSignalAttrs < length mfields then invalid (prefix @ ''metric_fields exceeds max entries'')
     else validate_keys (prefix @ ''metric_fields'') mfields)"

definition validateSignalType :: "SignalRecord \<Rightarrow> go_err option" where
  "validateSignalType s =
    (if sr_SignalType s = [] then invalid ''signal: signal_type is required''
     else if sr_SignalType s \<notin> set validSignalTypes then invalid ''signal: invalid signal_type''
     else if sint (sr_SeverityNumber s) < 0 \<or> 24 < sint (sr_SeverityNumber s) then
       invalid ''signal: severity_number out of valid range [0,24]''
     else if sr_Temporality s \<noteq> [] \<and> sr_Temporality s \<notin> set validTemporalities then invalid ''signal: invalid temporality''
     else if sr_SignalType s = SignalTypeSpan \<and> sr_Kind s \<noteq> [] \<and> sr_Kind s \<notin> set validSpanKinds then
       invalid ''signal: invalid span kind''
     else if sr_SignalType s \<in> {SignalTypeGauge, SignalTypeCounter, SignalTypeHistogram, SignalTypeSummary} then
       (if sr_MetricName s = [] then invalid ''signal: metric_name is required for metric type''
        else if sr_SignalType s = SignalTypeHistogram \<and> sr_ExpHistogram s = None then
          invalid ''signal: exp_histogram is required for histogram type''
        else None)
     else if sr_SignalType s = SignalTypeSpan then
       (if sr_Name s = [] then invalid ''signal: name is required for span type''
        else if sr_TraceID s = [] then invalid ''signal: trace_id is required for span type''
        else if sr_SpanID s = [] then invalid ''signal: span_id is required for span type''
        else None)
     else if sr_SignalType s = SignalTypeLog then
       (if sr_Body s = AnyNil then invalid ''signal: body is required for log type'' else None)
     else if sr_SignalType s = SignalTypeProfile then
       (if sr_Profile s = None then invalid ''signal: profile payload is required for profile type'' else None)
     else None)"

definition signalTextFields :: "SignalRecord \<Rightarrow> (string \<times> string) list" where
  "signalTextFields s =
    [(''signal_type'', sr_SignalType s), (''event_id'', sr_EventID s), (''trace_id'', sr_TraceID s),
     (''span_id'', sr_SpanID s), (''parent_span_id'', sr_ParentSpanID s), (''metric_name'', sr_MetricName s),
     (''unit'', sr_Unit s), (''name'', sr_Name s), (''kind'', sr_Kind s), (''status_code'', sr_StatusCode s),
     (''status_message'', sr_StatusMessage s), (''severity_text'', sr_SeverityText s)]"

fun validateText_loop :: "(string \<times> string) list \<Rightarrow> go_err option" where
  "validateText_loop [] = None"
| "validateText_loop ((name, val) # fs) =
    (if val = [] then validateText_loop fs
     else case validateTextField name val of Some err \<Rightarrow> invalid (''signal: '' @ name) | None \<Rightarrow> validateText_loop fs)"

definition validateSignalFieldLengths :: "SignalRecord \<Rightarrow> go_err option" where
  "validateSignalFieldLengths s =
    (case validateText_loop (signalTextFields s) of Some err \<Rightarrow> Some err | None \<Rightarrow>
     case validateAttrsMap ''signal: '' ''attributes'' (sr_Attributes s) of Some err \<Rightarrow> Some err | None \<Rightarrow>
     case validateMetricFields ''signal: '' (sr_MetricFields s) of Some err \<Rightarrow> Some err | None \<Rightarrow> None)"

fun validateIDs_loop :: "(string \<times> string \<times> nat) list \<Rightarrow> go_err option" where
  "validateIDs_loop [] = None"
| "validateIDs_loop ((name, val, wantBytes) # ids) =
    (case validateHexID name val wantBytes of Some err \<Rightarrow> invalid (''signal: '' @ name) | None \<Rightarrow> validateIDs_loop ids)"

definition validateSignalTraceContext :: "SignalRecord \<Rightarrow> go_err option" where
  "validateSignalTraceContext s =
    (case validateIDs_loop [(''trace_id'', sr_TraceID s, 16), (''span_id'', sr_SpanID s, 8),
       (''parent_span_id'', sr_ParentSpanID s, 8)] of Some err \<Rightarrow> Some err | None \<Rightarrow>
     if 0xff < sr_TraceFlags s then invalid ''signal: trace_flags exceeds 8-bit W3C range''
     else case validateTraceState (sr_TraceState s) of Some err \<Rightarrow> invalid ''signal: trace_state'' | None \<Rightarrow> None)"

definition validateSignal :: "SignalRecord \<Rightarrow> go_err option" where
  "validateSignal s =
    (case validateSignalType s of Some err \<Rightarrow> Some err | None \<Rightarrow>
     case validateSignalFieldLengths s of Some err \<Rightarrow> Some err | None \<Rightarrow> validateSignalTraceContext s)"

fun validateSignals_loop :: "SignalRecord option list \<Rightarrow> go_err option" where
  "validateSignals_loop [] = None"
| "validateSignals_loop (None # ss) = invalid ''signal: must not be null''"
| "validateSignals_loop (Some s # ss) =
    (case validateSignal s of Some err \<Rightarrow> Some err | None \<Rightarrow> validateSignals_loop ss)"

definition SignalBatch_Validate :: "SignalBatch \<Rightarrow> go_err option" where
  "SignalBatch_Validate b =
    (if length (sb_Signals b) = 0 then invalid ''signals must not be empty''
     else case validateAttrsMap '''' ''resource.attributes'' (rs_Attributes (sb_Resource b)) of Some err \<Rightarrow> Some err
     | None \<Rightarrow> validateSignals_loop (sb_Signals b))"

section \<open>Lemmas\<close>

lemma validate_keys_iff:
  "validate_keys f m = None \<longleftrightarrow> list_all (\<lambda>k. length k \<le> 256 \<and> list_all plain_char k) (map fst m)"
  by (induction f m rule: validate_keys.induct)
    (auto simp add: check_simps MaxSignalAttrKeyLen_def hasStrictControlChars_bytes not_less)

lemma validateAttrsMap_keys:
  "map fst m = map fst m' \<Longrightarrow> validateAttrsMap p f m = None \<longleftrightarrow> validateAttrsMap p' f' m' = None"
  unfolding validateAttrsMap_def check_simps validate_keys_iff by (metis length_map)

lemma validateSignals_loop_iff:
  "validateSignals_loop ss = None \<longleftrightarrow> (\<forall>s \<in> set ss. \<exists>r. s = Some r \<and> validateSignal r = None)"
  by (induction ss rule: validateSignals_loop.induct) (auto simp: check_simps)

lemma SignalBatch_Validate_iff:
  "SignalBatch_Validate b = None \<longleftrightarrow> sb_Signals b \<noteq> [] \<and>
     validateAttrsMap '''' ''resource.attributes'' (rs_Attributes (sb_Resource b)) = None \<and>
     (\<forall>s \<in> set (sb_Signals b). \<exists>r. s = Some r \<and> validateSignal r = None)"
  unfolding SignalBatch_Validate_def check_simps validateSignals_loop_iff by simp

lemma validateText_loop_iff:
  "validateText_loop fs = None \<longleftrightarrow> list_all (\<lambda>(n, v). length v \<le> 4096 \<and> \<not> hasControlChars v) fs"
proof (induction fs rule: validateText_loop.induct)
  case (2 name val fs)
  have "\<not> hasControlChars []" by (simp add: hasControlChars_def)
  then show ?case using 2
    by (auto simp: validateTextField_def MaxSignalFieldLen_def check_simps split: option.splits if_splits)
qed simp

end
