(* ===== verification/Codecs.thy ===== *)
theory Codecs
  imports Signal
begin

text \<open>
  The payload codecs: the registry of \<open>core/codec.go\<close>, the conversion between the domain types and the protobuf
  schema of \<open>core/codec_proto.go\<close>, and the CBOR codec of \<open>core/codec_cbor.go\<close>. The serialisers themselves
  (\<open>proto.Marshal\<close>, \<open>cbor.Marshal\<close> and their inverses) are parameters. A conversion that dereferences a nil pointer
  is \<open>None\<close>.
\<close>

section \<open>Protobuf schema\<close>

datatype AnyValue =
    AV_Unset
  | AV_String string
  | AV_Int i64
  | AV_Double u64
  | AV_Bytes bytes
  | AV_Bool bool

record pb_SignalRecord =
  ps_SignalType :: string
  ps_EventId :: string
  ps_TimeUnixNs :: i64
  ps_ObservedTimeUnixNs :: i64
  ps_TraceId :: string
  ps_SpanId :: string
  ps_ParentSpanId :: string
  ps_Attributes :: "(string \<times> AnyValue option) list"
  ps_Body :: "AnyValue option"
  ps_SeverityNumber :: u32
  ps_SeverityText :: string
  ps_MetricName :: string
  ps_MetricFields :: "(string \<times> u64) list"
  ps_Unit :: string
  ps_Temporality :: string
  ps_IsMonotonic :: bool
  ps_Name :: string
  ps_Kind :: string
  ps_StartTimeUnixNs :: i64
  ps_EndTimeUnixNs :: i64
  ps_StatusCode :: string
  ps_StatusMessage :: string
  ps_ExpHistogram :: "ExponentialHistogram option"
  ps_Profile :: "ProfilePayload option"
  ps_TraceFlags :: u32
  ps_TraceState :: "TraceStateEntry list"

record InstrumentationScope =
  is_Name :: string
  is_Version :: string
  is_CollectorId :: string

record pb_SignalBatch =
  pb_SchemaUrl :: string
  pb_Resource :: "(string \<times> AnyValue option) list option"
  pb_Scope :: "InstrumentationScope option"
  pb_Signals :: "pb_SignalRecord list"

section \<open>Values\<close>

text \<open>\<open>strconv.FormatUint\<close> in base 10.\<close>

fun decimal :: "nat \<Rightarrow> string" where
  "decimal n = (if n < 10 then [char_of (48 + n)] else decimal (n div 10) @ [char_of (48 + n mod 10)])"

declare decimal.simps [simp del]

definition MaxInt64 :: u64 where "MaxInt64 = 2 ^ 63 - 1"

fun anyToProtoValue :: "any_value \<Rightarrow> AnyValue option" where
  "anyToProtoValue AnyNil = None"
| "anyToProtoValue (AnyString s) = Some (AV_String s)"
| "anyToProtoValue (AnySigned i) = Some (AV_Int i)"
| "anyToProtoValue (AnyInt64 i) = Some (AV_Int i)"
| "anyToProtoValue (AnyFloat64 f) = Some (AV_Double f)"
| "anyToProtoValue (AnyBool b) = Some (AV_Bool b)"
| "anyToProtoValue (AnyBytes bs) = Some (AV_Bytes bs)"
| "anyToProtoValue (AnyUnsigned u) = (if MaxInt64 < u then Some (AV_String (decimal (unat u))) else Some (AV_Int (ucast u)))"
| "anyToProtoValue (AnyFloat32 f) = Some (AV_Double f)"
| "anyToProtoValue (AnyOther s) = Some (AV_String s)"

fun protoValueToAny :: "AnyValue option \<Rightarrow> any_value" where
  "protoValueToAny None = AnyNil"
| "protoValueToAny (Some (AV_String s)) = AnyString s"
| "protoValueToAny (Some (AV_Int i)) = AnyInt64 i"
| "protoValueToAny (Some (AV_Double f)) = AnyFloat64 f"
| "protoValueToAny (Some (AV_Bool b)) = AnyBool b"
| "protoValueToAny (Some (AV_Bytes bs)) = AnyBytes bs"
| "protoValueToAny (Some AV_Unset) = AnyNil"

definition anyMapToProto :: "(string \<times> any_value) list \<Rightarrow> (string \<times> AnyValue option) list" where
  "anyMapToProto m = (if length m = 0 then [] else map (\<lambda>(k, v). (k, anyToProtoValue v)) m)"

definition protoMapToAny :: "(string \<times> AnyValue option) list \<Rightarrow> (string \<times> any_value) list" where
  "protoMapToAny m = (if length m = 0 then [] else map (\<lambda>(k, v). (k, protoValueToAny v)) m)"

section \<open>Records and batches\<close>

definition toProtoSignalRecord :: "SignalRecord option \<Rightarrow> pb_SignalRecord option" where
  "toProtoSignalRecord s' =
    (case s' of None \<Rightarrow> None | Some s \<Rightarrow>
     if None \<in> set (sr_TraceState s) then None
     else Some
      \<lparr>ps_SignalType = sr_SignalType s, ps_EventId = sr_EventID s, ps_TimeUnixNs = sr_TimeUnixNs s,
       ps_ObservedTimeUnixNs = sr_ObservedTimeNs s, ps_TraceId = sr_TraceID s, ps_SpanId = sr_SpanID s,
       ps_ParentSpanId = sr_ParentSpanID s,
       ps_Attributes = (if 0 < length (sr_Attributes s) then anyMapToProto (sr_Attributes s) else []),
       ps_Body = anyToProtoValue (sr_Body s), ps_SeverityNumber = ucast (sr_SeverityNumber s),
       ps_SeverityText = sr_SeverityText s, ps_MetricName = sr_MetricName s,
       ps_MetricFields = (if 0 < length (sr_MetricFields s) then sr_MetricFields s else []),
       ps_Unit = sr_Unit s, ps_Temporality = sr_Temporality s, ps_IsMonotonic = sr_IsMonotonic s,
       ps_Name = sr_Name s, ps_Kind = sr_Kind s, ps_StartTimeUnixNs = sr_StartTimeUnixNs s,
       ps_EndTimeUnixNs = sr_EndTimeUnixNs s, ps_StatusCode = sr_StatusCode s, ps_StatusMessage = sr_StatusMessage s,
       ps_ExpHistogram = sr_ExpHistogram s, ps_Profile = sr_Profile s, ps_TraceFlags = sr_TraceFlags s,
       ps_TraceState = (if 0 < length (sr_TraceState s) then map the (sr_TraceState s) else [])\<rparr>)"

definition fromProtoSignalRecord :: "pb_SignalRecord \<Rightarrow> SignalRecord" where
  "fromProtoSignalRecord p =
    \<lparr>sr_SignalType = ps_SignalType p, sr_EventID = ps_EventId p, sr_TimeUnixNs = ps_TimeUnixNs p,
     sr_ObservedTimeNs = ps_ObservedTimeUnixNs p, sr_TraceID = ps_TraceId p, sr_SpanID = ps_SpanId p,
     sr_ParentSpanID = ps_ParentSpanId p,
     sr_Attributes = (if 0 < length (ps_Attributes p) then protoMapToAny (ps_Attributes p) else []),
     sr_Body = protoValueToAny (ps_Body p), sr_SeverityNumber = scast (ps_SeverityNumber p),
     sr_SeverityText = ps_SeverityText p, sr_MetricName = ps_MetricName p,
     sr_MetricFields = (if 0 < length (ps_MetricFields p) then ps_MetricFields p else []),
     sr_Unit = ps_Unit p, sr_Temporality = ps_Temporality p, sr_IsMonotonic = ps_IsMonotonic p,
     sr_Name = ps_Name p, sr_Kind = ps_Kind p, sr_StartTimeUnixNs = ps_StartTimeUnixNs p,
     sr_EndTimeUnixNs = ps_EndTimeUnixNs p, sr_StatusCode = ps_StatusCode p, sr_StatusMessage = ps_StatusMessage p,
     sr_TraceFlags = ps_TraceFlags p,
     sr_TraceState = (if 0 < length (ps_TraceState p) then map Some (ps_TraceState p) else []),
     sr_ExpHistogram = ps_ExpHistogram p, sr_Profile = ps_Profile p\<rparr>"

definition toProtoSignalBatch :: "SignalBatch \<Rightarrow> pb_SignalBatch option" where
  "toProtoSignalBatch sb =
    (let sigs = map toProtoSignalRecord (sb_Signals sb); sc = sb_Scope sb in
     if None \<in> set sigs then None
     else Some
      \<lparr>pb_SchemaUrl = sb_SchemaURL sb,
       pb_Resource = (if 0 < length (rs_Attributes (sb_Resource sb)) then
          Some (anyMapToProto (rs_Attributes (sb_Resource sb))) else None),
       pb_Scope = (if sc_Name sc \<noteq> [] \<or> sc_Version sc \<noteq> [] \<or> sc_CollectorID sc \<noteq> [] then
          Some \<lparr>is_Name = sc_Name sc, is_Version = sc_Version sc, is_CollectorId = sc_CollectorID sc\<rparr> else None),
       pb_Signals = map the sigs\<rparr>)"

definition fromProtoSignalBatch :: "pb_SignalBatch \<Rightarrow> SignalBatch" where
  "fromProtoSignalBatch p =
    \<lparr>sb_SchemaURL = pb_SchemaUrl p,
     sb_Resource = \<lparr>rs_Attributes = (case pb_Resource p of Some m \<Rightarrow> protoMapToAny m | None \<Rightarrow> [])\<rparr>,
     sb_Scope = (case pb_Scope p of
        Some s \<Rightarrow> \<lparr>sc_Name = is_Name s, sc_Version = is_Version s, sc_CollectorID = is_CollectorId s\<rparr>
      | None \<Rightarrow> \<lparr>sc_Name = [], sc_Version = [], sc_CollectorID = []\<rparr>),
     sb_Signals = map (\<lambda>s. Some (fromProtoSignalRecord s)) (pb_Signals p)\<rparr>"

section \<open>The registry\<close>

record SignalCodec =
  co_Codec :: Codec
  co_Marshal :: "SignalBatch \<Rightarrow> bytes res"
  co_Unmarshal :: "bytes \<Rightarrow> SignalBatch res"

definition codec_panic :: go_err where
  "codec_panic = OtherErr ''panic: nil pointer dereference'' None"

definition protoCodec :: "(pb_SignalBatch \<Rightarrow> bytes res) \<Rightarrow> (bytes \<Rightarrow> pb_SignalBatch res) \<Rightarrow> SignalCodec" where
  "protoCodec marshal unmarshal =
    \<lparr>co_Codec = CODEC_PROTO,
     co_Marshal = (\<lambda>sb. case toProtoSignalBatch sb of None \<Rightarrow> Inl codec_panic | Some p \<Rightarrow> marshal p),
     co_Unmarshal = (\<lambda>data. case unmarshal data of
        Inl e \<Rightarrow> Inl (WrapError ErrCodeBatchInvalid ''unmarshal signal batch'' e)
      | Inr p \<Rightarrow> Inr (fromProtoSignalBatch p))\<rparr>"

definition cborCodec :: "(SignalBatch \<Rightarrow> bytes res) \<Rightarrow> (bytes \<Rightarrow> SignalBatch res) \<Rightarrow> SignalCodec" where
  "cborCodec marshal unmarshal =
    \<lparr>co_Codec = CODEC_CBOR,
     co_Marshal = (\<lambda>sb. case marshal sb of
        Inl e \<Rightarrow> Inl (WrapError ErrCodeBatchInvalid ''marshal signal batch (cbor)'' e) | Inr out \<Rightarrow> Inr out),
     co_Unmarshal = (\<lambda>data. case unmarshal data of
        Inl e \<Rightarrow> Inl (WrapError ErrCodeBatchInvalid ''unmarshal signal batch (cbor)'' e) | Inr sb \<Rightarrow> Inr sb)\<rparr>"

type_synonym codec_registry = "Codec \<rightharpoonup> SignalCodec"

definition RegisterCodec :: "SignalCodec option \<Rightarrow> codec_registry \<Rightarrow> codec_registry" where
  "RegisterCodec c reg = (case c of None \<Rightarrow> reg | Some c \<Rightarrow> reg(co_Codec c \<mapsto> c))"

definition LookupCodec :: "codec_registry \<Rightarrow> Codec \<Rightarrow> SignalCodec option" where
  "LookupCodec reg codec = reg codec"

definition MarshalSignalBatchCodec :: "codec_registry \<Rightarrow> Codec \<Rightarrow> SignalBatch option \<Rightarrow> bytes res" where
  "MarshalSignalBatchCodec reg codec sb' =
    (case sb' of None \<Rightarrow> Inl (NewError ErrCodeBatchInvalid ''nil signal batch'')
     | Some sb \<Rightarrow> (case LookupCodec reg codec of
         None \<Rightarrow> Inl (NewError ErrCodeBatchInvalid ''codec not registered'')
       | Some c \<Rightarrow> co_Marshal c sb))"

definition UnmarshalSignalBatchCodec :: "codec_registry \<Rightarrow> Codec \<Rightarrow> bytes \<Rightarrow> SignalBatch res" where
  "UnmarshalSignalBatchCodec reg codec data =
    (if length data = 0 then Inl (NewError ErrCodeBatchInvalid ''empty signal batch data'')
     else case LookupCodec reg codec of
         None \<Rightarrow> Inl (NewError ErrCodeBatchInvalid ''codec not registered'')
       | Some c \<Rightarrow> co_Unmarshal c data)"

text \<open>The registry after the package's \<open>init\<close> functions.\<close>

definition builtin_codecs :: "(pb_SignalBatch \<Rightarrow> bytes res) \<Rightarrow> (bytes \<Rightarrow> pb_SignalBatch res) \<Rightarrow>
    (SignalBatch \<Rightarrow> bytes res) \<Rightarrow> (bytes \<Rightarrow> SignalBatch res) \<Rightarrow> codec_registry" where
  "builtin_codecs pm pu cm cu = RegisterCodec (Some (protoCodec pm pu)) (RegisterCodec (Some (cborCodec cm cu)) Map.empty)"

section \<open>Properties\<close>

text \<open>What a value becomes on the other side: the canonical type of its kind.\<close>

fun canonical :: "any_value \<Rightarrow> any_value" where
  "canonical (AnySigned i) = AnyInt64 i"
| "canonical (AnyUnsigned u) = (if u \<le> MaxInt64 then AnyInt64 (ucast u) else AnyString (decimal (unat u)))"
| "canonical (AnyFloat32 f) = AnyFloat64 f"
| "canonical (AnyOther s) = AnyString s"
| "canonical v = v"

lemma value_canonical: "protoValueToAny (anyToProtoValue v) = canonical v"
  by (cases v) (simp_all add: not_le)

lemma canonical_idem [simp]: "canonical (canonical v) = canonical v"
  by (cases v) simp_all

lemma canonical_nil [simp]: "canonical v = AnyNil \<longleftrightarrow> v = AnyNil"
  by (cases v) simp_all

lemma map_canonical: "protoMapToAny (anyMapToProto m) = map (\<lambda>(k, v). (k, canonical v)) m"
  by (simp add: protoMapToAny_def anyMapToProto_def value_canonical case_prod_unfold comp_def)

lemma anyMapToProto_nil [simp]: "anyMapToProto m = [] \<longleftrightarrow> m = []"
  by (simp add: anyMapToProto_def)

definition canonical_record :: "SignalRecord \<Rightarrow> SignalRecord" where
  "canonical_record s = s\<lparr>sr_Attributes := map (\<lambda>(k, v). (k, canonical v)) (sr_Attributes s), sr_Body := canonical (sr_Body s)\<rparr>"

lemma canonical_record_sel [simp]:
  "sr_Attributes (canonical_record s) = map (\<lambda>(k, v). (k, canonical v)) (sr_Attributes s)"
  "sr_Body (canonical_record s) = canonical (sr_Body s)"
  "sr_SignalType (canonical_record s) = sr_SignalType s" "sr_EventID (canonical_record s) = sr_EventID s"
  "sr_TraceID (canonical_record s) = sr_TraceID s" "sr_SpanID (canonical_record s) = sr_SpanID s"
  "sr_ParentSpanID (canonical_record s) = sr_ParentSpanID s" "sr_SeverityNumber (canonical_record s) = sr_SeverityNumber s"
  "sr_SeverityText (canonical_record s) = sr_SeverityText s" "sr_MetricName (canonical_record s) = sr_MetricName s"
  "sr_MetricFields (canonical_record s) = sr_MetricFields s" "sr_Unit (canonical_record s) = sr_Unit s"
  "sr_Temporality (canonical_record s) = sr_Temporality s" "sr_Name (canonical_record s) = sr_Name s"
  "sr_Kind (canonical_record s) = sr_Kind s" "sr_StatusCode (canonical_record s) = sr_StatusCode s"
  "sr_StatusMessage (canonical_record s) = sr_StatusMessage s" "sr_TraceFlags (canonical_record s) = sr_TraceFlags s"
  "sr_TraceState (canonical_record s) = sr_TraceState s" "sr_ExpHistogram (canonical_record s) = sr_ExpHistogram s"
  "sr_Profile (canonical_record s) = sr_Profile s"
  by (simp_all add: canonical_record_def)

lemma canonical_record_idem [simp]: "canonical_record (canonical_record s) = canonical_record s"
  by (simp add: canonical_record_def comp_def case_prod_unfold)

definition canonical_batch :: "SignalBatch \<Rightarrow> SignalBatch" where
  "canonical_batch b = b\<lparr>sb_Resource := \<lparr>rs_Attributes = map (\<lambda>(k, v). (k, canonical v)) (rs_Attributes (sb_Resource b))\<rparr>,
     sb_Signals := map (map_option canonical_record) (sb_Signals b)\<rparr>"


lemma severity_int32:
  fixes w :: i64
  assumes "0 \<le> sint w" and "sint w \<le> 24"
  shows "scast (ucast w :: u32) = w"
proof -
  obtain k where k: "sint w = int k" "k \<le> 24" using assms by (metis nonneg_int_cases of_nat_le_iff of_nat_numeral)
  have "w = word_of_int (sint w)" by simp
  then have w: "w = word_of_nat k" by (simp add: k)
  have "k \<in> set [0..<25]" using k(2) by simp
  moreover have "\<forall>k \<in> set [0..<25]. scast (ucast (word_of_nat k :: i64) :: u32) = (word_of_nat k :: i64)"
    by (simp add: upt_rec)
  ultimately show ?thesis unfolding w by blast
qed

lemma validateTraceState_some:
  assumes "validateTraceState ts = None"
  shows "None \<notin> set ts \<and> map Some (map the ts) = ts"
proof -
  have all: "\<forall>e \<in> set ts. \<exists>x. e = Some x"
    using assms unfolding validateTraceState_def check_simps validateTraceState_loop_iff by blast
  then have "map (\<lambda>e. Some (the e)) ts = map (\<lambda>e. e) ts" by (intro map_cong refl) auto
  then show ?thesis using all by (auto simp: comp_def)
qed

lemma validateSignal_facts:
  assumes "validateSignal s = None"
  shows "0 \<le> sint (sr_SeverityNumber s)" "sint (sr_SeverityNumber s) \<le> 24" "validateTraceState (sr_TraceState s) = None"
proof -
  have t: "validateSignalType s = None" "validateSignalTraceContext s = None"
    using assms unfolding validateSignal_def check_simps by simp_all
  from t(1) have "\<not> (sint (sr_SeverityNumber s) < 0 \<or> 24 < sint (sr_SeverityNumber s))"
    unfolding validateSignalType_def check_simps by (elim conjE)
  then show "0 \<le> sint (sr_SeverityNumber s)" "sint (sr_SeverityNumber s) \<le> 24" by simp_all
  from t(2) show "validateTraceState (sr_TraceState s) = None"
    by (simp add: validateSignalTraceContext_def split: option.splits if_splits)
qed

lemma record_roundtrip:
  assumes "validateSignal s = None"
  shows "\<exists>p. toProtoSignalRecord (Some s) = Some p \<and> fromProtoSignalRecord p = canonical_record s"
proof -
  note f = validateSignal_facts [OF assms]
  note ts = validateTraceState_some [OF f(3)]
  show ?thesis using ts severity_int32 [OF f(1,2)]
    by (cases s) (auto simp: toProtoSignalRecord_def fromProtoSignalRecord_def canonical_record_def value_canonical map_canonical comp_def)
qed

lemma validateSignal_canonical: "validateSignal (canonical_record s) = None \<longleftrightarrow> validateSignal s = None"
proof -
  have k: "map fst (map (\<lambda>(k, v). (k, canonical v)) m) = map fst m" for m
    by (simp add: case_prod_unfold comp_def)
  have a: "validateAttrsMap p f (map (\<lambda>(k, v). (k, canonical v)) m) = None \<longleftrightarrow> validateAttrsMap p f m = None" for p f m
    by (rule validateAttrsMap_keys) (rule k)
  have "validateSignalType (canonical_record s) = validateSignalType s"
    unfolding validateSignalType_def canonical_record_sel canonical_nil ..
  moreover have "validateSignalFieldLengths (canonical_record s) = None \<longleftrightarrow> validateSignalFieldLengths s = None"
    unfolding validateSignalFieldLengths_def check_simps signalTextFields_def canonical_record_sel a ..
  moreover have "validateSignalTraceContext (canonical_record s) = validateSignalTraceContext s"
    unfolding validateSignalTraceContext_def canonical_record_sel ..
  ultimately show ?thesis unfolding validateSignal_def check_simps by simp
qed

lemma SignalBatch_Validate_canonical: "SignalBatch_Validate (canonical_batch b) = None \<longleftrightarrow> SignalBatch_Validate b = None"
proof -
  have k: "map fst (map (\<lambda>(k, v). (k, canonical v)) m) = map fst m" for m
    by (simp add: case_prod_unfold comp_def)
  have "(\<exists>r. map_option canonical_record s = Some r \<and> validateSignal r = None) \<longleftrightarrow>
      (\<exists>r. s = Some r \<and> validateSignal r = None)" for s
    by (cases s) (simp_all add: validateSignal_canonical)
  moreover have "validateAttrsMap p f (rs_Attributes (sb_Resource (canonical_batch b))) = None \<longleftrightarrow>
      validateAttrsMap p f (rs_Attributes (sb_Resource b)) = None" for p f
    by (rule validateAttrsMap_keys) (simp add: canonical_batch_def case_prod_unfold)
  moreover have "sb_Signals (canonical_batch b) = map (map_option canonical_record) (sb_Signals b)"
    by (simp add: canonical_batch_def)
  ultimately show ?thesis unfolding SignalBatch_Validate_iff by simp
qed

lemma batch_roundtrip:
  assumes "SignalBatch_Validate b = None"
  shows "\<exists>p. toProtoSignalBatch b = Some p \<and> fromProtoSignalBatch p = canonical_batch b"
proof -
  let ?ss = "sb_Signals b"
  have "\<exists>p. toProtoSignalRecord s = Some p \<and> Some (fromProtoSignalRecord p) = map_option canonical_record s"
    if "s \<in> set ?ss" for s
    using that assms record_roundtrip unfolding SignalBatch_Validate_iff by fastforce
  then have n: "None \<notin> toProtoSignalRecord ` set ?ss"
    and m: "map (\<lambda>s. Some (fromProtoSignalRecord (the (toProtoSignalRecord s)))) ?ss = map (map_option canonical_record) ?ss"
    by (force, intro map_cong refl) force
  have "fromProtoSignalBatch (the (toProtoSignalBatch b)) = canonical_batch b"
    using n m by (cases b, cases "sb_Scope b", cases "sb_Resource b")
      (auto simp: toProtoSignalBatch_def fromProtoSignalBatch_def canonical_batch_def map_canonical comp_def Let_def)
  then show ?thesis using n by (simp add: toProtoSignalBatch_def Let_def)
qed


text \<open>
  C32. A batch the client has validated survives the protobuf codec: the conversion does not panic, the server decodes the same
  batch with every dynamic value in the canonical type of its kind, and that batch passes the server's own validation again, so
  a payload accepted on one side is never rejected as invalid on the other. Decoding is a fixed point of the codec. This holds
  whenever the serialiser restores the message it was given.
\<close>

theorem proto_codec_roundtrip:
  assumes "SignalBatch_Validate b = None"
  shows "SignalBatch_Validate (canonical_batch b) = None \<and> canonical_batch (canonical_batch b) = canonical_batch b \<and>
    (\<exists>p. toProtoSignalBatch b = Some p \<and> fromProtoSignalBatch p = canonical_batch b \<and>
      (\<forall>pm pu cm cu data. pm p = Inr data \<and> pu data = Inr p \<and> data \<noteq> [] \<longrightarrow>
        MarshalSignalBatchCodec (builtin_codecs pm pu cm cu) CODEC_PROTO (Some b) = Inr data \<and>
        UnmarshalSignalBatchCodec (builtin_codecs pm pu cm cu) CODEC_PROTO data = Inr (canonical_batch b)))"
proof -
  obtain p where p: "toProtoSignalBatch b = Some p" "fromProtoSignalBatch p = canonical_batch b"
    using batch_roundtrip [OF assms] by blast
  have "canonical_batch (canonical_batch b) = canonical_batch b"
    by (simp add: canonical_batch_def comp_def case_prod_unfold option.map_comp)
  then show ?thesis using p assms SignalBatch_Validate_canonical [of b]
    by (simp add: MarshalSignalBatchCodec_def UnmarshalSignalBatchCodec_def LookupCodec_def builtin_codecs_def
      RegisterCodec_def protoCodec_def cborCodec_def)
qed

definition demo_signal :: SignalRecord where
  "demo_signal =
    \<lparr>sr_SignalType = SignalTypeLog, sr_EventID = [], sr_TimeUnixNs = 1, sr_ObservedTimeNs = 0, sr_TraceID = [], sr_SpanID = [],
     sr_ParentSpanID = [], sr_Attributes = [(''n'', AnyUnsigned 7)], sr_Body = AnyString ''up'', sr_SeverityNumber = 9,
     sr_SeverityText = [], sr_MetricName = [], sr_MetricFields = [], sr_Unit = [], sr_Temporality = [], sr_IsMonotonic = False,
     sr_Name = [], sr_Kind = [], sr_StartTimeUnixNs = 0, sr_EndTimeUnixNs = 0, sr_StatusCode = [], sr_StatusMessage = [],
     sr_TraceFlags = 1, sr_TraceState = [], sr_ExpHistogram = None, sr_Profile = None\<rparr>"

definition demo_batch :: SignalBatch where
  "demo_batch = \<lparr>sb_SchemaURL = [], sb_Resource = \<lparr>rs_Attributes = []\<rparr>,
     sb_Scope = \<lparr>sc_Name = ''agent'', sc_Version = [], sc_CollectorID = []\<rparr>, sb_Signals = [Some demo_signal]\<rparr>"

lemma demo_batch_valid: "SignalBatch_Validate demo_batch = None"
proof -
  have "validateSignalType demo_signal = None"
    by (simp add: validateSignalType_def demo_signal_def validSignalTypes_def signal_names)
  moreover have "validateSignalFieldLengths demo_signal = None"
    unfolding validateSignalFieldLengths_def check_simps validateText_loop_iff validateAttrsMap_def validateMetricFields_def
      validate_keys_iff
    by (simp add: demo_signal_def signalTextFields_def signal_names hasControlChars_bytes MaxSignalAttrs_def plain_char_def)
  moreover have "validateSignalTraceContext demo_signal = None"
    by (simp add: validateSignalTraceContext_def demo_signal_def validateHexID_def validateTraceState_def)
  ultimately have "validateSignal demo_signal = None" by (simp add: validateSignal_def)
  then show ?thesis
    by (simp add: SignalBatch_Validate_def demo_batch_def validateAttrsMap_def MaxSignalAttrs_def)
qed

theorem proto_codec_roundtrip_witness:
  "SignalBatch_Validate (canonical_batch demo_batch) = None \<and>
   (\<exists>p. toProtoSignalBatch demo_batch = Some p \<and>
     MarshalSignalBatchCodec (builtin_codecs (\<lambda>_. Inr [1]) (\<lambda>_. Inr p) (\<lambda>_. Inr []) (\<lambda>_. Inl codec_panic)) CODEC_PROTO
       (Some demo_batch) = Inr [1] \<and>
     UnmarshalSignalBatchCodec (builtin_codecs (\<lambda>_. Inr [1]) (\<lambda>_. Inr p) (\<lambda>_. Inr []) (\<lambda>_. Inl codec_panic)) CODEC_PROTO [1] =
       Inr (canonical_batch demo_batch))"
proof -
  note r = proto_codec_roundtrip [OF demo_batch_valid]
  then obtain p where p: "toProtoSignalBatch demo_batch = Some p"
    and l: "\<And>pm pu cm cu data. pm p = Inr data \<and> pu data = Inr p \<and> data \<noteq> [] \<Longrightarrow>
        MarshalSignalBatchCodec (builtin_codecs pm pu cm cu) CODEC_PROTO (Some demo_batch) = Inr data \<and>
        UnmarshalSignalBatchCodec (builtin_codecs pm pu cm cu) CODEC_PROTO data = Inr (canonical_batch demo_batch)"
    by blast
  show ?thesis using r p l [of "\<lambda>_. Inr [1]" "[1]" "\<lambda>_. Inr p" "\<lambda>_. Inr []" "\<lambda>_. Inl codec_panic"] by simp
qed

end
