(* ===== verification/Session.thy ===== *)
theory Session
  imports Errors
begin

text \<open>
  The session state machines, \<open>core/session.go\<close>: four client states with \<open>Closed\<close> reachable from all
  of them, three server states. Both are one-way: an accepted transition raises the rank of the state. The locale
  \<open>one_way_machine\<close> states that contract once and both machines are instances of it. The Go types are
  named integers, but no code makes a value other than the constants, so they are datatypes here and
  the default branches of \<open>String\<close> do not arise.
\<close>

section \<open>The machines\<close>

datatype State = StateIdle | StateReady | StateDraining | StateClosed

fun State_String :: "State \<Rightarrow> string" where
  "State_String StateIdle = ''IDLE''"
| "State_String StateReady = ''READY''"
| "State_String StateDraining = ''DRAINING''"
| "State_String StateClosed = ''CLOSED''"

fun clientTransitions :: "State \<Rightarrow> State list" where
  "clientTransitions StateIdle = [StateReady, StateClosed]"
| "clientTransitions StateReady = [StateDraining, StateClosed]"
| "clientTransitions StateDraining = [StateClosed]"
| "clientTransitions StateClosed = []"

record StateMachine =
  sm_state :: State

definition NewStateMachine :: StateMachine where
  "NewStateMachine = \<lparr>sm_state = StateIdle\<rparr>"

definition Transition :: "State \<Rightarrow> StateMachine \<Rightarrow> go_err option \<times> StateMachine" where
  "Transition nxt sm =
    (if nxt \<in> set (clientTransitions (sm_state sm)) then (None, sm\<lparr>sm_state := nxt\<rparr>)
     else (Some (NewError ErrCodeProtocolError
       (''invalid transition '' @ State_String (sm_state sm) @ '' -> '' @ State_String nxt)), sm))"

definition ForceClosed :: "StateMachine \<Rightarrow> StateMachine" where
  "ForceClosed sm = sm\<lparr>sm_state := StateClosed\<rparr>"

datatype ServerState = ServerStateHandshaking | ServerStateReady | ServerStateDraining

fun ServerState_String :: "ServerState \<Rightarrow> string" where
  "ServerState_String ServerStateHandshaking = ''HANDSHAKING''"
| "ServerState_String ServerStateReady = ''READY''"
| "ServerState_String ServerStateDraining = ''DRAINING''"

record ServerMachine =
  ssm_state :: ServerState

definition NewServerMachine :: ServerMachine where
  "NewServerMachine = \<lparr>ssm_state = ServerStateHandshaking\<rparr>"

definition Server_Transition :: "ServerState \<Rightarrow> ServerMachine \<Rightarrow> go_err option \<times> ServerMachine" where
  "Server_Transition nxt sm =
    (let valid = (ssm_state sm = ServerStateHandshaking \<and> nxt = ServerStateReady) \<or>
                 (ssm_state sm = ServerStateReady \<and> nxt = ServerStateDraining)
     in if \<not> valid then
          (Some (NewError ErrCodeProtocolError
             (''invalid server transition '' @ ServerState_String (ssm_state sm) @ '' -> '' @ ServerState_String nxt)), sm)
        else (None, sm\<lparr>ssm_state := nxt\<rparr>))"

section \<open>One-way machines\<close>

text \<open>
  An accepted request moves to the requested state, which has a higher rank; a refused one changes
  nothing. \<open>visits\<close> lists the ranks of the states a run of requests goes through.
\<close>

fun visits :: "('s \<Rightarrow> 'm \<Rightarrow> go_err option \<times> 'm) \<Rightarrow> ('m \<Rightarrow> nat) \<Rightarrow> 's list \<Rightarrow> 'm \<Rightarrow> nat list" where
  "visits tr rank [] m = [rank m]"
| "visits tr rank (x # xs) m = rank m # visits tr rank xs (snd (tr x m))"

fun accepted_count :: "('s \<Rightarrow> 'm \<Rightarrow> go_err option \<times> 'm) \<Rightarrow> 's list \<Rightarrow> 'm \<Rightarrow> nat" where
  "accepted_count tr [] m = 0"
| "accepted_count tr (x # xs) m = (case tr x m of
     (None, m') \<Rightarrow> Suc (accepted_count tr xs m') | (Some _, m') \<Rightarrow> accepted_count tr xs m')"

locale one_way_machine =
  fixes tr :: "'s \<Rightarrow> 'm \<Rightarrow> go_err option \<times> 'm"
    and state :: "'m \<Rightarrow> 's"
    and rank :: "'s \<Rightarrow> nat"
    and top :: nat
  assumes moves: "tr x m = (None, m') \<Longrightarrow> state m' = x \<and> rank (state m) < rank x"
    and stays: "tr x m = (Some e, m') \<Longrightarrow> m' = m"
    and bounded: "rank x \<le> top"
begin

lemma visits_sorted: "sorted (visits tr (\<lambda>n. rank (state n)) xs m)"
proof -
  have first: "hd (visits tr (\<lambda>n. rank (state n)) ys n) = rank (state n)" "visits tr (\<lambda>n. rank (state n)) ys n \<noteq> []" for ys n
    by (cases ys; simp)+
  show ?thesis
  proof (induction xs arbitrary: m)
    case (Cons x xs)
    obtain r m' where t: "tr x m = (r, m')" by (cases "tr x m")
    have "rank (state m) \<le> rank (state m')"
      using moves [of x m m'] stays [of x m _ m'] t by (cases r) (auto simp: less_imp_le)
    with Cons [of m'] first [of xs m'] t show ?case
      by (cases "visits tr (\<lambda>n. rank (state n)) xs m'") auto
  qed simp
qed

lemma accepted_bounded: "accepted_count tr xs m + rank (state m) \<le> top"
proof (induction xs arbitrary: m)
  case Nil
  show ?case using bounded by simp
next
  case (Cons x xs)
  obtain r m' where t: "tr x m = (r, m')" by (cases "tr x m")
  with Cons [of m'] moves [of x m m'] stays [of x m _ m'] show ?case by (cases r) auto
qed

end

fun client_rank :: "State \<Rightarrow> nat" where
  "client_rank StateIdle = 0" | "client_rank StateReady = 1"
| "client_rank StateDraining = 2" | "client_rank StateClosed = 3"

fun server_rank :: "ServerState \<Rightarrow> nat" where
  "server_rank ServerStateHandshaking = 0" | "server_rank ServerStateReady = 1"
| "server_rank ServerStateDraining = 2"

interpretation client_machine: one_way_machine Transition sm_state client_rank 3
proof unfold_locales
  fix x m m'
  assume "Transition x m = (None, m')"
  then show "sm_state m' = x \<and> client_rank (sm_state m) < client_rank x"
    by (cases "sm_state m") (auto simp: Transition_def split: if_splits)
next
  fix x m e m'
  assume "Transition x m = (Some e, m')"
  then show "m' = m" by (simp add: Transition_def split: if_splits)
next
  fix x show "client_rank x \<le> 3" by (cases x) simp_all
qed

interpretation server_machine: one_way_machine Server_Transition ssm_state server_rank 2
proof unfold_locales
  fix x m m'
  assume "Server_Transition x m = (None, m')"
  then show "ssm_state m' = x \<and> server_rank (ssm_state m) < server_rank x"
    by (auto simp: Server_Transition_def split: if_splits)
next
  fix x m e m'
  assume "Server_Transition x m = (Some e, m')"
  then show "m' = m" by (simp add: Server_Transition_def split: if_splits)
next
  fix x show "server_rank x \<le> 2" by (cases x) simp_all
qed

section \<open>Properties\<close>

text \<open>
  The client's session only moves forward. Under any list of requested transitions the states
  visited go up the order idle, ready, draining, closed; at most three requests succeed; a refused
  request changes nothing; \<open>Closed\<close> can be requested from every other state and forced from any, and once closed
  every request is refused.
\<close>

theorem client_session_forward:
  "sorted (visits Transition (\<lambda>n. client_rank (sm_state n)) xs m) \<and> accepted_count Transition xs m \<le> 3 \<and>
   (fst (Transition x m) \<noteq> None \<longrightarrow> snd (Transition x m) = m) \<and>
   (sm_state m \<noteq> StateClosed \<longrightarrow> Transition StateClosed m = (None, ForceClosed m)) \<and>
   fst (Transition x (ForceClosed m)) \<noteq> None \<and> ForceClosed (ForceClosed m) = ForceClosed m"
proof -
  have "Transition StateClosed m = (None, ForceClosed m)" if "sm_state m \<noteq> StateClosed"
    using that by (cases "sm_state m") (simp_all add: Transition_def ForceClosed_def)
  then show ?thesis
    using client_machine.visits_sorted client_machine.accepted_bounded [of xs m]
    by (auto simp: Transition_def ForceClosed_def)
qed

theorem client_session_forward_witness:
  "fst (Transition StateReady (ForceClosed NewStateMachine)) \<noteq> None \<and>
   Transition StateClosed NewStateMachine = (None, ForceClosed NewStateMachine)"
  using client_session_forward [of "[]" NewStateMachine StateReady]
  by (simp add: NewStateMachine_def)

text \<open>
  The server's session accepts one handshake and one drain. Under any list of requests its states
  go up the order handshaking, ready, draining and at most two requests succeed; \<open>Ready\<close> is entered
  only from \<open>Handshaking\<close>, so a second HELLO cannot make a session ready again.
\<close>

theorem server_session_once:
  "sorted (visits Server_Transition (\<lambda>n. server_rank (ssm_state n)) xs m) \<and> accepted_count Server_Transition xs m \<le> 2 \<and>
   (fst (Server_Transition ServerStateReady m) = None \<longleftrightarrow> ssm_state m = ServerStateHandshaking) \<and>
   (fst (Server_Transition ServerStateDraining m) = None \<longleftrightarrow> ssm_state m = ServerStateReady) \<and>
   fst (Server_Transition ServerStateHandshaking m) \<noteq> None"
  using server_machine.visits_sorted server_machine.accepted_bounded [of xs m]
  by (simp add: Server_Transition_def Let_def)

end
