(* ===== verification/Interleave.thy ===== *)
theory Interleave
  imports Manager
begin

text \<open>
  The credit manager under arbitrary interleaving. Connection goroutines, sink workers, the reaper
  and the timer all call into one manager; each critical section of its lock is one step. A pool
  state holds the manager, every grant object handed out so far (those \<open>ForceSettle\<close> makes between
  its two critical sections included) and two histories that no step reads: the settlements that took
  effect, in order, and the RESULT frames sent. A step names a grant by its position; the scheduler,
  the byte counts, levels and codes are arbitrary, so a run over a list of steps is any execution.
\<close>

section \<open>Steps\<close>

record pool =
  mgr :: CreditManager
  grants :: "SettleGrant list"
  settles :: "(u64 \<times> TerminalEntry) list"
  frames :: "Result list"

datatype mop =
    MAdmit u64 time
  | MConsume nat i64
  | MBackfill nat string
  | MAccept nat bool
  | MSettle nat bool ResultLevel u32 u32 i64
  | MRelease nat
  | MForce u64 bool i64
  | MTake

definition init_pool :: "i64 \<Rightarrow> i64 \<Rightarrow> int \<Rightarrow> pool" where
  "init_pool b y cap = \<lparr>mgr = NewCreditManager b y cap, grants = [], settles = [], frames = []\<rparr>"

fun mop_step :: "pool \<Rightarrow> mop \<Rightarrow> pool" where
  "mop_step p (MAdmit seq now) =
     (case Admit seq now (mgr p) of (r, m) \<Rightarrow>
        p\<lparr>mgr := m, grants := grants p @ (case ar_Grant r of Some g \<Rightarrow> [g] | None \<Rightarrow> [])\<rparr>)"
| "mop_step p (MConsume i n) =
     (if i < length (grants p) then
        (case Grant_Consume n (grants p ! i) (mgr p) of (_, g, m) \<Rightarrow>
           p\<lparr>mgr := m, grants := (grants p)[i := g]\<rparr>)
      else p)"
| "mop_step p (MBackfill i corr) =
     (if i < length (grants p) then p\<lparr>mgr := Grant_Backfill corr (grants p ! i) (mgr p)\<rparr> else p)"
| "mop_step p (MAccept i send) =
     (if i < length (grants p) then
        (case Grant_Accept send (grants p ! i) (mgr p) of (rs, g) \<Rightarrow>
           p\<lparr>grants := (grants p)[i := g], frames := frames p @ rs\<rparr>)
      else p)"
| "mop_step p (MSettle i send level code retry n) =
     (if i < length (grants p) then
        (case Grant_Settle send level code retry n (grants p ! i) (mgr p) of (rs, g, m) \<Rightarrow>
           p\<lparr>mgr := m, grants := (grants p)[i := g], frames := frames p @ rs,
             settles := settles p @ (if effective (grants p ! i) (mgr p)
               then [(g_seq (grants p ! i), \<lparr>te_Level = level, te_Code = code\<rparr>)] else [])\<rparr>)
      else p)"
| "mop_step p (MRelease i) =
     (if i < length (grants p) then
        (case Grant_Release (grants p ! i) (mgr p) of (g, m) \<Rightarrow>
           p\<lparr>mgr := m, grants := (grants p)[i := g]\<rparr>)
      else p)"
| "mop_step p (MForce seq send n) =
     (case force_lookup send seq n (mgr p) of (rs, og) \<Rightarrow>
        p\<lparr>frames := frames p @ rs, grants := grants p @ (case og of Some (g, _) \<Rightarrow> [g] | None \<Rightarrow> [])\<rparr>)"
| "mop_step p MTake = p\<lparr>mgr := snd (TakeRecovered (mgr p))\<rparr>"

text \<open>
  The only restriction on a schedule: nobody admits the very last number \<open>2 ^ 64 - 1\<close>, which the
  counter reaches after \<open>2 ^ 64 - 1\<close> sends; past it the prefix \<open>low\<close> would wrap to 0.
\<close>

fun mop_ok :: "mop \<Rightarrow> bool" where
  "mop_ok (MAdmit seq _) = (seq \<noteq> -1)"
| "mop_ok _ = True"

definition window :: "pool \<Rightarrow> (u64 \<times> TerminalEntry) list" where
  "window p = last_n (nat (ringCap (mgr p))) (settles p)"

definition grants_ok :: "SettleGrant list \<Rightarrow> bool" where
  "grants_ok gs \<longleftrightarrow> (\<forall>g \<in> set gs. g_seq g \<noteq> 0 \<and> g_seq g \<noteq> -1)"

definition pool_inv :: "pool \<Rightarrow> bool" where
  "pool_inv p \<longleftrightarrow> mgr_inv (mgr p) \<and>
     grants_ok (grants p) \<and>
     settled (mgr p) = insert 0 (fst ` set (settles p)) \<and>
     ringOrd (mgr p) = map fst (window p) \<and> terminal (mgr p) = map_of (window p)"

section \<open>The invariant\<close>

lemma mgr_inv_seen:
  assumes "mgr_inv m" "seen m' = sn" "distinct_keys sn"
    "\<forall>(k, s) \<in> set sn. is_Seq s = k \<and> k \<noteq> 0 \<and> k \<noteq> -1" "fst ` set sn \<inter> settled m = {}"
    "low m' = low m" "accepted m' = accepted m" "terminal m' = terminal m" "ringOrd m' = ringOrd m"
    "ringCap m' = ringCap m"
  shows "mgr_inv m'"
  using assms by (simp add: mgr_inv_def settled_def inflight_def dom_map_of_conv_image_fst)

lemma update_key_keys: "map_of al k = Some v \<Longrightarrow> fst ` set (AList.update k w al) = fst ` set al"
  by (auto simp: map_of_alist_update simp flip: dom_map_of_conv_image_fst)

text \<open>Changing the slot of an in-flight number, or dropping it, keeps the manager well formed.\<close>

lemma mgr_inv_update_slot:
  assumes "mgr_inv m" "map_of (seen m) k = Some s" "is_Seq v = is_Seq s"
    "seen m' = AList.update k v (seen m)" "low m' = low m" "accepted m' = accepted m"
    "terminal m' = terminal m" "ringOrd m' = ringOrd m" "ringCap m' = ringCap m"
  shows "mgr_inv m'"
proof (rule mgr_inv_seen [OF assms(1,4)])
  have ks: "(k, s) \<in> set (seen m)" using assms(2) by (rule map_of_SomeD)
  show "\<forall>(k, s) \<in> set (AList.update k v (seen m)). is_Seq s = k \<and> k \<noteq> 0 \<and> k \<noteq> -1"
    using assms(1,3) ks by (intro alist_update_all) (auto simp: mgr_inv_def)
  show "fst ` set (AList.update k v (seen m)) \<inter> settled m = {}"
    using assms(1,2) by (simp add: update_key_keys mgr_inv_def inflight_def dom_map_of_conv_image_fst)
qed (use assms in \<open>auto simp: mgr_inv_def\<close>)

lemma mgr_inv_drop_slot:
  assumes "mgr_inv m" "seen m' = AList.delete k (seen m)" "low m' = low m" "accepted m' = accepted m"
    "terminal m' = terminal m" "ringOrd m' = ringOrd m" "ringCap m' = ringCap m"
  shows "mgr_inv m'"
proof (rule mgr_inv_seen [OF assms(1,2)])
  show "\<forall>(k, s) \<in> set (AList.delete k (seen m)). is_Seq s = k \<and> k \<noteq> 0 \<and> k \<noteq> -1"
    using assms(1) by (intro alist_delete_all) (simp add: mgr_inv_def)
  show "fst ` set (AList.delete k (seen m)) \<inter> settled m = {}"
    using assms(1) set_alist_delete [of k "seen m"]
    by (fastforce simp: mgr_inv_def inflight_def dom_map_of_conv_image_fst)
qed (use assms in \<open>auto simp: mgr_inv_def\<close>)

lemma mgr_inv_Admit:
  assumes "mgr_inv m" "seq \<noteq> -1"
  shows "mgr_inv (snd (Admit seq now m))"
proof (cases "seq \<noteq> 0 \<and> seq \<notin> inflight m \<and> seq \<notin> settled m")
  case True
  let ?v = "\<lparr>is_Seq = seq, is_Bytes = 0, is_Correlation = [], is_AddedAt = now\<rparr>"
  let ?m' = "m\<lparr>seen := AList.update seq ?v (seen m)\<rparr>"
  have "mgr_inv ?m'"
  proof (rule mgr_inv_seen [OF assms(1)])
    show "seen ?m' = AList.update seq ?v (seen m)" by simp
    show "\<forall>(k, s) \<in> set (AList.update seq ?v (seen m)). is_Seq s = k \<and> k \<noteq> 0 \<and> k \<noteq> -1"
      using assms True by (intro alist_update_all) (auto simp: mgr_inv_def)
    have "inflight m \<inter> settled m = {}" using assms(1) by (simp add: mgr_inv_def)
    moreover have "fst ` set (AList.update seq ?v (seen m)) = insert seq (inflight m)"
      by (auto simp: map_of_alist_update inflight_def simp flip: dom_map_of_conv_image_fst)
    ultimately show "fst ` set (AList.update seq ?v (seen m)) \<inter> settled m = {}"
      using True by auto
  qed (use assms in \<open>auto simp: mgr_inv_def\<close>)
  moreover have "snd (Admit seq now m) = ?m'"
    using True by (simp add: Admit_def inflight_iff settled_iff)
  ultimately show ?thesis by simp
next
  case False
  then have "snd (Admit seq now m) = m"
    by (auto simp: Admit_def inflight_iff settled_iff split: option.splits)
  with assms show ?thesis by simp
qed

lemma mgr_inv_outstanding:
  assumes "mgr_inv m"
  shows "mgr_inv (m\<lparr>outstandingB := b, outstandingY := y\<rparr>)"
  using assms by (simp add: mgr_inv_def settled_def inflight_def)

lemma mgr_inv_Consume:
  assumes "mgr_inv m"
  shows "mgr_inv (snd (snd (Grant_Consume n g m)))"
proof -
  have "mgr_inv (releaseLocked (g_seq g) m)"
    by (rule mgr_inv_drop_slot [OF assms, of _ "g_seq g"]) (simp_all add: releaseLocked_def)
  moreover have "mgr_inv (m\<lparr>outstandingB := outstandingB m - 1, outstandingY := outstandingY m - n,
      seen := AList.update (g_seq g) (s\<lparr>is_Bytes := n\<rparr>) (seen m)\<rparr>)"
    if "map_of (seen m) (g_seq g) = Some s" for s
    using that by (intro mgr_inv_update_slot [OF assms that, of "s\<lparr>is_Bytes := n\<rparr>"]) simp_all
  moreover have "m\<lparr>outstandingB := b, outstandingY := y, seen := seen m\<rparr> =
      m\<lparr>outstandingB := b, outstandingY := y\<rparr>" for b y by simp
  ultimately show ?thesis
    using assms mgr_inv_outstanding [OF assms] by (simp add: Grant_Consume_def split: option.splits)
qed

lemma mgr_inv_Backfill:
  assumes "mgr_inv m"
  shows "mgr_inv (Grant_Backfill corr g m)"
proof (cases "map_of (seen m) (g_seq g)")
  case None
  with assms show ?thesis by (simp add: Grant_Backfill_def)
next
  case (Some s)
  then show ?thesis
    by (intro mgr_inv_update_slot [OF assms Some, of "s\<lparr>is_Correlation := corr\<rparr>"])
      (simp_all add: Grant_Backfill_def)
qed

lemma mgr_inv_Release:
  assumes "mgr_inv m"
  shows "mgr_inv (snd (Grant_Release g m))"
proof -
  have "mgr_inv (releaseLocked (g_seq g) m)"
    by (rule mgr_inv_drop_slot [OF assms, of _ "g_seq g"]) (simp_all add: releaseLocked_def)
  with assms show ?thesis by (simp add: Grant_Release_def)
qed

lemma mgr_inv_Take:
  assumes "mgr_inv m"
  shows "mgr_inv (snd (TakeRecovered m))"
  using assms by (simp add: TakeRecovered_def mgr_inv_def settled_def inflight_def)

lemma mgr_inv_Settle:
  assumes "mgr_inv m" "g_seq g \<noteq> 0" "g_seq g \<noteq> -1"
    and st: "Grant_Settle send level code retry fb g m = (rs, g', m')"
  shows "mgr_inv m'"
proof (cases "effective g m")
  case False
  with st assms(1) show ?thesis by (simp add: Settle_ineffective)
next
  case True
  note eff = Settle_effective [OF assms(1) True assms(3) st]
  have tn: "terminal m (g_seq g) = None" using assms(1) True by (rule ring_terminal_None)
  have dt: "dom (terminal m) = set (ringOrd m)" and dr: "distinct (ringOrd m)"
    and lr: "int (length (ringOrd m)) \<le> ringCap m" "0 < ringCap m"
    and sr: "set (ringOrd m) \<subseteq> settled m"
    and acc: "0 \<notin> accepted m" "-1 \<notin> accepted m" "0 < low m"
    and dis: "inflight m \<inter> settled m = {}" and dk: "distinct_keys (seen m)"
    and sl: "\<forall>(k, s) \<in> set (seen m). is_Seq s = k \<and> k \<noteq> 0 \<and> k \<noteq> -1"
    using assms(1) by (auto simp: mgr_inv_def)
  have nr: "g_seq g \<notin> set (ringOrd m)" using tn dt by auto
  have ring: "distinct (ringOrd m') \<and> int (length (ringOrd m')) \<le> ringCap m \<and>
      set (ringOrd m') \<subseteq> insert (g_seq g) (set (ringOrd m)) \<and> dom (terminal m') = set (ringOrd m')"
    using dr nr lr dt unfolding eff(9,10) by (cases "ringOrd m") auto
  have "inflight m' = inflight m - {g_seq g}" by (rule inflight_delete [OF eff(7)])
  moreover have "0 < low m'" using acc(3) eff(14) by order
  moreover have "\<forall>(k, s) \<in> set (seen m'). is_Seq s = k \<and> k \<noteq> 0 \<and> k \<noteq> -1"
    using sl unfolding eff(7) by (rule alist_delete_all)
  ultimately show ?thesis
    using ring eff(12,13) acc assms(2,3) sr dk lr(2) dis
    by (auto simp: mgr_inv_def eff(7,8,11))
qed

text \<open>The ring and the stored outcomes are the last \<open>ringCap\<close> settlements.\<close>

lemma settle_window:
  assumes "mgr_inv m" "effective g m" "g_seq g \<noteq> -1"
    and st: "Grant_Settle send level code retry fb g m = (rs, g', m')"
    and ring: "ringOrd m = map fst (last_n (nat (ringCap m)) h)"
    and tm: "terminal m = map_of (last_n (nat (ringCap m)) h)"
  defines "h' \<equiv> h @ [(g_seq g, \<lparr>te_Level = level, te_Code = code\<rparr>)]"
  shows "ringOrd m' = map fst (last_n (nat (ringCap m)) h') \<and> terminal m' = map_of (last_n (nat (ringCap m)) h')"
proof -
  note eff = Settle_effective [OF assms(1-3) st]
  let ?e = "(g_seq g, \<lparr>te_Level = level, te_Code = code\<rparr>)"
  define w where "w = last_n (nat (ringCap m)) h"
  have c: "0 < ringCap m" "distinct (map fst w)"
    using assms(1) by (simp_all add: mgr_inv_def ring w_def)
  have tn: "terminal m (g_seq g) = None" using assms(1,2) by (rule ring_terminal_None)
  then have fresh: "g_seq g \<notin> fst ` set w" by (simp add: tm w_def map_of_eq_None_iff)
  have long: "ringCap m < int (length (ringOrd m @ [g_seq g])) \<longleftrightarrow> nat (ringCap m) < length (w @ [?e])"
    using c(1) by (simp add: ring w_def) linarith
  have snoc: "last_n (nat (ringCap m)) h' = (if nat (ringCap m) < length (w @ [?e]) then tl (w @ [?e]) else w @ [?e])"
    using c(1) unfolding h'_def w_def by (intro last_n_snoc) simp
  have ring': "ringOrd m = map fst w" "terminal m = map_of w" by (simp_all add: ring tm w_def)
  show ?thesis
  proof (cases "nat (ringCap m) < length (w @ [?e])")
    case False
    then show ?thesis
      using fresh unfolding eff(9,10) long snoc if_not_P [OF False] unfolding ring'
      by (simp add: map_of_snoc_fresh del: map_of_append)
  next
    case True
    then have w: "w \<noteq> []" using c(1) by auto
    have "g_seq g \<notin> fst ` set (tl w)" using fresh w by (auto dest: list.set_sel(2))
    then show ?thesis
      using w c(2) fresh unfolding eff(9,10) long snoc if_P [OF True] unfolding ring'
      by (simp add: map_of_snoc_fresh map_of_tl map_tl hd_map fun_upd_twist del: map_of_append)
  qed
qed

text \<open>Steps that leave the settled set, the ring and the stored outcomes alone.\<close>

definition same_history :: "CreditManager \<Rightarrow> CreditManager \<Rightarrow> bool" where
  "same_history m m' \<longleftrightarrow> low m' = low m \<and> accepted m' = accepted m \<and> ringOrd m' = ringOrd m \<and>
     terminal m' = terminal m \<and> ringCap m' = ringCap m"

lemma same_history_steps:
  "same_history m m" "same_history m (snd (Admit seq now m))" "same_history m (snd (snd (Grant_Consume n g m)))"
  "same_history m (Grant_Backfill corr g m)" "same_history m (snd (Grant_Release g m))"
  "same_history m (snd (TakeRecovered m))"
  by (simp_all add: same_history_def Admit_def Grant_Consume_def releaseLocked_def Grant_Backfill_def
      Grant_Release_def TakeRecovered_def split: option.split)

lemma pool_inv_frame:
  assumes "pool_inv p" "mgr_inv (mgr p')" "settles p' = settles p"
    "same_history (mgr p) (mgr p')"
    "grants_ok (grants p')"
  shows "pool_inv p'"
  using assms by (simp add: pool_inv_def window_def same_history_def settled_def)

lemma grants_ok_append [simp]: "grants_ok (gs @ hs) \<longleftrightarrow> grants_ok gs \<and> grants_ok hs"
  unfolding grants_ok_def set_append by blast

lemma grants_ok_nth: "grants_ok gs \<Longrightarrow> i < length gs \<Longrightarrow> g_seq (gs ! i) \<noteq> 0 \<and> g_seq (gs ! i) \<noteq> -1"
  by (simp add: grants_ok_def)

lemma grants_ok_update:
  assumes "grants_ok gs" "g_seq h = g_seq (gs ! i)"
  shows "grants_ok (gs[i := h])"
proof (cases "i < length gs")
  case True
  have "x = h \<or> x \<in> set gs" if "x \<in> set (gs[i := h])" for x
    using that set_update_subset_insert [of gs i h] by blast
  with grants_ok_nth [OF assms(1) True] assms show ?thesis by (metis grants_ok_def)
qed (use assms in \<open>simp add: list_update_beyond\<close>)

lemma grant_seq_kept:
  "g_seq (fst (snd (Grant_Consume n g m))) = g_seq g" "g_seq (snd (Grant_Accept send g m)) = g_seq g"
  "g_seq (fst (snd (Grant_Settle send level code retry n g m))) = g_seq g"
  "g_seq (fst (Grant_Release g m)) = g_seq g"
  by (auto simp: Grant_Consume_def Grant_Accept_def Grant_Settle_def Grant_Release_def Let_def)

lemma grants_ok_admitted:
  "seq \<noteq> -1 \<Longrightarrow> grants_ok (case ar_Grant (fst (Admit seq now m)) of Some g \<Rightarrow> [g] | None \<Rightarrow> [])"
  by (simp add: Admit_def grants_ok_def split: option.split)

lemma inflight_key: "mgr_inv m \<Longrightarrow> map_of (seen m) k = Some s \<Longrightarrow> is_Seq s = k \<and> k \<noteq> 0 \<and> k \<noteq> -1"
  by (auto simp: mgr_inv_def dest!: map_of_SomeD)

lemma grants_ok_forced:
  "mgr_inv m \<Longrightarrow> grants_ok (case snd (force_lookup send seq n m) of Some (g, _) \<Rightarrow> [g] | None \<Rightarrow> [])"
  by (cases "map_of (seen m) seq")
    (auto simp: force_lookup_def grants_ok_def dest: inflight_key split: option.split)

lemma pool_inv_settle:
  assumes inv: "pool_inv p" and i: "i < length (grants p)"
  shows "pool_inv (mop_step p (MSettle i send level code retry n))"
proof -
  obtain rs g m where st: "Grant_Settle send level code retry n (grants p ! i) (mgr p) = (rs, g, m)"
    by (cases "Grant_Settle send level code retry n (grants p ! i) (mgr p)")
  have gi: "g_seq (grants p ! i) \<noteq> 0" "g_seq (grants p ! i) \<noteq> -1" and mi: "mgr_inv (mgr p)"
    using inv i grants_ok_nth by (auto simp: pool_inv_def)
  have "g_seq g = g_seq (grants p ! i)" using grant_seq_kept(3) [of send level code retry n "grants p ! i" "mgr p"] st by simp
  then have gs: "grants_ok ((grants p)[i := g])"
    using inv by (intro grants_ok_update) (auto simp: pool_inv_def)
  show ?thesis
  proof (cases "effective (grants p ! i) (mgr p)")
    case True
    have "mgr_inv m" by (rule mgr_inv_Settle [OF mi gi st])
    moreover have "settled m = insert (g_seq (grants p ! i)) (settled (mgr p))" "ringCap m = ringCap (mgr p)"
      using Settle_effective [OF mi True gi(2) st] by simp_all
    moreover have "ringOrd (mgr p) = map fst (last_n (nat (ringCap (mgr p))) (settles p))"
      "terminal (mgr p) = map_of (last_n (nat (ringCap (mgr p))) (settles p))"
      using inv by (simp_all add: pool_inv_def window_def)
    note settle_window [OF mi True gi(2) st this]
    ultimately show ?thesis
      using inv i gs by (auto simp: st True pool_inv_def window_def)
  next
    case False
    with st have "m = mgr p" by (simp add: Settle_ineffective)
    with False show ?thesis
      using inv i gs by (simp add: st pool_inv_def window_def)
  qed
qed

lemma pool_inv_step:
  assumes inv: "pool_inv p" and ok: "mop_ok op"
  shows "pool_inv (mop_step p op)"
proof -
  have mi: "mgr_inv (mgr p)" and gs: "grants_ok (grants p)"
    using inv by (auto simp: pool_inv_def)
  show ?thesis
  proof (cases op)
    case (MAdmit seq now)
    let ?new = "case ar_Grant (fst (Admit seq now (mgr p))) of Some g \<Rightarrow> [g] | None \<Rightarrow> []"
    have "pool_inv (p\<lparr>mgr := snd (Admit seq now (mgr p)), grants := grants p @ ?new\<rparr>)"
      using ok MAdmit gs grants_ok_admitted
      by (intro pool_inv_frame [OF inv]) (simp_all add: mgr_inv_Admit mi same_history_steps)
    then show ?thesis by (simp add: MAdmit case_prod_beta)
  next
    case (MConsume i n)
    have "i < length (grants p) \<Longrightarrow> pool_inv (p\<lparr>mgr := snd (snd (Grant_Consume n (grants p ! i) (mgr p))),
        grants := (grants p)[i := fst (snd (Grant_Consume n (grants p ! i) (mgr p)))]\<rparr>)"
      using gs by (intro pool_inv_frame [OF inv])
        (simp_all add: mgr_inv_Consume mi same_history_steps grants_ok_update grant_seq_kept)
    then show ?thesis using inv by (simp add: MConsume case_prod_beta)
  next
    case (MBackfill i corr)
    have "pool_inv (p\<lparr>mgr := Grant_Backfill corr (grants p ! i) (mgr p)\<rparr>)"
      using gs by (intro pool_inv_frame [OF inv]) (simp_all add: mgr_inv_Backfill mi same_history_steps)
    then show ?thesis using inv by (simp add: MBackfill)
  next
    case (MAccept i send)
    have "i < length (grants p) \<Longrightarrow> pool_inv (p\<lparr>grants := (grants p)[i := snd (Grant_Accept send (grants p ! i) (mgr p))],
        frames := frames p @ fst (Grant_Accept send (grants p ! i) (mgr p))\<rparr>)"
      using gs mi by (intro pool_inv_frame [OF inv]) (simp_all add: same_history_steps grants_ok_update grant_seq_kept)
    then show ?thesis using inv by (simp add: MAccept case_prod_beta)
  next
    case (MSettle i send level code retry n)
    then show ?thesis using pool_inv_settle [OF inv] inv by (cases "i < length (grants p)") simp_all
  next
    case (MRelease i)
    have "i < length (grants p) \<Longrightarrow> pool_inv (p\<lparr>mgr := snd (Grant_Release (grants p ! i) (mgr p)),
        grants := (grants p)[i := fst (Grant_Release (grants p ! i) (mgr p))]\<rparr>)"
      using gs by (intro pool_inv_frame [OF inv])
        (simp_all add: mgr_inv_Release mi same_history_steps grants_ok_update grant_seq_kept)
    then show ?thesis using inv by (simp add: MRelease case_prod_beta)
  next
    case (MForce seq send n)
    have "pool_inv (p\<lparr>frames := frames p @ fst (force_lookup send seq n (mgr p)), grants := grants p @
        (case snd (force_lookup send seq n (mgr p)) of Some (g, _) \<Rightarrow> [g] | None \<Rightarrow> [])\<rparr>)"
      using gs mi grants_ok_forced by (intro pool_inv_frame [OF inv]) (simp_all add: same_history_steps)
    then show ?thesis by (simp add: MForce case_prod_beta)
  next
    case MTake
    have "pool_inv (p\<lparr>mgr := snd (TakeRecovered (mgr p))\<rparr>)"
      using gs by (intro pool_inv_frame [OF inv]) (simp_all add: mgr_inv_Take mi same_history_steps)
    then show ?thesis by (simp add: MTake)
  qed
qed

lemma pool_inv_init: "pool_inv (init_pool b y cap)"
  by (simp add: pool_inv_def init_pool_def mgr_inv_New window_def grants_ok_def)
    (auto simp: NewCreditManager_def settled_def last_n_def word_less_nat_alt unat_eq_zero)

lemma pool_inv_run: "pool_inv p \<Longrightarrow> \<forall>op \<in> set ops. mop_ok op \<Longrightarrow> pool_inv (foldl mop_step p ops)"
  by (induction ops arbitrary: p) (simp_all add: pool_inv_step)

section \<open>What admission promises\<close>

text \<open>
  The abstract deduplicator keeps the whole history of settlements and the set of numbers in flight;
  it remembers the outcomes of the last \<open>cap\<close> settlements.
\<close>

definition spec_admit :: "nat \<Rightarrow> (u64 \<times> TerminalEntry) list \<Rightarrow> u64 set \<Rightarrow> u64 \<Rightarrow> AdmitDecision \<times> TerminalEntry option" where
  "spec_admit cap h infl s =
    (if s = 0 then (AdmitViolation, None)
     else if s \<in> infl then (AdmitDuplicate, None)
     else if s \<in> fst ` set h then
       (case map_of (last_n cap h) s of Some e \<Rightarrow> (AdmitTerminalHit, Some e) | None \<Rightarrow> (AdmitBelowUnknown, None))
     else (AdmitAccept, None))"

lemma run_inv: "\<forall>op \<in> set ops. mop_ok op \<Longrightarrow> pool_inv (foldl mop_step (init_pool b y cap) ops)"
  by (rule pool_inv_run [OF pool_inv_init])

text \<open>
  C12. Refinement of the deduplicator. After any interleaving of the operations of any number of
  grants, \<open>Admit\<close> decides a sequence number exactly as the abstract deduplicator does from the whole
  settlement history: a settled number is never admitted again, one of the last \<open>ringCap\<close>
  settlements is answered with its recorded outcome and an older one as unknown. The bounded
  state (\<open>low\<close>, \<open>accepted\<close>, the terminal ring) loses nothing but evicted outcomes.
\<close>

theorem Admit_refines_history:
  fixes b y :: i64 and cap :: int
  assumes "\<forall>op \<in> set ops. mop_ok op"
  defines "p \<equiv> foldl mop_step (init_pool b y cap) ops"
  shows "(ar_Decision (fst (Admit s now (mgr p))), ar_Terminal (fst (Admit s now (mgr p)))) =
    spec_admit (nat (ringCap (mgr p))) (settles p) (inflight (mgr p)) s"
proof -
  have inv: "pool_inv p" unfolding p_def by (rule run_inv [OF assms(1)])
  then have "s \<noteq> 0 \<Longrightarrow> s \<in> accepted (mgr p) \<or> s < low (mgr p) \<longleftrightarrow> s \<in> fst ` set (settles p)"
    by (simp add: pool_inv_def flip: settled_iff)
  moreover have "terminal (mgr p) = map_of (last_n (nat (ringCap (mgr p))) (settles p))"
    using inv by (simp add: pool_inv_def window_def)
  ultimately show ?thesis
    by (auto simp: Admit_def spec_admit_def inflight_iff split: option.split)
qed

lemmas mgr_eval = init_pool_def NewCreditManager_def Admit_def Grant_Consume_def Grant_Settle_def
  Grant_Accept_def Grant_Release_def releaseLocked_def force_lookup_def slot_corr_def
  record_terminal_def advanceLowLocked_def advance.simps effective_def inflight_def Let_def last_n_def

theorem Admit_refines_history_witness:
  "(let p = foldl mop_step (init_pool 4 100 2) [MAdmit 1 0, MConsume 0 7, MSettle 0 True 1 0 0 7] in
     fst (spec_admit (nat (ringCap (mgr p))) (settles p) (inflight (mgr p)) 1) = AdmitTerminalHit \<and>
     ar_Decision (fst (Admit 1 5 (mgr p))) = AdmitTerminalHit)"
proof -
  let ?ops = "[MAdmit 1 0, MConsume 0 7, MSettle 0 True 1 0 0 7]"
  let ?p = "foldl mop_step (init_pool 4 100 2) ?ops"
  have "fst (spec_admit (nat (ringCap (mgr ?p))) (settles ?p) (inflight (mgr ?p)) 1) = AdmitTerminalHit"
    by (simp add: mgr_eval spec_admit_def)
  moreover have "fst (ar_Decision (fst (Admit 1 5 (mgr ?p))), ar_Terminal (fst (Admit 1 5 (mgr ?p)))) =
      fst (spec_admit (nat (ringCap (mgr ?p))) (settles ?p) (inflight (mgr ?p)) 1)"
    by (rule arg_cong [where f = fst, OF Admit_refines_history]) simp
  ultimately show ?thesis unfolding Let_def by (simp only: fst_conv)
qed

text \<open>
  C28. \<open>low\<close> is the first gap. After any interleaving, \<open>low\<close> is the least sequence number that was
  never settled, and every settled number above it is held in \<open>accepted\<close>. So one number that is
  never settled (a sender that skips it) pins \<open>low\<close> and keeps every later number in the set.
\<close>

theorem low_is_first_gap:
  fixes b y :: i64 and cap :: int
  assumes "\<forall>op \<in> set ops. mop_ok op"
  defines "p \<equiv> foldl mop_step (init_pool b y cap) ops"
  shows "low (mgr p) \<noteq> 0 \<and> low (mgr p) \<notin> fst ` set (settles p) \<and>
    (\<forall>s. 0 < s \<and> s < low (mgr p) \<longrightarrow> s \<in> fst ` set (settles p)) \<and>
    (\<forall>s \<in> fst ` set (settles p). low (mgr p) < s \<longrightarrow> s \<in> accepted (mgr p))"
proof -
  have inv: "pool_inv p" unfolding p_def by (rule run_inv [OF assms(1)])
  then have st: "settled (mgr p) = insert 0 (fst ` set (settles p))"
    and low: "low (mgr p) \<notin> accepted (mgr p)" "0 < low (mgr p)"
    by (simp_all add: pool_inv_def mgr_inv_def)
  have nz: "low (mgr p) \<noteq> 0" using low(2) by (metis less_irrefl)
  have mem: "s \<in> fst ` set (settles p) \<longleftrightarrow> s \<in> accepted (mgr p) \<or> s < low (mgr p)" if "s \<noteq> 0" for s
    using settled_iff [of s "mgr p"] that by (simp add: st)
  have "s \<in> accepted (mgr p)" if "s \<in> fst ` set (settles p)" "low (mgr p) < s" for s
    using that mem [of s] by (metis less_asym word_not_simps(1))
  moreover have "s \<in> fst ` set (settles p)" if "0 < s \<and> s < low (mgr p)" for s
    using that mem [of s] by (metis less_irrefl)
  moreover have "low (mgr p) \<notin> fst ` set (settles p)" using low(1) mem [OF nz] by (metis less_irrefl)
  ultimately show ?thesis using nz by blast
qed

theorem low_is_first_gap_witness:
  "(let p = foldl mop_step (init_pool 4 100 2) [MAdmit 2 0, MConsume 0 7, MSettle 0 True 1 0 0 7] in
     low (mgr p) = 1 \<and> low (mgr p) \<notin> fst ` set (settles p) \<and> 2 \<in> accepted (mgr p))"
proof -
  let ?ops = "[MAdmit 2 0, MConsume 0 7, MSettle 0 True 1 0 0 7]"
  define p where "p = foldl mop_step (init_pool 4 100 2) ?ops"
  have l: "low (mgr p) = 1" and st: "2 \<in> fst ` set (settles p)" by (simp_all add: p_def mgr_eval)
  have "\<forall>op \<in> set ?ops. mop_ok op" by simp
  from low_is_first_gap [OF this, of 4 100 2]
  have g: "low (mgr p) \<notin> fst ` set (settles p)"
    "\<forall>s \<in> fst ` set (settles p). low (mgr p) < s \<longrightarrow> s \<in> accepted (mgr p)" unfolding p_def by blast+
  have "2 \<in> accepted (mgr p)" using bspec [OF g(2) st] l by simp
  with l g(1) show ?thesis unfolding p_def Let_def by blast
qed

section \<open>Each number is settled once while the ring remembers it\<close>

definition spaced :: "nat \<Rightarrow> (u64 \<times> 'e) list \<Rightarrow> bool" where
  "spaced c h \<longleftrightarrow> (\<forall>i j. i < j \<and> j < length h \<and> fst (h ! i) = fst (h ! j) \<longrightarrow> c < j - i)"

lemma spaced_snoc:
  assumes "spaced c h" "k \<notin> fst ` set (last_n c h)"
  shows "spaced c (h @ [(k, e)])"
  unfolding spaced_def
proof (intro allI impI)
  fix i j
  assume a: "i < j \<and> j < length (h @ [(k, e)]) \<and> fst ((h @ [(k, e)]) ! i) = fst ((h @ [(k, e)]) ! j)"
  show "c < j - i"
  proof (cases "j < length h")
    case True
    with a have "i < length h" "fst (h ! i) = fst (h ! j)" by (auto simp: nth_append)
    with a True assms(1) show ?thesis by (simp add: spaced_def)
  next
    case False
    with a have j: "j = length h" and k: "fst (h ! i) = k" and i: "i < length h" by (auto simp: nth_append)
    have "i < length h - c"
    proof (rule ccontr)
      assume "\<not> i < length h - c"
      then have "h ! i \<in> set (last_n c h)"
        using i nth_mem [of "i - (length h - c)" "last_n c h"] by (auto simp: last_n_def nth_drop)
      with k assms(2) show False by auto
    qed
    with j show ?thesis by simp
  qed
qed

lemma ringCap_kept [simp]:
  "ringCap (snd (Admit seq now m)) = ringCap m" "ringCap (snd (snd (Grant_Consume n g m))) = ringCap m"
  "ringCap (Grant_Backfill corr g m) = ringCap m" "ringCap (snd (Grant_Release g m)) = ringCap m"
  "ringCap (snd (TakeRecovered m)) = ringCap m"
  using same_history_steps by (simp_all add: same_history_def)

lemma ringCap_Settle [simp]: "ringCap (snd (snd (Grant_Settle send level code retry n g m))) = ringCap m"
  by (simp add: Grant_Settle_def Let_def record_terminal_def split: prod.split)

lemma ringCap_step: "ringCap (mgr (mop_step p op)) = ringCap (mgr p)"
  by (cases op) (simp_all add: case_prod_beta)

lemma spaced_step:
  assumes inv: "pool_inv p" and sp: "spaced (nat (ringCap (mgr p))) (settles p)"
  shows "spaced (nat (ringCap (mgr p))) (settles (mop_step p op))"
proof (cases "\<exists>i send level code retry n. op = MSettle i send level code retry n \<and> effective (grants p ! i) (mgr p)")
  case True
  then obtain i send level code retry n
    where op: "op = MSettle i send level code retry n" and eff: "effective (grants p ! i) (mgr p)" by blast
  have "mgr_inv (mgr p)" using inv by (simp add: pool_inv_def)
  from ring_terminal_None [OF this eff] inv
  have "g_seq (grants p ! i) \<notin> fst ` set (last_n (nat (ringCap (mgr p))) (settles p))"
    by (simp add: pool_inv_def window_def map_of_eq_None_iff)
  with spaced_snoc [OF sp] sp show ?thesis by (simp add: op eff case_prod_beta)
next
  case False
  with sp show ?thesis by (cases op) (simp_all add: case_prod_beta)
qed

lemma spaced_run:
  assumes "pool_inv p" "spaced (nat (ringCap (mgr p))) (settles p)" "\<forall>op \<in> set ops. mop_ok op"
  shows "spaced (nat (ringCap (mgr p))) (settles (foldl mop_step p ops))"
  using assms
proof (induction ops arbitrary: p)
  case (Cons op ops)
  then show ?case
    using Cons.IH [of "mop_step p op"] by (simp add: pool_inv_step spaced_step ringCap_step)
qed simp


definition late_settle :: "mop list" where
  "late_settle =
     [MAdmit 1 0, MConsume 0 10, MForce 1 True 0, MSettle 0 True RESULT_LEVEL_DURABLE 0 0 10,
      MAdmit 2 1, MConsume 2 10, MSettle 2 True RESULT_LEVEL_DURABLE 0 0 10,
      MSettle 1 True RESULT_LEVEL_REJECTED 9 0 10]"

text \<open>
  Beyond the ring the protection ends. With a ring of one entry, a number settled by one grant
  while a second grant for it exists (the sink's and the reaper's) is settled a second time once
  another number evicted its outcome: two RESULT frames, the second with another level, and its
  batch credit recovered twice, three recovered for two consumed.
\<close>

theorem late_settle_recovers_twice:
  "map fst (settles (foldl mop_step (init_pool 4 100 1) late_settle)) = [1, 2, 1] \<and>
   map r_Level (filter (\<lambda>r. r_RefSeq r = 1) (frames (foldl mop_step (init_pool 4 100 1) late_settle))) =
     [RESULT_LEVEL_DURABLE, RESULT_LEVEL_REJECTED] \<and>
   recoveredB (mgr (foldl mop_step (init_pool 4 100 1) late_settle)) = 3 \<and>
   outstandingB (mgr (foldl mop_step (init_pool 4 100 1) late_settle)) = 2"
  by (simp add: mgr_eval late_settle_def)


end
