(* ===== verification/Auth.thy ===== *)
theory Auth
  imports Keys "HOL-Library.Char_ord" "HOL-Library.List_Lexorder"
begin

text \<open>
  Token authentication, \<open>core/auth.go\<close>: the validator interface as a locale, the in-memory validator that implements it,
  and the verification of a token proof against the tokens registered for an agent.
\<close>

section \<open>The validator interface\<close>

text \<open>
  The interface \<open>TokenValidator\<close>: \<open>ResolveToken\<close> and \<open>Validate\<close>. The law is what makes the two lookups one
  registration: a token is a candidate of an agent exactly when it validates as that agent.
\<close>

fun verify_loop :: "crypto \<Rightarrow> Profile \<Rightarrow> bytes \<Rightarrow> bytes \<Rightarrow> string list \<Rightarrow> go_err option" where
  "verify_loop cr p thHello proof [] = Some (NewError ErrCodeHelloProofInvalid ''token proof mismatch'')"
| "verify_loop cr p thHello proof (tok # cands) =
    (if TokenProof cr p tok thHello = proof then None else verify_loop cr p thHello proof cands)"

definition VerifyTokenProof :: "crypto \<Rightarrow> (string \<Rightarrow> string list res) \<Rightarrow> Profile \<Rightarrow> string \<Rightarrow> bytes \<Rightarrow> bytes \<Rightarrow> go_err option" where
  "VerifyTokenProof cr ResolveToken p agentID thHello proof =
    (case ResolveToken agentID of
       Inl e \<Rightarrow> Some (WrapError ErrCodeInternal ''resolve token'' e)
     | Inr cands \<Rightarrow> verify_loop cr p thHello proof cands)"

lemma verify_loop_iff:
  "verify_loop cr p th proof cands = None \<longleftrightarrow> (\<exists>tok \<in> set cands. TokenProof cr p tok th = proof)"
  by (induction cands) auto

locale token_validator =
  fixes resolve_token :: "string \<Rightarrow> string list res"
    and validate_token :: "string \<Rightarrow> string res"
  assumes registered_once: "resolve_token ag = Inr ts \<Longrightarrow> t \<in> set ts \<longleftrightarrow> validate_token t = Inr ag"
begin

lemma proof_accepted_iff:
  assumes "resolve_token ag = Inr ts"
  shows "VerifyTokenProof cr resolve_token p ag th proof = None \<longleftrightarrow>
    (\<exists>tok. validate_token tok = Inr ag \<and> TokenProof cr p tok th = proof)"
  using registered_once [OF assms] by (auto simp: VerifyTokenProof_def assms verify_loop_iff)

lemma token_of_one_agent:
  assumes "resolve_token a = Inr ts" "resolve_token b = Inr us" "t \<in> set ts" "t \<in> set us"
  shows "a = b"
  using registered_once [OF assms(1), of t] registered_once [OF assms(2), of t] assms(3,4) by simp

end

section \<open>The static validator\<close>

record StaticTokenValidator =
  tokenToAg :: "string \<rightharpoonup> string"
  agToTok :: "string \<rightharpoonup> string list"

text \<open>The input is a Go map: the list of its entries, with distinct tokens, in the order \<open>range\<close> visits them.\<close>

fun register_tokens :: "(string \<times> string) list \<Rightarrow> string list \<Rightarrow> StaticTokenValidator \<Rightarrow> StaticTokenValidator" where
  "register_tokens tokens [] v = v"
| "register_tokens tokens (t # ts) v =
    (let ag = (case map_of tokens t of Some ag \<Rightarrow> ag | None \<Rightarrow> []);
         seen = (case agToTok v ag of Some l \<Rightarrow> l | None \<Rightarrow> [])
     in register_tokens tokens ts (v\<lparr>tokenToAg := (tokenToAg v)(t \<mapsto> ag), agToTok := (agToTok v)(ag \<mapsto> seen @ [t])\<rparr>))"

definition NewStaticTokenValidator :: "(string \<times> string) list \<Rightarrow> StaticTokenValidator" where
  "NewStaticTokenValidator tokens =
    register_tokens tokens (sort (map fst tokens)) \<lparr>tokenToAg = Map.empty, agToTok = Map.empty\<rparr>"

definition ResolveToken :: "StaticTokenValidator \<Rightarrow> string \<Rightarrow> string list res" where
  "ResolveToken v agentID = Inr (case agToTok v agentID of Some l \<Rightarrow> l | None \<Rightarrow> [])"

definition Token_Validate :: "StaticTokenValidator \<Rightarrow> string \<Rightarrow> string res" where
  "Token_Validate v token =
    (case tokenToAg v token of None \<Rightarrow> Inl (NewError ErrCodeAuthFailed ''unknown token'') | Some ag \<Rightarrow> Inr ag)"

abbreviation tokens_of :: "StaticTokenValidator \<Rightarrow> string \<Rightarrow> string list" where
  "tokens_of v ag \<equiv> (case agToTok v ag of Some l \<Rightarrow> l | None \<Rightarrow> [])"

lemma register_tokens_candidates:
  assumes "set ts \<subseteq> dom (map_of tokens)"
  shows "tokens_of (register_tokens tokens ts v) ag = tokens_of v ag @ filter (\<lambda>t. map_of tokens t = Some ag) ts"
  using assms by (induction ts arbitrary: v) (auto simp: Let_def)

lemma register_tokens_owner:
  assumes "set ts \<subseteq> dom (map_of tokens)"
  shows "tokenToAg (register_tokens tokens ts v) t = (if t \<in> set ts then map_of tokens t else tokenToAg v t)"
  using assms by (induction ts arbitrary: v) (auto simp: Let_def)

lemma new_validator:
  "ResolveToken (NewStaticTokenValidator tokens) ag = Inr (filter (\<lambda>t. map_of tokens t = Some ag) (sort (map fst tokens)))"
  "Token_Validate (NewStaticTokenValidator tokens) t =
     (case map_of tokens t of None \<Rightarrow> Inl (NewError ErrCodeAuthFailed ''unknown token'') | Some ag \<Rightarrow> Inr ag)"
proof -
  have d: "set (sort (map fst tokens)) \<subseteq> dom (map_of tokens)" by (simp add: dom_map_of_conv_image_fst)
  show "ResolveToken (NewStaticTokenValidator tokens) ag = Inr (filter (\<lambda>t. map_of tokens t = Some ag) (sort (map fst tokens)))"
    using register_tokens_candidates [OF d] by (simp add: ResolveToken_def NewStaticTokenValidator_def)
  show "Token_Validate (NewStaticTokenValidator tokens) t =
     (case map_of tokens t of None \<Rightarrow> Inl (NewError ErrCodeAuthFailed ''unknown token'') | Some ag \<Rightarrow> Inr ag)"
    using register_tokens_owner [OF d] dom_map_of_conv_image_fst [of tokens]
    by (auto simp: Token_Validate_def NewStaticTokenValidator_def split: option.splits)
qed

interpretation static: token_validator
  "ResolveToken (NewStaticTokenValidator tokens)" "Token_Validate (NewStaticTokenValidator tokens)" for tokens
proof
  fix ag ts t
  assume "ResolveToken (NewStaticTokenValidator tokens) ag = Inr ts"
  then have "t \<in> set ts \<longleftrightarrow> map_of tokens t = Some ag"
    by (auto simp: new_validator dom_map_of_conv_image_fst [symmetric])
  then show "t \<in> set ts \<longleftrightarrow> Token_Validate (NewStaticTokenValidator tokens) t = Inr ag"
    by (auto simp: new_validator split: option.splits)
qed

text \<open>
  C37. A token proof is accepted exactly when some token registered for the claimed agent produces it, whatever the order of
  the input map; the candidates of an agent are tried in lexicographic order, and a token never authenticates two agents.
\<close>

theorem VerifyTokenProof_iff:
  fixes tokens :: "(string \<times> string) list"
  defines "v \<equiv> NewStaticTokenValidator tokens"
  shows "(VerifyTokenProof cr (ResolveToken v) p ag th proof = None \<longleftrightarrow>
      (\<exists>tok. map_of tokens tok = Some ag \<and> TokenProof cr p tok th = proof)) \<and>
    (\<exists>ts. ResolveToken v ag = Inr ts \<and> sorted ts \<and> set ts = {t. Token_Validate v t = Inr ag}) \<and>
    \<not> (\<exists>t ts us b. ResolveToken v ag = Inr ts \<and> ResolveToken v b = Inr us \<and> b \<noteq> ag \<and> t \<in> set ts \<and> t \<in> set us)"
proof -
  obtain ts where ts: "ResolveToken v ag = Inr ts" and f: "ts = filter (\<lambda>t. map_of tokens t = Some ag) (sort (map fst tokens))"
    by (simp add: v_def new_validator)
  have val: "Token_Validate v tok = Inr ag \<longleftrightarrow> map_of tokens tok = Some ag" for tok
    by (auto simp: v_def new_validator split: option.splits)
  have "VerifyTokenProof cr (ResolveToken v) p ag th proof = None \<longleftrightarrow>
      (\<exists>tok. map_of tokens tok = Some ag \<and> TokenProof cr p tok th = proof)"
    using static.proof_accepted_iff [of tokens ag ts cr p th] ts val unfolding v_def by simp
  moreover have "sorted ts" by (simp add: f sorted_filter [where f = id, simplified])
  moreover have "set ts = {t. Token_Validate v t = Inr ag}"
    using static.registered_once [of tokens ag ts] ts unfolding v_def by auto
  moreover have "a = b" if "ResolveToken v a = Inr us" "ResolveToken v b = Inr ws" "t \<in> set us" "t \<in> set ws" for a b us ws t
    using static.token_of_one_agent that unfolding v_def by blast
  ultimately show ?thesis using ts by metis
qed

end
