(* ===== verification/Commands.thy ===== *)
theory Commands
  imports Messages
begin

text \<open>
  The operations command channel, \<open>internal/protocol/command_registry.go\<close>: routing by agent id, and the wait for the
  acknowledgement of a command. A connection handler is the number of its object; a channel of capacity one is a cell of a heap
  holding what was sent on it and whether it was closed. \<open>SendCommand\<close> blocks between issuing the command and its outcome, so
  it is two steps, and any other operation may run between them.
\<close>

section \<open>Data\<close>

definition COMMAND_ACK_CODE_APPLIED :: u32 where "COMMAND_ACK_CODE_APPLIED = 1"
definition COMMAND_ACK_CODE_ACCEPTED :: u32 where "COMMAND_ACK_CODE_ACCEPTED = 2"
definition COMMAND_ACK_CODE_REJECTED :: u32 where "COMMAND_ACK_CODE_REJECTED = 3"
definition COMMAND_ACK_CODE_FAILED :: u32 where "COMMAND_ACK_CODE_FAILED = 4"

lemmas ack_code_defs [simp] = COMMAND_ACK_CODE_APPLIED_def COMMAND_ACK_CODE_ACCEPTED_def COMMAND_ACK_CODE_REJECTED_def
  COMMAND_ACK_CODE_FAILED_def

record ControlCommand =
  cc_CommandId :: string
  cc_Type :: u32
  cc_Payload :: bytes
  cc_IssuedAtUnix :: i64

record ControlCommandAck =
  ca_CommandId :: string
  ca_Code :: u32
  ca_Message :: string

record chan =
  buffered :: "ControlCommandAck option"
  closed :: bool

record CommandRegistry =
  byAgent :: "string \<rightharpoonup> nat"
  pending :: "string \<rightharpoonup> nat"
  chans :: "chan list"

definition ErrAgentNotConnected :: go_err where "ErrAgentNotConnected = OtherErr ''agent not connected'' None"
definition ErrAgentNoCapability :: go_err where
  "ErrAgentNoCapability = OtherErr ''agent did not negotiate control_commands'' None"
definition ErrCommandTimeout :: go_err where "ErrCommandTimeout = OtherErr ''command ack timeout'' None"
definition ErrCommandRejected :: go_err where "ErrCommandRejected = OtherErr ''command rejected by agent'' None"
definition ErrCommandFailed :: go_err where "ErrCommandFailed = OtherErr ''command failed on agent'' None"

lemmas command_errors = ErrAgentNotConnected_def ErrAgentNoCapability_def ErrCommandTimeout_def ErrCommandRejected_def
  ErrCommandFailed_def

section \<open>Operations\<close>

definition NewCommandRegistry :: CommandRegistry where
  "NewCommandRegistry = \<lparr>byAgent = Map.empty, pending = Map.empty, chans = []\<rparr>"

definition Registry_register :: "string \<Rightarrow> nat \<Rightarrow> CommandRegistry \<Rightarrow> CommandRegistry" where
  "Registry_register agentID h r = (if agentID = [] then r else r\<lparr>byAgent := (byAgent r)(agentID \<mapsto> h)\<rparr>)"

definition Registry_unregister :: "string \<Rightarrow> nat \<Rightarrow> CommandRegistry \<Rightarrow> CommandRegistry" where
  "Registry_unregister agentID h r =
    (if agentID = [] then r
     else if byAgent r agentID = Some h then r\<lparr>byAgent := (byAgent r)(agentID := None)\<rparr> else r)"

definition Registry_get :: "CommandRegistry \<Rightarrow> string \<Rightarrow> nat option" where
  "Registry_get r agentID = byAgent r agentID"

text \<open>\<open>ch <- ack\<close> blocks on a full buffer and panics on a closed channel; then \<open>close\<close>. \<open>None\<close> stands for both failures.\<close>

definition chan_send_close :: "nat \<Rightarrow> ControlCommandAck \<Rightarrow> chan list \<Rightarrow> chan list option" where
  "chan_send_close ch ack cs =
    (if ch < length cs \<and> buffered (cs ! ch) = None \<and> \<not> closed (cs ! ch)
     then Some (cs[ch := \<lparr>buffered = Some ack, closed = True\<rparr>]) else None)"

definition Registry_resolve :: "ControlCommandAck option \<Rightarrow> CommandRegistry \<Rightarrow> CommandRegistry option" where
  "Registry_resolve ack' r =
    (case ack' of None \<Rightarrow> Some r | Some ack \<Rightarrow>
     if ca_CommandId ack = [] then Some r
     else case pending r (ca_CommandId ack) of
       None \<Rightarrow> Some r
     | Some ch \<Rightarrow> map_option (\<lambda>cs. r\<lparr>pending := (pending r)(ca_CommandId ack := None), chans := cs\<rparr>)
         (chan_send_close ch ack (chans r)))"

text \<open>
  \<open>SendCommand\<close> up to the \<open>select\<close>. \<open>hasCap\<close> answers \<open>hasCapability\<close> of a handler, \<open>sent\<close> is the result of
  \<open>sendCommand\<close> on the handler found. On success the value is the channel waited on.
\<close>

definition SendCommand_issue :: "(nat \<Rightarrow> bool) \<Rightarrow> go_err option \<Rightarrow> string \<Rightarrow> ControlCommand option \<Rightarrow> CommandRegistry
    \<Rightarrow> nat res \<times> CommandRegistry" where
  "SendCommand_issue hasCap sent agentID cmd' r =
    (case cmd' of None \<Rightarrow> (Inl (OtherErr ''command_id is required (idempotency key)'' None), r) | Some cmd \<Rightarrow>
     if cc_CommandId cmd = [] then (Inl (OtherErr ''command_id is required (idempotency key)'' None), r)
     else case Registry_get r agentID of
       None \<Rightarrow> (Inl ErrAgentNotConnected, r)
     | Some h \<Rightarrow>
        if \<not> hasCap h then (Inl ErrAgentNoCapability, r)
        else
          let ch = length (chans r);
              r = r\<lparr>chans := chans r @ [\<lparr>buffered = None, closed = False\<rparr>], pending := (pending r)(cc_CommandId cmd \<mapsto> ch)\<rparr>
          in (case sent of
                Some e \<Rightarrow> (Inl e, r\<lparr>pending := (pending r)(cc_CommandId cmd := None)\<rparr>)
              | None \<Rightarrow> (Inr ch, r)))"

datatype wake = AckArrived | CtxDone go_err | TimerFired

text \<open>The \<open>select\<close> and the deferred removal. The acknowledgement branch is only ready when the channel holds one.\<close>

definition SendCommand_wait :: "nat \<Rightarrow> string \<Rightarrow> wake \<Rightarrow> CommandRegistry
    \<Rightarrow> (ControlCommandAck option \<times> go_err option) option \<times> CommandRegistry" where
  "SendCommand_wait ch cmdID ev r =
    (let r' = r\<lparr>pending := (pending r)(cmdID := None)\<rparr> in
     case ev of
       AckArrived \<Rightarrow>
        (case buffered (chans r ! ch) of
           None \<Rightarrow> (None, r)
         | Some ack \<Rightarrow>
            (Some (Some ack,
               if ca_Code ack = COMMAND_ACK_CODE_APPLIED \<or> ca_Code ack = COMMAND_ACK_CODE_ACCEPTED then None
               else if ca_Code ack = COMMAND_ACK_CODE_REJECTED then Some ErrCommandRejected
               else Some ErrCommandFailed), r'))
     | CtxDone e \<Rightarrow> (Some (None, Some e), r')
     | TimerFired \<Rightarrow> (Some (None, Some ErrCommandTimeout), r'))"

section \<open>Routing\<close>

datatype rop = RRegister string nat | RUnregister string nat

fun rop_step :: "CommandRegistry \<Rightarrow> rop \<Rightarrow> CommandRegistry" where
  "rop_step r (RRegister a h) = Registry_register a h r"
| "rop_step r (RUnregister a h) = Registry_unregister a h r"

text \<open>The specification: an agent is routed to the connection that registered last, unless that one has gone.\<close>

fun last_registered :: "string \<Rightarrow> nat option \<Rightarrow> rop list \<Rightarrow> nat option" where
  "last_registered a cur [] = cur"
| "last_registered a cur (RRegister b h # ops) = last_registered a (if b = a then Some h else cur) ops"
| "last_registered a cur (RUnregister b h # ops) =
    last_registered a (if b = a \<and> cur = Some h then None else cur) ops"

text \<open>
  C38. Under any order of connects and disconnects, commands for an agent go to the connection that registered last for as long as
  that connection is there: the late clean-up of a connection that was replaced never removes its successor.
\<close>

theorem routing_last_registered:
  assumes "a \<noteq> []"
  shows "Registry_get (foldl rop_step r ops) a = last_registered a (Registry_get r a) ops \<and>
    Registry_get (foldl rop_step r (ops @ [RRegister a old, RRegister a new, RUnregister a old])) a =
      (if old = new then None else Some new)"
proof -
  have spec: "Registry_get (foldl rop_step r ops) a = last_registered a (Registry_get r a) ops" for ops
  proof (induction ops arbitrary: r)
    case (Cons op ops)
    have "Registry_get (rop_step r op) a = last_registered a (Registry_get r a) [op]"
      using assms by (cases op) (auto simp: Registry_register_def Registry_unregister_def Registry_get_def)
    then show ?case by (cases op) (simp_all add: Cons.IH)
  qed simp
  have "last_registered a cur (xs @ [RRegister a old, RRegister a new, RUnregister a old]) =
      (if old = new then None else Some new)" for cur xs
  proof (induction xs arbitrary: cur)
    case (Cons op xs)
    then show ?case by (cases op) simp_all
  qed simp
  then show ?thesis by (simp only: spec)
qed

theorem routing_last_registered_witness:
  "Registry_get (foldl rop_step NewCommandRegistry [RRegister ''a'' 1, RRegister ''a'' 2, RUnregister ''a'' 1]) ''a'' = Some 2"
  using routing_last_registered [of "''a''" NewCommandRegistry "[]" 1 2] by simp

section \<open>Acknowledgements\<close>

datatype cop =
    CRoute rop
  | CIssue "nat \<Rightarrow> bool" "go_err option" string "ControlCommand option"
  | CResolve "ControlCommandAck option"
  | CWait nat string wake

fun cop_step :: "CommandRegistry \<Rightarrow> cop \<Rightarrow> CommandRegistry option" where
  "cop_step r (CRoute op) = Some (rop_step r op)"
| "cop_step r (CIssue hasCap sent a cmd) = Some (snd (SendCommand_issue hasCap sent a cmd r))"
| "cop_step r (CResolve ack) = Registry_resolve ack r"
| "cop_step r (CWait ch cmdID ev) = Some (snd (SendCommand_wait ch cmdID ev r))"

fun cop_run :: "CommandRegistry \<Rightarrow> cop list \<Rightarrow> CommandRegistry option" where
  "cop_run r [] = Some r"
| "cop_run r (op # ops) = (case cop_step r op of None \<Rightarrow> None | Some r' \<Rightarrow> cop_run r' ops)"

text \<open>Every pending channel is allocated, empty and open, and waited for under one command id only.\<close>

definition reg_inv :: "CommandRegistry \<Rightarrow> bool" where
  "reg_inv r \<longleftrightarrow> (\<forall>i ch. pending r i = Some ch \<longrightarrow> ch < length (chans r) \<and> chans r ! ch = \<lparr>buffered = None, closed = False\<rparr>) \<and>
     (\<forall>i j ch. pending r i = Some ch \<longrightarrow> pending r j = Some ch \<longrightarrow> i = j)"

lemma reg_invI:
  assumes "\<And>i ch. pending r i = Some ch \<Longrightarrow> ch < length (chans r) \<and> chans r ! ch = \<lparr>buffered = None, closed = False\<rparr>"
    and "\<And>i j ch. pending r i = Some ch \<Longrightarrow> pending r j = Some ch \<Longrightarrow> i = j"
  shows "reg_inv r"
  using assms unfolding reg_inv_def by blast

lemma reg_invD:
  assumes "reg_inv r" "pending r i = Some ch"
  shows "ch < length (chans r)" "chans r ! ch = \<lparr>buffered = None, closed = False\<rparr>" "pending r j = Some ch \<Longrightarrow> i = j"
  using assms unfolding reg_inv_def by blast+

lemma reg_inv_drop: "reg_inv r \<Longrightarrow> reg_inv (r\<lparr>pending := (pending r)(i := None)\<rparr>)"
  by (simp add: reg_inv_def)

lemma reg_inv_rop: "reg_inv r \<Longrightarrow> reg_inv (rop_step r op)"
  by (cases op) (simp_all add: reg_inv_def Registry_register_def Registry_unregister_def)

lemma reg_inv_issue_cell:
  assumes "reg_inv r"
  shows "reg_inv (r\<lparr>chans := chans r @ [\<lparr>buffered = None, closed = False\<rparr>], pending := (pending r)(i \<mapsto> length (chans r))\<rparr>)"
    (is "reg_inv ?r")
proof (rule reg_invI)
  fix j ch
  assume "pending ?r j = Some ch"
  then have "j = i \<and> ch = length (chans r) \<or> pending r j = Some ch" by (simp split: if_splits)
  then show "ch < length (chans ?r) \<and> chans ?r ! ch = \<lparr>buffered = None, closed = False\<rparr>"
    using reg_invD(1,2) [OF assms, of j ch] by (auto simp: nth_append)
next
  fix j k ch
  assume "pending ?r j = Some ch" "pending ?r k = Some ch"
  then show "j = k"
    using reg_invD(1) [OF assms, of j ch] reg_invD(1) [OF assms, of k ch] reg_invD(3) [OF assms, of j ch k]
    by (auto split: if_splits)
qed

lemma reg_inv_deliver:
  assumes "reg_inv r" "pending r i = Some ch"
  shows "reg_inv (r\<lparr>pending := (pending r)(i := None), chans := (chans r)[ch := c]\<rparr>)" (is "reg_inv ?r")
proof (rule reg_invI)
  fix j k
  assume j: "pending ?r j = Some k"
  then have "pending r j = Some k" "j \<noteq> i" by (simp_all split: if_splits)
  moreover from this have "k \<noteq> ch" using reg_invD(3) [OF assms(1), of j k i] assms(2) by auto
  ultimately show "k < length (chans ?r) \<and> chans ?r ! k = \<lparr>buffered = None, closed = False\<rparr>"
    using reg_invD(1,2) [OF assms(1), of j k] by simp
next
  fix j k l
  assume "pending ?r j = Some l" "pending ?r k = Some l"
  then show "j = k" using reg_invD(3) [OF assms(1), of j l k] by (simp split: if_splits)
qed

lemma reg_inv_resolve:
  assumes "reg_inv r"
  shows "\<exists>r'. Registry_resolve ack r = Some r' \<and> reg_inv r'"
proof (cases "\<exists>a ch. ack = Some a \<and> ca_CommandId a \<noteq> [] \<and> pending r (ca_CommandId a) = Some ch")
  case True
  then obtain a ch where a: "ack = Some a" "ca_CommandId a \<noteq> []" and ch: "pending r (ca_CommandId a) = Some ch" by blast
  then have "Registry_resolve ack r = Some (r\<lparr>pending := (pending r)(ca_CommandId a := None),
      chans := (chans r)[ch := \<lparr>buffered = Some a, closed = True\<rparr>]\<rparr>)"
    using reg_invD(1,2) [OF assms ch] by (simp add: Registry_resolve_def chan_send_close_def)
  then show ?thesis using reg_inv_deliver [OF assms ch] by simp
next
  case False
  then have "Registry_resolve ack r = Some r" by (auto simp: Registry_resolve_def split: option.splits)
  then show ?thesis using assms by simp
qed

lemma reg_inv_issue:
  assumes "reg_inv r"
  shows "reg_inv (snd (SendCommand_issue hasCap sent a cmd r))"
proof (cases "\<exists>c h. cmd = Some c \<and> cc_CommandId c \<noteq> [] \<and> Registry_get r a = Some h \<and> hasCap h")
  case True
  then obtain c h where c: "cmd = Some c" "cc_CommandId c \<noteq> []" "Registry_get r a = Some h" "hasCap h" by blast
  show ?thesis
  proof (cases sent)
    case None
    then show ?thesis using c reg_inv_issue_cell [OF assms] by (simp add: SendCommand_issue_def Let_def)
  next
    case (Some e)
    then show ?thesis using c reg_inv_drop [OF reg_inv_issue_cell [OF assms, of "cc_CommandId c"], of "cc_CommandId c"]
      by (simp add: SendCommand_issue_def Let_def)
  qed
next
  case False
  then show ?thesis using assms by (auto simp: SendCommand_issue_def split: option.splits)
qed

lemma reg_inv_step: "reg_inv r \<Longrightarrow> \<exists>r'. cop_step r op = Some r' \<and> reg_inv r'"
proof (cases op)
  case (CWait ch cmdID ev)
  assume "reg_inv r"
  then show ?thesis using CWait reg_inv_drop [of r cmdID]
    by (cases ev) (simp_all add: SendCommand_wait_def Let_def split: option.splits)
qed (simp_all add: reg_inv_rop reg_inv_resolve reg_inv_issue)

text \<open>
  Delivering an acknowledgement never blocks the control loop and never panics on a closed channel, whatever the interleaving of
  issuing, acknowledging and giving up, duplicate acknowledgements and reused command ids included: every channel still pending is
  empty and open.
\<close>

theorem resolve_never_blocks:
  "\<exists>r. cop_run NewCommandRegistry ops = Some r \<and> reg_inv r"
proof -
  have "reg_inv r \<Longrightarrow> \<exists>r'. cop_run r ops = Some r' \<and> reg_inv r'" for r
  proof (induction ops arbitrary: r)
    case (Cons op ops)
    then obtain r' where "cop_step r op = Some r'" "reg_inv r'" using reg_inv_step by blast
    then show ?case using Cons.IH by simp
  qed simp
  moreover have "reg_inv NewCommandRegistry" by (simp add: reg_inv_def NewCommandRegistry_def)
  ultimately show ?thesis by blast
qed

text \<open>
  A command id in use twice loses the second acknowledgement: the first sender's deferred removal deletes the entry of the second
  one, so that the agent's answer finds nobody waiting and the second sender runs into its timeout although the agent replied.
\<close>

theorem reused_command_id_loses_ack:
  assumes "Registry_get r a = Some h" "hasCap h" "i \<noteq> []" "cc_CommandId c1 = i" "cc_CommandId c2 = i" "ca_CommandId ack = i"
  shows "\<exists>r'. cop_run r [CIssue hasCap None a (Some c1), CIssue hasCap None a (Some c2), CWait (length (chans r)) i TimerFired,
      CResolve (Some ack)] = Some r' \<and> pending r' i = None \<and> buffered (chans r' ! Suc (length (chans r))) = None"
  using assms by (simp add: SendCommand_issue_def SendCommand_wait_def Registry_resolve_def Registry_get_def Let_def nth_append)

theorem reused_command_id_loses_ack_witness:
  "\<exists>r'. cop_run (Registry_register ''a'' 7 NewCommandRegistry)
      [CIssue (\<lambda>_. True) None ''a'' (Some \<lparr>cc_CommandId = ''x'', cc_Type = 1, cc_Payload = [], cc_IssuedAtUnix = 0\<rparr>),
       CIssue (\<lambda>_. True) None ''a'' (Some \<lparr>cc_CommandId = ''x'', cc_Type = 1, cc_Payload = [], cc_IssuedAtUnix = 1\<rparr>),
       CWait 0 ''x'' TimerFired, CResolve (Some \<lparr>ca_CommandId = ''x'', ca_Code = 1, ca_Message = []\<rparr>)] = Some r' \<and>
     pending r' ''x'' = None \<and> buffered (chans r' ! 1) = None"
  using reused_command_id_loses_ack [of "Registry_register ''a'' 7 NewCommandRegistry" "''a''" 7 "\<lambda>_. True" "''x''"
      "\<lparr>cc_CommandId = ''x'', cc_Type = 1, cc_Payload = [], cc_IssuedAtUnix = 0\<rparr>"
      "\<lparr>cc_CommandId = ''x'', cc_Type = 1, cc_Payload = [], cc_IssuedAtUnix = 1\<rparr>"
      "\<lparr>ca_CommandId = ''x'', ca_Code = 1, ca_Message = []\<rparr>"]
  by (simp add: Registry_register_def NewCommandRegistry_def Registry_get_def)

end
