(* ===== verification/Connection.thy ===== *)
theory Connection
  imports EnvelopeSeal Codecs Session Interleave Auth Commands
begin

text \<open>
  The state of one server connection, \<open>CoreHandler\<close> of \<open>internal/protocol/handler.go\<close>, and what every handler of it uses:
  the frames it sends, the transport (\<open>internal/protocol/transport.go\<close>), the shared epoch allocator and the sink types of
  \<open>core/sink.go\<close>. The protobuf library, the transport and the application's sink are parameters, fields of the
  record \<open>env\<close> and of the configuration. Frames handed to the transport are logged in order; the \<open>n\<close>-th answer of the transport may be
  any error. Grants are shared objects, so the connection keeps a heap of them; so are the \<open>done\<close> callbacks given to the sink.
\<close>

section \<open>Messages of the control channel\<close>

record Ping =
  pi_TimeUnixNs :: i64
  pi_Nonce :: bytes

record Pong =
  po_TimeUnixNs :: i64
  po_Nonce :: bytes
  po_Status :: string

record Close =
  cl_Reason :: string
  cl_DrainTimeoutMs :: u32

datatype msg =
    MHelloAck HelloAck
  | MHelloNak HelloNak
  | MResult Result
  | MCredit Credits
  | MDict u32 bytes
  | MPong Pong
  | MRedirect string string
  | MAbort u32 string
  | MCommand ControlCommand

fun msg_type :: "msg \<Rightarrow> byte" where
  "msg_type (MHelloAck _) = TypeHelloAck"
| "msg_type (MHelloNak _) = TypeHelloNak"
| "msg_type (MResult _) = TypeResult"
| "msg_type (MCredit _) = TypeCredit"
| "msg_type (MDict _ _) = TypeDict"
| "msg_type (MPong _) = TypePong"
| "msg_type (MRedirect _ _) = TypeRedirect"
| "msg_type (MAbort _ _) = TypeAbort"
| "msg_type (MCommand _) = TypeCommand"

record env =
  e_crypto :: crypto
  e_codecs :: codecs
  e_signal_codecs :: codec_registry
  e_encode :: "msg \<Rightarrow> bytes res"
  e_send :: "nat \<Rightarrow> byte \<Rightarrow> bytes \<Rightarrow> go_err option"
  e_dec_hello :: "bytes \<Rightarrow> Hello res"
  e_dec_envelope :: "bytes \<Rightarrow> Envelope res"
  e_dec_batch :: "bytes \<Rightarrow> Batch res"
  e_dec_ping :: "bytes \<Rightarrow> Ping res"
  e_dec_close :: "bytes \<Rightarrow> Close res"
  e_dec_ack :: "bytes \<Rightarrow> ControlCommandAck res"
  e_refill :: "time \<Rightarrow> i64 \<Rightarrow> i64" \<comment> \<open>the float product of the token bucket\<close>

section \<open>Sinks\<close>

record BatchEvent =
  ev_Agent :: string
  ev_Seq :: u64
  ev_Correlation :: string
  ev_EventsCount :: u32
  ev_ReceivedAt :: time
  ev_Trace :: "TraceContext option"
  ev_Decoded :: "SignalBatch option"
  ev_Raw :: "bytes option"

datatype OutcomeLevel = OutcomeAccepted | OutcomeDurable | OutcomeRejected | OutcomeReleased | OutcomeOther int

record Outcome =
  oc_Level :: OutcomeLevel
  oc_Code :: u32
  oc_RetryAfter :: time

text \<open>
  What the application's handler does with one event: the outcomes it reports before its deadline, those it reports afterwards (none if
  it returned in time), and whether it panics.
\<close>

record sink_run =
  run_early :: "Outcome list"
  run_late :: "Outcome list option"
  run_panic :: bool

type_synonym BatchHandler = "BatchEvent \<Rightarrow> sink_run"

text \<open>A \<open>done\<close> callback: its grant, whether the session is durable, and its \<open>sync.Once\<close>.\<close>

record done_fn =
  dn_grant :: nat
  dn_durable :: bool
  dn_fired :: bool

record sinkTask =
  st_ev :: BatchEvent
  st_done :: nat
  st_bytes :: i64
  st_deadline :: time

section \<open>Configuration and connection\<close>

record RedirectInfo =
  ri_LeaderAddr :: string
  ri_LeaderID :: string

datatype SessionEventType = SessionConnected | SessionDisconnected

record SessionEvent =
  se_Type :: SessionEventType
  se_AgentID :: string
  se_SessionID :: bytes

text \<open>\<open>hc_RedirectChecker\<close> is the checker's answer, \<open>None\<close> when there is no checker.\<close>

record HandlerConfig =
  hc_ResolveToken :: "string \<Rightarrow> string list res"
  hc_Policy :: ServerPolicy
  hc_RedirectChecker :: "RedirectInfo option option"
  hc_OnSession :: bool
  hc_SinkRaw :: bool
  hc_SinkHandler :: "BatchHandler option"
  hc_SinkDeadline :: time
  hc_SinkQueueSize :: int
  hc_SinkQueueMaxBytes :: i64
  hc_Zdict :: "ZstdDictCodec option"
  hc_Commands :: bool

record CoreHandler =
  ch_config :: HandlerConfig
  ch_sm :: ServerMachine
  ch_agentID :: string
  ch_sessionID :: bytes
  ch_authed :: bool
  ch_expiresAt :: i64
  ch_keys :: "SessionKeys option"
  ch_negCaps :: "string list option"
  ch_codec :: "Codec option"
  ch_credit :: CreditManager
  ch_grants :: "SettleGrant list"
  ch_flushArmed :: bool
  ch_dgramRate :: i64
  ch_dgramAvail :: i64
  ch_dgramLast :: "time option"
  ch_epoch :: u64
  ch_sinkQueue :: "sinkTask list option"
  ch_sinkCap :: nat
  ch_sinkDone :: bool
  ch_sinkQueuedBytes :: i64
  ch_sinkMaxBytes :: i64
  ch_sinkDeadline :: time
  ch_dones :: "done_fn list"
  ch_closeTimeout :: time
  ch_dataStarted :: bool
  ch_sent :: "msg list"
  ch_closed :: bool
  ch_events :: "SessionEvent list"

section \<open>Epochs\<close>

text \<open>A Go map read at an absent key gives the zero value, so the allocator is a total function.\<close>

type_synonym EpochAllocator = "string \<Rightarrow> u64"

definition Epoch_Next :: "string \<Rightarrow> EpochAllocator \<Rightarrow> u64 \<times> EpochAllocator" where
  "Epoch_Next agentID e = (let n = e agentID + 1 in (n, e(agentID := n)))"

fun epochs_issued :: "EpochAllocator \<Rightarrow> string list \<Rightarrow> (string \<times> u64) list" where
  "epochs_issued e [] = []"
| "epochs_issued e (a # as) = (let (n, e') = Epoch_Next a e in (a, n) # epochs_issued e' as)"

text \<open>
  The epochs an agent is given over any sequence of connections, other agents' connections interleaved, are 1, 2, 3 and so on:
  strictly increasing, never repeated, never 0.
\<close>

theorem epochs_strictly_increase:
  assumes "length as < 2 ^ 64"
  shows "map unat (map snd (filter (\<lambda>(a, n). a = ag) (epochs_issued (\<lambda>_. 0) as))) = [1..<Suc (length (filter (\<lambda>a. a = ag) as))]"
proof -
  have "map unat (map snd (filter (\<lambda>(a, n). a = ag) (epochs_issued e as))) =
      [Suc (unat (e ag))..<Suc (unat (e ag) + length (filter (\<lambda>a. a = ag) as))]"
    if "unat (e ag) + length as < 2 ^ 64" for e
    using that
  proof (induction as arbitrary: e)
    case (Cons a as)
    let ?e = "e(a := e a + 1)"
    have u: "unat (e ag + 1) = Suc (unat (e ag))" using Cons.prems by (simp add: unat_word_ariths)
    show ?case
    proof (cases "a = ag")
      case True
      then have "unat (?e ag) + length as < 2 ^ 64" using Cons.prems u by simp
      from Cons.IH [of ?e, OF this] show ?thesis using True u
        by (simp add: Epoch_Next_def Let_def upt_conv_Cons fun_upd_same del: upt_Suc fun_upd_apply)
    next
      case False
      then have "unat (?e ag) + length as < 2 ^ 64" using Cons.prems by simp
      from Cons.IH [of ?e, OF this] show ?thesis using False
        by (simp add: Epoch_Next_def Let_def fun_upd_other del: upt_Suc fun_upd_apply)
    qed
  qed simp
  from this [of "\<lambda>_. 0"] show ?thesis using assms by (simp del: upt_Suc)
qed

theorem epochs_strictly_increase_witness:
  "map unat (map snd (filter (\<lambda>(a, n). a = ''x'') (epochs_issued (\<lambda>_. 0) [''x'', ''y'', ''x'']))) = [1, 2]"
  using epochs_strictly_increase [of "[''x'', ''y'', ''x'']" "''x''"] by (simp add: upt_rec)

section \<open>Sending\<close>

definition SendControlFrame :: "env \<Rightarrow> msg \<Rightarrow> bytes \<Rightarrow> CoreHandler \<Rightarrow> go_err option \<times> CoreHandler" where
  "SendControlFrame E m payload h =
    (if MaxFrameBytes < of_nat (length payload) then
       (Some (NewError ErrCodeProtocolError ''control frame payload exceeds max''), h)
     else (e_send E (length (ch_sent h)) (msg_type m) payload, h\<lparr>ch_sent := ch_sent h @ [m]\<rparr>))"

text \<open>Encode and send, giving up silently: the common shape of the senders that only log a failure.\<close>

definition post :: "env \<Rightarrow> msg \<Rightarrow> CoreHandler \<Rightarrow> CoreHandler" where
  "post E m h = (case e_encode E m of Inl _ \<Rightarrow> h | Inr p \<Rightarrow> snd (SendControlFrame E m p h))"

definition sendable :: "env \<Rightarrow> msg \<Rightarrow> bool" where
  "sendable E m \<longleftrightarrow> (\<exists>p. e_encode E m = Inr p \<and> \<not> MaxFrameBytes < of_nat (length p))"

lemma post_eq: "post E m h = (if sendable E m then h\<lparr>ch_sent := ch_sent h @ [m]\<rparr> else h)"
  by (auto simp: post_def sendable_def SendControlFrame_def split: sum.splits)

end
