(* ===== verification/Handshake.thy ===== *)
theory Handshake
  imports Connection
begin

text \<open>
  The control side of a server connection, \<open>internal/protocol/handler.go\<close>: the one-round handshake with its refusals, the
  frames of the control loop, and the end of the connection. Random key material, the session id and the clock are arguments (\<open>tick\<close>). State
  shared between connections (epochs, command registry) is passed beside the handler.
\<close>

section \<open>Operations\<close>

definition maxDrainTimeout :: time where "maxDrainTimeout = 30 * 10 ^ 9"
definition minDrainTimeout :: time where "minDrainTimeout = 1 * 10 ^ 9"
definition DefaultSessionTTL :: time where "DefaultSessionTTL = 24 * 3600 * 10 ^ 9"
definition DefaultSinkDeadline :: time where "DefaultSinkDeadline = 60 * 10 ^ 9"
definition defaultSinkQueueSize :: nat where "defaultSinkQueueSize = 256"
definition defaultSinkQueueMaxBytes :: i64 where "defaultSinkQueueMaxBytes = push_bit 20 32"

record tick =
  tk_now :: time
  tk_rnd :: "bytes res"
  tk_sid :: bytes

record Shared =
  sh_epochs :: EpochAllocator
  sh_commands :: CommandRegistry

text \<open>\<open>time.Time.Unix\<close>.\<close>

definition Unix :: "time \<Rightarrow> i64" where
  "Unix t = word_of_int (t div 10 ^ 9)"

definition initSinkQueue :: "CoreHandler \<Rightarrow> CoreHandler" where
  "initSinkQueue h =
    (let c = ch_config h in
     if hc_SinkHandler c = None then h
     else
       let size = (if hc_SinkQueueSize c = 0 then int defaultSinkQueueSize else hc_SinkQueueSize c) in
       if size < 0 then h
       else h\<lparr>ch_sinkQueue := Some [], ch_sinkCap := nat size,
         ch_sinkMaxBytes := (if hc_SinkQueueMaxBytes c = 0 then defaultSinkQueueMaxBytes
           else if sint (hc_SinkQueueMaxBytes c) < 0 then MaxInt64 else hc_SinkQueueMaxBytes c)\<rparr>)"

text \<open>
  \<open>NewCoreHandler\<close>. The dictionary registry is the package variable of \<open>core/envelope.go\<close>; a dictionary that fails to register
  leaves the codec unset. The semaphore sizes only bound concurrency and are arguments of the data loop.
\<close>

definition NewCoreHandler :: "env \<Rightarrow> (u32 \<Rightarrow> bytes \<Rightarrow> go_err option) \<Rightarrow> HandlerConfig \<Rightarrow> zstdDictRegistry
    \<Rightarrow> CoreHandler \<times> zstdDictRegistry" where
  "NewCoreHandler E mkdec cfg reg =
    (let p = hc_Policy cfg;
         (zdict, reg) =
           (if 0 < length (sp_ZstdDict p) \<and> sp_ZstdDictID p \<noteq> 0 then
              (case RegisterZstdDict (e_crypto E) mkdec (sp_ZstdDictID p) (sp_ZstdDict p) reg of
                 (Inl _, reg') \<Rightarrow> (None, reg') | (Inr zc, reg') \<Rightarrow> (Some zc, reg'))
            else (None, reg))
     in (initSinkQueue
       \<lparr>ch_config = cfg\<lparr>hc_Zdict := zdict\<rparr>, ch_sm = NewServerMachine, ch_agentID = [], ch_sessionID = [], ch_authed = False,
        ch_expiresAt = 0, ch_keys = None, ch_negCaps = None, ch_codec = None,
        ch_credit = NewCreditManager (sp_InitialCreditBatches p) (sp_InitialCreditBytes p) 256, ch_grants = [],
        ch_flushArmed = False, ch_dgramRate = sp_DatagramRateBytes p, ch_dgramAvail = 0, ch_dgramLast = None, ch_epoch = 0,
        ch_sinkQueue = None, ch_sinkCap = 0, ch_sinkDone = False, ch_sinkQueuedBytes = 0, ch_sinkMaxBytes = 0,
        ch_sinkDeadline = (if hc_SinkDeadline cfg = 0 then DefaultSinkDeadline else hc_SinkDeadline cfg),
        ch_dones = [], ch_closeTimeout = 0, ch_dataStarted = False, ch_sent = [], ch_closed = False, ch_events = []\<rparr>, reg))"

definition helloNakCode :: "go_err \<Rightarrow> u32" where
  "helloNakCode err =
    (if CodeNumOf (Some err) = CodeUnsupportedProfile \<or> CodeNumOf (Some err) = CodeHelloEphInvalid
     then CodeNumOf (Some err) else CodeBadHandshakeMessage)"

definition sendNak :: "env \<Rightarrow> u32 \<Rightarrow> bool \<Rightarrow> u32 \<Rightarrow> CoreHandler \<Rightarrow> CoreHandler" where
  "sendNak E code retryable retryMs h =
    post E (MHelloNak \<lparr>hn_Code = code, hn_Retryable = retryable, hn_RetryHintMs = retryMs\<rparr>) h"

definition ephPub :: "crypto \<Rightarrow> EphemeralKey \<Rightarrow> bytes" where
  "ephPub cr k = (case PubBytes cr k of Inl _ \<Rightarrow> [] | Inr pub \<Rightarrow> pub)"

definition deriveServerKeys :: "env \<Rightarrow> tick \<Rightarrow> Profile \<Rightarrow> bytes \<Rightarrow> bytes \<Rightarrow> bytes \<Rightarrow> string list \<Rightarrow> CoreHandler
    \<Rightarrow> (SessionKeys \<times> bytes) res \<times> CoreHandler" where
  "deriveServerKeys E tk profile clientEph thHello tokenProof caps h =
    (case GenerateEphemeral (e_crypto E) profile (tk_rnd tk) of
       Inl e \<Rightarrow> (Inl e, sendNak E CodeInternal False 0 h)
     | Inr (priv, _) \<Rightarrow>
     case DeriveZZ (e_crypto E) profile priv clientEph of
       Inl e \<Rightarrow> (Inl e, sendNak E CodeHelloEphInvalid False 0 h)
     | Inr zz \<Rightarrow>
     case DeriveSessionKeysWithCaps (e_crypto E) profile zz thHello tokenProof caps of
       Inl e \<Rightarrow> (Inl e, sendNak E CodeInternal False 0 h)
     | Inr keys \<Rightarrow> (Inr (keys, ephPub (e_crypto E) priv), h))"

definition maybeSendDict :: "env \<Rightarrow> string list \<Rightarrow> CoreHandler \<Rightarrow> go_err option \<times> CoreHandler" where
  "maybeSendDict E selected h =
    (let p = hc_Policy (ch_config h) in
     if CapZstdDict \<notin> set selected then (None, h)
     else if length (sp_ZstdDict p) = 0 \<or> sp_ZstdDictID p = 0 then (None, h)
     else let m = MDict (sp_ZstdDictID p) (sp_ZstdDict p) in
       case e_encode E m of
         Inl e \<Rightarrow> (Some (WrapError ErrCodeInternal ''encode dict'' e), h)
       | Inr payload \<Rightarrow>
           (case SendControlFrame E m payload h of
              (Some e, h) \<Rightarrow> (Some (WrapError ErrCodeProtocolError ''write dict'' e), h)
            | (None, h) \<Rightarrow> (None, h)))"

definition hasCapability :: "CoreHandler \<Rightarrow> string \<Rightarrow> bool" where
  "hasCapability h capability = (case ch_negCaps h of None \<Rightarrow> False | Some caps \<Rightarrow> capability \<in> set caps)"

text \<open>The argument \<open>me\<close> is the handler's own object.\<close>

definition registerCommandChannel :: "nat \<Rightarrow> string \<Rightarrow> CoreHandler \<Rightarrow> CommandRegistry \<Rightarrow> CommandRegistry" where
  "registerCommandChannel me agentID h r =
    (if \<not> hc_Commands (ch_config h) then r
     else if \<not> hasCapability h CapControlCommands then r
     else Registry_register agentID me r)"

definition notify :: "SessionEventType \<Rightarrow> string \<Rightarrow> CoreHandler \<Rightarrow> CoreHandler" where
  "notify t agent h =
    (if hc_OnSession (ch_config h)
     then h\<lparr>ch_events := ch_events h @ [\<lparr>se_Type = t, se_AgentID = agent, se_SessionID = ch_sessionID h\<rparr>]\<rparr> else h)"

text \<open>The redirect at the end of a handshake: an invalid address is ignored, a valid one ends the connection.\<close>

definition maybeRedirect :: "env \<Rightarrow> CoreHandler \<Rightarrow> go_err option \<times> CoreHandler" where
  "maybeRedirect E h =
    (case hc_RedirectChecker (ch_config h) of
       Some (Some info) \<Rightarrow>
         if ValidateHostPort (ri_LeaderAddr info) = None then
           let m = MRedirect (ri_LeaderAddr info) (ri_LeaderID info);
               rp = (case e_encode E m of Inl _ \<Rightarrow> [] | Inr p \<Rightarrow> p)
           in (Some (NewError ErrCodeProtocolError ''client redirected''), snd (SendControlFrame E m rp h))
         else (None, h)
     | _ \<Rightarrow> (None, h))"

text \<open>The acknowledgement without its MAC.\<close>

definition helloAck :: "bytes \<Rightarrow> string list \<Rightarrow> CoreHandler \<Rightarrow> HelloAck" where
  "helloAck serverEph selected h =
    (let p = hc_Policy (ch_config h) in
     \<lparr>ha_SessionId = ch_sessionID h, ha_Epoch = ch_epoch h, ha_AckMode = sp_AckMode p, ha_SelectedCapabilities = selected,
      ha_Limits = Some \<lparr>lim_MaxFrameBytes = sp_MaxFrameBytes p, lim_MaxBatchBytes = sp_MaxBatchBytes p\<rparr>,
      ha_Credits = Some \<lparr>cr_Batches = sp_InitialCreditBatches p, cr_Bytes = sp_InitialCreditBytes p\<rparr>,
      ha_ServerEph = serverEph, ha_Finished = [], ha_ExpiryUnix = ch_expiresAt h\<rparr>)"

text \<open>The part of \<open>handleHello\<close> after the acknowledgement was written.\<close>

definition enterReady :: "env \<Rightarrow> nat \<Rightarrow> Hello \<Rightarrow> string list \<Rightarrow> CoreHandler \<times> Shared \<Rightarrow> go_err option \<times> CoreHandler \<times> Shared" where
  "enterReady E me hello selected = (\<lambda>(h, sh).
    case maybeSendDict E selected h of
      (Some e, h) \<Rightarrow> (Some e, h, sh)
    | (None, h) \<Rightarrow>
    case Server_Transition ServerStateReady (ch_sm h) of
      (Some e, _) \<Rightarrow> (Some (WrapError ErrCodeProtocolError ''transition READY'' e), h, sh)
    | (None, sm) \<Rightarrow>
      let h = h\<lparr>ch_sm := sm, ch_authed := True\<rparr>;
          sh = sh\<lparr>sh_commands := registerCommandChannel me (h_AgentId hello) h (sh_commands sh)\<rparr>;
          h = notify SessionConnected (h_AgentId hello) h
      in (case maybeRedirect E h of (r, h) \<Rightarrow> (r, h, sh)))"

text \<open>The part after the token proof was verified and the keys derived.\<close>

definition acknowledge :: "env \<Rightarrow> tick \<Rightarrow> nat \<Rightarrow> Hello \<Rightarrow> string list \<Rightarrow> SessionKeys \<Rightarrow> bytes \<Rightarrow> CoreHandler \<times> Shared
    \<Rightarrow> go_err option \<times> CoreHandler \<times> Shared" where
  "acknowledge E tk me hello selected keys serverEph = (\<lambda>(h, sh).
    let (epoch, epochs) = Epoch_Next (h_AgentId hello) (sh_epochs sh);
        sh = sh\<lparr>sh_epochs := epochs\<rparr>;
        h = h\<lparr>ch_keys := Some keys, ch_agentID := h_AgentId hello, ch_sessionID := tk_sid tk, ch_epoch := epoch,
              ch_expiresAt := Unix (tk_now tk + DefaultSessionTTL)\<rparr>;
        ack = helloAck serverEph selected h
    in case TranscriptFull (e_crypto E) (h_Profile hello) hello ack of
         Inl e \<Rightarrow> (Some e, sendNak E CodeInternal False 0 h, sh)
       | Inr thFull \<Rightarrow>
           let m = MHelloAck (ack\<lparr>ha_Finished := FinishedMAC (e_crypto E) keys thFull\<rparr>) in
           case e_encode E m of
             Inl e \<Rightarrow> (Some (WrapError ErrCodeInternal ''marshal hello_ack'' e), h, sh)
           | Inr payload \<Rightarrow>
               (case SendControlFrame E m payload h of
                  (Some e, h) \<Rightarrow> (Some (WrapError ErrCodeProtocolError ''write hello_ack'' e), h, sh)
                | (None, h) \<Rightarrow> enterReady E me hello selected (h, sh)))"

text \<open>The capabilities a HELLO ends up with: the negotiated ones, without the dictionary when none is configured.\<close>

definition selectedCaps :: "ServerPolicy \<Rightarrow> Hello \<Rightarrow> string list" where
  "selectedCaps policy hello =
    (let selected = Negotiate policy (h_Capabilities hello)
     in if length (sp_ZstdDict policy) = 0 then filter (\<lambda>c. c \<noteq> CapZstdDict) selected else selected)"

definition handleHello :: "env \<Rightarrow> tick \<Rightarrow> nat \<Rightarrow> bytes \<Rightarrow> CoreHandler \<times> Shared \<Rightarrow> go_err option \<times> CoreHandler \<times> Shared" where
  "handleHello E tk me payload = (\<lambda>(h, sh).
    case e_dec_hello E payload of
      Inl e \<Rightarrow> (Some (WrapError ErrCodeBadHandshake ''decode hello'' e), sendNak E CodeBadHandshakeMessage False 0 h, sh)
    | Inr hello \<Rightarrow>
    case ValidateHello (Some hello) of
      Some e \<Rightarrow> (Some e, sendNak E (helloNakCode e) False 0 h, sh)
    | None \<Rightarrow>
    let policy = hc_Policy (ch_config h) in
    if h_Profile hello \<noteq> sp_Profile policy then
      (Some (NewError ErrCodeUnsupportedProfile ''profile mismatch''), sendNak E CodeUnsupportedProfile False 0 h, sh)
    else
      let selected = selectedCaps policy hello;
          h = h\<lparr>ch_negCaps := Some selected, ch_codec := Some (CodecFor selected)\<rparr>
      in case TranscriptHello (e_crypto E) (h_Profile hello) hello of
           Inl e \<Rightarrow> (Some e, sendNak E CodeInternal False 0 h, sh)
         | Inr thHello \<Rightarrow>
           if VerifyTokenProof (e_crypto E) (hc_ResolveToken (ch_config h)) (h_Profile hello) (h_AgentId hello) thHello
                (h_TokenProof hello) \<noteq> None
           then (None, sendNak E CodeAuthFailed True 1000 h, sh)
           else case deriveServerKeys E tk (h_Profile hello) (h_ClientEph hello) thHello (h_TokenProof hello) selected h of
             (Inl e, h) \<Rightarrow> (Some e, h, sh)
           | (Inr (keys, serverEph), h) \<Rightarrow> acknowledge E tk me hello selected keys serverEph (h, sh))"

definition handlePing :: "env \<Rightarrow> bytes \<Rightarrow> CoreHandler \<Rightarrow> CoreHandler" where
  "handlePing E payload h =
    (case e_dec_ping E payload of Inl _ \<Rightarrow> h
     | Inr ping \<Rightarrow> post E (MPong \<lparr>po_TimeUnixNs = pi_TimeUnixNs ping, po_Nonce = pi_Nonce ping, po_Status = ''ok''\<rparr>) h)"

text \<open>A payload that does not decode leaves the message at its zero value.\<close>

definition handleClose :: "env \<Rightarrow> bytes \<Rightarrow> CoreHandler \<Rightarrow> CoreHandler" where
  "handleClose E payload h =
    (let t = (case e_dec_close E payload of Inl _ \<Rightarrow> 0 | Inr c \<Rightarrow> cl_DrainTimeoutMs c);
         h = (if 0 < t then
                let d = uint t * 10 ^ 6;
                    d = (if d > maxDrainTimeout then maxDrainTimeout else d);
                    d = (if d < minDrainTimeout then minDrainTimeout else d)
                in h\<lparr>ch_closeTimeout := d\<rparr>
              else h)
     in h\<lparr>ch_sm := snd (Server_Transition ServerStateDraining (ch_sm h))\<rparr>)"

definition resolveAck :: "CoreHandler \<Rightarrow> ControlCommandAck \<Rightarrow> CommandRegistry \<Rightarrow> CommandRegistry option" where
  "resolveAck h ack r = (if hc_Commands (ch_config h) then Registry_resolve (Some ack) r else Some r)"

definition sendCommand :: "env \<Rightarrow> ControlCommand \<Rightarrow> CoreHandler \<Rightarrow> go_err option \<times> CoreHandler" where
  "sendCommand E cmd h =
    (case e_encode E (MCommand cmd) of
       Inl e \<Rightarrow> (Some (WrapError ErrCodeInternal ''encode command'' e), h)
     | Inr payload \<Rightarrow> SendControlFrame E (MCommand cmd) payload h)"


section \<open>The control loop\<close>

text \<open>
  One round of the loop: go on, return from the loop, or (never, by \<open>resolve_never_blocks\<close>) get stuck delivering an acknowledgement. The
  received frames are the input, each with what the outside world supplies while it is handled; the end of the input is a read error.
\<close>

datatype loop = Continue | Return "go_err option" | Stuck

definition control_step :: "env \<Rightarrow> nat \<Rightarrow> byte \<times> bytes \<times> tick \<Rightarrow> CoreHandler \<times> Shared \<Rightarrow> loop \<times> CoreHandler \<times> Shared" where
  "control_step E me f = (\<lambda>(h, sh).
    case f of (ty, payload, tk) \<Rightarrow>
    if ty = TypeHello then
      (if ssm_state (ch_sm h) \<noteq> ServerStateHandshaking then
         (Return (Some (NewError ErrCodeBadHandshake ''HELLO after handshake'')), sendNak E CodeBadHandshakeMessage False 0 h, sh)
       else case handleHello E tk me payload (h, sh) of
         (Some e, h, sh) \<Rightarrow> (Return (Some e), h, sh)
       | (None, h, sh) \<Rightarrow>
           (Continue, if ssm_state (ch_sm h) = ServerStateReady then h\<lparr>ch_dataStarted := True\<rparr> else h, sh))
    else if ty = TypePing then (Continue, handlePing E payload h, sh)
    else if ty = TypeCommandAck then
      (case e_dec_ack E payload of
         Inl _ \<Rightarrow> (Continue, h, sh)
       | Inr ack \<Rightarrow> (case resolveAck h ack (sh_commands sh) of
           None \<Rightarrow> (Stuck, h, sh) | Some r \<Rightarrow> (Continue, h, sh\<lparr>sh_commands := r\<rparr>)))
    else if ty = TypeClose then (Return None, handleClose E payload h, sh)
    else if ty = TypeAbort then (Return None, h, sh)
    else (Continue, h, sh))"

fun controlLoop :: "env \<Rightarrow> nat \<Rightarrow> (byte \<times> bytes \<times> tick) list \<Rightarrow> CoreHandler \<times> Shared \<Rightarrow> loop \<times> CoreHandler \<times> Shared" where
  "controlLoop E me [] s =
    (Return (Some (WrapError ErrCodeProtocolError ''read control frame'' (OtherErr ''read'' None))), s)"
| "controlLoop E me (f # fs) s =
    (case control_step E me f s of (Continue, s) \<Rightarrow> controlLoop E me fs s | (r, s) \<Rightarrow> (r, s))"

section \<open>Authentication\<close>

text \<open>The peer has shown a proof made from a token of the agent this connection speaks for.\<close>

definition proven :: "env \<Rightarrow> CoreHandler \<Rightarrow> bool" where
  "proven E h \<longleftrightarrow> (\<exists>hello th.
     ValidateHello (Some hello) = None \<and> h_Profile hello = sp_Profile (hc_Policy (ch_config h)) \<and>
     h_AgentId hello = ch_agentID h \<and> TranscriptHello (e_crypto E) (h_Profile hello) hello = Inr th \<and>
     VerifyTokenProof (e_crypto E) (hc_ResolveToken (ch_config h)) (h_Profile hello) (h_AgentId hello) th (h_TokenProof hello) = None)"

text \<open>Everything a connection only has after authentication.\<close>

definition privileged :: "CoreHandler \<Rightarrow> bool" where
  "privileged h \<longleftrightarrow> ch_keys h \<noteq> None \<or> ch_authed h \<or> ssm_state (ch_sm h) \<noteq> ServerStateHandshaking \<or> ch_dataStarted h \<or>
     ch_agentID h \<noteq> [] \<or> ch_events h \<noteq> [] \<or> list_ex (\<lambda>m. case m of MHelloAck _ \<Rightarrow> True | MDict _ _ \<Rightarrow> True | MRedirect _ _ \<Rightarrow> True | _ \<Rightarrow> False) (ch_sent h)"

definition auth_inv :: "env \<Rightarrow> CoreHandler \<Rightarrow> bool" where
  "auth_inv E h \<longleftrightarrow> (privileged h \<longrightarrow> proven E h)"

text \<open>Operations that change neither the identity nor what marks a connection as authenticated.\<close>

definition plain_msg :: "msg \<Rightarrow> bool" where
  "plain_msg m \<longleftrightarrow> (case m of MHelloAck _ \<Rightarrow> False | MDict _ _ \<Rightarrow> False | MRedirect _ _ \<Rightarrow> False | _ \<Rightarrow> True)"

lemma privileged_post [simp]: "plain_msg m \<Longrightarrow> privileged (post E m h) = privileged h"
  by (cases m) (simp_all add: post_eq privileged_def plain_msg_def)

lemma proven_post [simp]: "proven E (post F m h) = proven E h"
  by (simp add: post_eq proven_def)

lemma auth_inv_post: "plain_msg m \<Longrightarrow> auth_inv E (post F m h) = auth_inv E h"
  by (simp add: auth_inv_def)

lemma auth_inv_nak [simp]: "auth_inv E (sendNak F code r ms h) = auth_inv E h"
  by (simp add: sendNak_def auth_inv_post plain_msg_def)

lemma sendNak_config [simp]: "ch_config (sendNak F code r ms h) = ch_config h"
  by (simp add: sendNak_def post_eq)

lemma auth_inv_caps [simp]: "auth_inv E (h\<lparr>ch_negCaps := c, ch_codec := d\<rparr>) = auth_inv E h"
  by (simp add: auth_inv_def privileged_def proven_def)

lemma auth_invI: "proven E h \<Longrightarrow> auth_inv E h"
  by (simp add: auth_inv_def)

text \<open>From the moment the proof was verified, every later state of the connection is proven.\<close>

definition same_identity :: "CoreHandler \<Rightarrow> CoreHandler \<Rightarrow> bool" where
  "same_identity h h' \<longleftrightarrow> ch_agentID h' = ch_agentID h \<and> ch_config h' = ch_config h"

lemma proven_identity: "same_identity h h' \<Longrightarrow> proven E h \<Longrightarrow> proven E h'"
  by (simp add: same_identity_def proven_def)

lemma same_identity_send: "same_identity h (snd (SendControlFrame E m p h))"
  by (simp add: same_identity_def SendControlFrame_def)

lemma same_identity_post: "same_identity h (post E m h)"
  by (simp add: same_identity_def post_eq)

lemma same_identity_trans: "same_identity a b \<Longrightarrow> same_identity b c \<Longrightarrow> same_identity a c"
  by (simp add: same_identity_def)

lemma same_identity_dict: "same_identity h (snd (maybeSendDict E sel h))"
  using same_identity_send [of h]
  by (auto simp: maybeSendDict_def Let_def same_identity_def SendControlFrame_def split: sum.splits prod.splits option.splits)

lemma same_identity_redirect: "same_identity h (snd (maybeRedirect E h))"
  by (auto simp: maybeRedirect_def Let_def same_identity_def SendControlFrame_def split: option.splits)

lemma same_identity_enterReady: "same_identity h (fst (snd (enterReady E me hello sel (h, sh))))"
proof -
  obtain r h1 where d: "maybeSendDict E sel h = (r, h1)" by force
  have i1: "same_identity h h1" using same_identity_dict [of h E sel] d by simp
  show ?thesis
  proof (cases "r = None \<and> fst (Server_Transition ServerStateReady (ch_sm h1)) = None")
    case True
    let ?h2 = "notify SessionConnected (h_AgentId hello) (h1\<lparr>ch_sm := snd (Server_Transition ServerStateReady (ch_sm h1)), ch_authed := True\<rparr>)"
    have "same_identity h1 ?h2" by (simp add: same_identity_def notify_def)
    moreover have "same_identity ?h2 (snd (maybeRedirect E ?h2))" by (rule same_identity_redirect)
    ultimately show ?thesis using True d i1
      by (cases "Server_Transition ServerStateReady (ch_sm h1)")
        (auto simp: enterReady_def Let_def split: prod.splits intro: same_identity_trans)
  next
    case False
    then show ?thesis using d i1
      by (cases "Server_Transition ServerStateReady (ch_sm h1)") (auto simp: enterReady_def split: option.splits prod.splits)
  qed
qed


definition verified :: "env \<Rightarrow> HandlerConfig \<Rightarrow> Hello \<Rightarrow> bool" where
  "verified E cfg hello \<longleftrightarrow> ValidateHello (Some hello) = None \<and> h_Profile hello = sp_Profile (hc_Policy cfg) \<and>
     (\<exists>th. TranscriptHello (e_crypto E) (h_Profile hello) hello = Inr th \<and>
       VerifyTokenProof (e_crypto E) (hc_ResolveToken cfg) (h_Profile hello) (h_AgentId hello) th (h_TokenProof hello) = None)"

lemma proven_verified: "verified E (ch_config h) hello \<Longrightarrow> ch_agentID h = h_AgentId hello \<Longrightarrow> proven E h"
  unfolding verified_def proven_def by metis

lemma proven_acknowledge:
  assumes "verified E (ch_config h) hello"
  shows "proven E (fst (snd (acknowledge E tk me hello sel keys eph (h, sh))))"
proof -
  obtain ep eps where ep: "Epoch_Next (h_AgentId hello) (sh_epochs sh) = (ep, eps)" by force
  let ?h = "h\<lparr>ch_keys := Some keys, ch_agentID := h_AgentId hello, ch_sessionID := tk_sid tk, ch_epoch := ep,
              ch_expiresAt := Unix (tk_now tk + DefaultSessionTTL)\<rparr>"
  have p: "proven E ?h" using assms by (intro proven_verified [where hello = hello]) simp_all
  then have nak: "proven E (sendNak E c r ms ?h)" for c r ms by (simp add: sendNak_def)
  have send: "proven E (snd (SendControlFrame E m pl ?h))" for m pl
    using p by (rule proven_identity [OF same_identity_send])
  have ready: "proven E (fst (snd (enterReady E me hello sel (snd (SendControlFrame E m pl ?h), sh'))))" for m pl sh'
    using send by (rule proven_identity [OF same_identity_enterReady])
  show ?thesis
    using p nak send ready
    by (auto simp: acknowledge_def ep Let_def split: sum.splits prod.splits option.splits) (metis snd_conv)+
qed

lemma deriveServerKeys_state:
  "snd (deriveServerKeys E tk p ce th tp caps h) = h \<or> (\<exists>code. snd (deriveServerKeys E tk p ce th tp caps h) = sendNak E code False 0 h)"
  by (auto simp: deriveServerKeys_def split: sum.splits prod.splits)

abbreviation with_caps :: "string list \<Rightarrow> CoreHandler \<Rightarrow> CoreHandler" where
  "with_caps sel h \<equiv> h\<lparr>ch_negCaps := Some sel, ch_codec := Some (CodecFor sel)\<rparr>"

text \<open>The two ways through \<open>handleHello\<close>: a refusal, which sends one NAK and touches nothing but the negotiated capabilities, or a verified proof.\<close>

lemma handleHello_refused:
  assumes "\<not> (\<exists>hello. e_dec_hello E payload = Inr hello \<and> verified E (ch_config h) hello)"
  shows "\<exists>r code retry ms caps cod. handleHello E tk me payload (h, sh) =
    (r, sendNak E code retry ms (h\<lparr>ch_negCaps := caps, ch_codec := cod\<rparr>), sh) \<and> (r = None \<longleftrightarrow> code = CodeAuthFailed)"
proof (cases "e_dec_hello E payload")
  case (Inl e)
  then have "handleHello E tk me payload (h, sh) =
      (Some (WrapError ErrCodeBadHandshake ''decode hello'' e),
       sendNak E CodeBadHandshakeMessage False 0 (h\<lparr>ch_negCaps := ch_negCaps h, ch_codec := ch_codec h\<rparr>), sh)"
    by (simp add: handleHello_def)
  then show ?thesis by fastforce
next
  case (Inr hello)
  let ?p = "hc_Policy (ch_config h)"
  let ?h = "with_caps (selectedCaps ?p hello) h"
  consider (invalid) e where "ValidateHello (Some hello) = Some e"
    | (profile) "ValidateHello (Some hello) = None" "h_Profile hello \<noteq> sp_Profile ?p"
    | (transcript) e where "ValidateHello (Some hello) = None" "h_Profile hello = sp_Profile ?p"
        "TranscriptHello (e_crypto E) (h_Profile hello) hello = Inl e"
    | (mismatch) th e where "ValidateHello (Some hello) = None" "h_Profile hello = sp_Profile ?p"
        "TranscriptHello (e_crypto E) (h_Profile hello) hello = Inr th"
        "VerifyTokenProof (e_crypto E) (hc_ResolveToken (ch_config h)) (h_Profile hello) (h_AgentId hello) th (h_TokenProof hello) = Some e"
    using assms Inr unfolding verified_def by (metis option.exhaust sum.exhaust)
  then show ?thesis
  proof cases
    case invalid
    have "helloNakCode e \<noteq> CodeAuthFailed" by (simp add: helloNakCode_def)
    moreover have "handleHello E tk me payload (h, sh) =
        (Some e, sendNak E (helloNakCode e) False 0 (h\<lparr>ch_negCaps := ch_negCaps h, ch_codec := ch_codec h\<rparr>), sh)"
      using Inr invalid by (simp add: handleHello_def)
    ultimately show ?thesis by blast
  next
    case profile
    have "handleHello E tk me payload (h, sh) =
        (Some (NewError ErrCodeUnsupportedProfile ''profile mismatch''),
         sendNak E CodeUnsupportedProfile False 0 (h\<lparr>ch_negCaps := ch_negCaps h, ch_codec := ch_codec h\<rparr>), sh)"
      using Inr profile by (simp add: handleHello_def)
    then show ?thesis by fastforce
  next
    case transcript
    have "handleHello E tk me payload (h, sh) = (Some e, sendNak E CodeInternal False 0 ?h, sh)"
      using Inr transcript by (simp add: handleHello_def Let_def)
    then show ?thesis by fastforce
  next
    case mismatch
    have "handleHello E tk me payload (h, sh) = (None, sendNak E CodeAuthFailed True 1000 ?h, sh)"
      using Inr mismatch by (simp add: handleHello_def Let_def)
    then show ?thesis by fastforce
  qed
qed

lemma handleHello_verified:
  assumes "e_dec_hello E payload = Inr hello" "verified E (ch_config h) hello"
  shows "\<exists>th. TranscriptHello (e_crypto E) (h_Profile hello) hello = Inr th \<and>
    handleHello E tk me payload (h, sh) =
      (case deriveServerKeys E tk (h_Profile hello) (h_ClientEph hello) th (h_TokenProof hello)
          (selectedCaps (hc_Policy (ch_config h)) hello) (with_caps (selectedCaps (hc_Policy (ch_config h)) hello) h) of
         (Inl e, h) \<Rightarrow> (Some e, h, sh)
       | (Inr (keys, eph), h') \<Rightarrow> acknowledge E tk me hello (selectedCaps (hc_Policy (ch_config h)) hello) keys eph (h', sh))"
  using assms by (auto simp: verified_def handleHello_def Let_def)

lemma auth_inv_handleHello:
  assumes "auth_inv E h"
  shows "auth_inv E (fst (snd (handleHello E tk me payload (h, sh))))"
proof (cases "\<exists>hello. e_dec_hello E payload = Inr hello \<and> verified E (ch_config h) hello")
  case False
  from handleHello_refused [OF this, of tk me sh] show ?thesis using assms by fastforce
next
  case True
  then obtain hello where hello: "e_dec_hello E payload = Inr hello" "verified E (ch_config h) hello" by blast
  let ?sel = "selectedCaps (hc_Policy (ch_config h)) hello"
  obtain th where eq: "handleHello E tk me payload (h, sh) =
      (case deriveServerKeys E tk (h_Profile hello) (h_ClientEph hello) th (h_TokenProof hello) ?sel (with_caps ?sel h) of
         (Inl e, h) \<Rightarrow> (Some e, h, sh) | (Inr (keys, eph), h') \<Rightarrow> acknowledge E tk me hello ?sel keys eph (h', sh))"
    using handleHello_verified [OF hello] by blast
  obtain r h' where d: "deriveServerKeys E tk (h_Profile hello) (h_ClientEph hello) th (h_TokenProof hello) ?sel (with_caps ?sel h) = (r, h')"
    by force
  have i: "auth_inv E h'" and c: "ch_config h' = ch_config h"
    using deriveServerKeys_state [of E tk "h_Profile hello" "h_ClientEph hello" th "h_TokenProof hello" ?sel "with_caps ?sel h"] d assms
    by auto
  show ?thesis
  proof (cases r)
    case (Inl e) then show ?thesis using eq d i by simp
  next
    case (Inr ke)
    then show ?thesis using eq d c hello(2)
      by (cases ke) (simp add: auth_invI proven_acknowledge)
  qed
qed


lemma auth_inv_control_step:
  assumes "auth_inv E h"
  shows "auth_inv E (fst (snd (control_step E me f (h, sh))))"
proof -
  obtain ty pl tk where f: "f = (ty, pl, tk)" by (cases f)
  obtain r h1 sh1 where hh: "handleHello E tk me pl (h, sh) = (r, h1, sh1)" by (cases "handleHello E tk me pl (h, sh)")
  have i1: "auth_inv E h1" using auth_inv_handleHello [OF assms, of tk me pl sh] hh by simp
  then have ready: "auth_inv E (h1\<lparr>ch_dataStarted := True\<rparr>)" if "ssm_state (ch_sm h1) = ServerStateReady"
    using that by (simp add: auth_inv_def privileged_def proven_def)
  have ping: "auth_inv E (handlePing E pl h)"
    using assms by (simp add: handlePing_def auth_inv_post plain_msg_def split: sum.splits)
  have close: "auth_inv E (handleClose E pl h)"
    using assms by (auto simp: handleClose_def Let_def Server_Transition_def auth_inv_def privileged_def proven_def)
  consider "ty = TypeHello" | "ty \<noteq> TypeHello" "ty = TypePing" | "ty \<noteq> TypeHello" "ty \<noteq> TypePing" "ty = TypeCommandAck"
    | "ty \<noteq> TypeHello" "ty \<noteq> TypePing" "ty \<noteq> TypeCommandAck" by blast
  then show ?thesis
  proof cases
    case 1
    then show ?thesis using assms i1 ready hh by (cases r) (simp_all add: control_step_def f)
  next
    case 2
    then show ?thesis using ping by (simp add: control_step_def f)
  next
    case 3
    then show ?thesis using assms by (simp add: control_step_def f split: sum.splits option.splits)
  next
    case 4
    then show ?thesis using assms close by (simp add: control_step_def f)
  qed
qed

lemma auth_inv_controlLoop: "auth_inv E h \<Longrightarrow> auth_inv E (fst (snd (controlLoop E me fs (h, sh))))"
proof (induction fs arbitrary: h sh)
  case (Cons f fs)
  obtain r h1 sh1 where s: "control_step E me f (h, sh) = (r, h1, sh1)" by (cases "control_step E me f (h, sh)")
  have "auth_inv E h1" using auth_inv_control_step [OF Cons.prems, of me f sh] s by simp
  then show ?case using Cons.IH s by (cases r) simp_all
qed simp



section \<open>A handshake that completes\<close>

text \<open>A transport that takes every frame, and an encoder that never fails nor exceeds the frame limit.\<close>

definition wire_ok :: "env \<Rightarrow> bool" where
  "wire_ok E \<longleftrightarrow> (\<forall>m. sendable E m) \<and> (\<forall>n t p. e_send E n t p = None)"

lemma wire_ok_send:
  assumes "wire_ok E" "e_encode E m = Inr p"
  shows "SendControlFrame E m p h = (None, h\<lparr>ch_sent := ch_sent h @ [m]\<rparr>)"
  using assms unfolding wire_ok_def sendable_def SendControlFrame_def by (metis Inr_inject)

lemma wire_ok_encode: "wire_ok E \<Longrightarrow> \<exists>p. e_encode E m = Inr p"
  unfolding wire_ok_def sendable_def by blast

definition dict_frames :: "ServerPolicy \<Rightarrow> string list \<Rightarrow> msg list" where
  "dict_frames p sel = (if CapZstdDict \<in> set sel \<and> sp_ZstdDict p \<noteq> [] \<and> sp_ZstdDictID p \<noteq> 0
     then [MDict (sp_ZstdDictID p) (sp_ZstdDict p)] else [])"

lemma maybeSendDict_ok:
  assumes "wire_ok E"
  shows "maybeSendDict E sel h = (None, h\<lparr>ch_sent := ch_sent h @ dict_frames (hc_Policy (ch_config h)) sel\<rparr>)"
  using wire_ok_encode [OF assms, of "MDict (sp_ZstdDictID (hc_Policy (ch_config h))) (sp_ZstdDict (hc_Policy (ch_config h)))"]
  by (auto simp: maybeSendDict_def dict_frames_def Let_def wire_ok_send [OF assms])

lemma handshake_completes_eq:
  fixes E :: env and h :: CoreHandler and hello and keys and tk and sh
  defines "sel \<equiv> selectedCaps (hc_Policy (ch_config h)) hello"
  defines "h1 \<equiv> h\<lparr>ch_negCaps := Some sel, ch_codec := Some (CodecFor sel), ch_keys := Some keys, ch_agentID := h_AgentId hello,
     ch_sessionID := tk_sid tk, ch_epoch := sh_epochs sh (h_AgentId hello) + 1, ch_expiresAt := Unix (tk_now tk + DefaultSessionTTL)\<rparr>"
  assumes "e_dec_hello E payload = Inr hello" "verified E (ch_config h) hello" "ssm_state (ch_sm h) = ServerStateHandshaking"
    and "TranscriptHello (e_crypto E) (h_Profile hello) hello = Inr th"
    and "fst (deriveServerKeys E tk (h_Profile hello) (h_ClientEph hello) th (h_TokenProof hello) sel h) = Inr (keys, eph)"
    and "TranscriptFull (e_crypto E) (h_Profile hello) hello (helloAck eph sel h1) = Inr thFull"
    and "wire_ok E" "hc_RedirectChecker (ch_config h) = None"
  shows "\<exists>sh'. handleHello E tk me payload (h, sh) =
     (None, notify SessionConnected (h_AgentId hello) (h1\<lparr>ch_sm := \<lparr>ssm_state = ServerStateReady\<rparr>, ch_authed := True,
        ch_sent := ch_sent h @ [MHelloAck ((helloAck eph sel h1)\<lparr>ha_Finished := FinishedMAC (e_crypto E) keys thFull\<rparr>)] @
          dict_frames (hc_Policy (ch_config h)) sel\<rparr>), sh') \<and>
     sh_epochs sh' = (sh_epochs sh)(h_AgentId hello := sh_epochs sh (h_AgentId hello) + 1)"
proof -
  let ?h = "with_caps sel h"
  let ?m = "MHelloAck ((helloAck eph sel h1)\<lparr>ha_Finished := FinishedMAC (e_crypto E) keys thFull\<rparr>)"
  have derive: "deriveServerKeys E tk (h_Profile hello) (h_ClientEph hello) th (h_TokenProof hello) sel ?h = (Inr (keys, eph), ?h)"
    using assms(7) by (auto simp: deriveServerKeys_def split: sum.splits prod.splits)
  have h1: "h1 = ?h\<lparr>ch_keys := Some keys, ch_agentID := h_AgentId hello, ch_sessionID := tk_sid tk,
      ch_epoch := sh_epochs sh (h_AgentId hello) + 1, ch_expiresAt := Unix (tk_now tk + DefaultSessionTTL)\<rparr>"
    by (simp add: h1_def)
  obtain p where p: "e_encode E ?m = Inr p" using wire_ok_encode [OF assms(9)] by blast
  have "handleHello E tk me payload (h, sh) = acknowledge E tk me hello sel keys eph (?h, sh)"
    using handleHello_verified [OF assms(3,4), of tk me sh] assms(6) derive by (simp add: sel_def)
  also have "\<dots> = enterReady E me hello sel (h1\<lparr>ch_sent := ch_sent h @ [?m]\<rparr>,
      sh\<lparr>sh_epochs := (sh_epochs sh)(h_AgentId hello := sh_epochs sh (h_AgentId hello) + 1)\<rparr>)"
    unfolding acknowledge_def Epoch_Next_def Let_def prod.case h1 [symmetric]
    using assms(8) p wire_ok_send [OF assms(9) p, of h1] by (simp add: h1_def)
  finally show ?thesis
    using assms(5,10) maybeSendDict_ok [OF assms(9)]
    by (simp add: enterReady_def Server_Transition_def Let_def maybeRedirect_def notify_def h1_def)
qed


text \<open>
  C7. A HELLO with a valid proof completes the handshake in one round: when keys can be derived and the transport takes the frames, the
  connection becomes ready and authenticated as the agent of the HELLO under fresh epoch and session id, and has sent exactly the
  HELLO_ACK, whose MAC covers the transcript with every announced parameter, followed by the dictionary if that capability was selected.
\<close>

theorem handshake_completes:
  fixes E :: env and h :: CoreHandler and hello and keys and tk and sh
  defines "sel \<equiv> selectedCaps (hc_Policy (ch_config h)) hello"
  defines "h1 \<equiv> h\<lparr>ch_negCaps := Some sel, ch_codec := Some (CodecFor sel), ch_keys := Some keys, ch_agentID := h_AgentId hello,
     ch_sessionID := tk_sid tk, ch_epoch := sh_epochs sh (h_AgentId hello) + 1, ch_expiresAt := Unix (tk_now tk + DefaultSessionTTL)\<rparr>"
  assumes "e_dec_hello E payload = Inr hello" "verified E (ch_config h) hello" "ssm_state (ch_sm h) = ServerStateHandshaking"
    and "TranscriptHello (e_crypto E) (h_Profile hello) hello = Inr th"
    and "fst (deriveServerKeys E tk (h_Profile hello) (h_ClientEph hello) th (h_TokenProof hello) sel h) = Inr (keys, eph)"
    and "TranscriptFull (e_crypto E) (h_Profile hello) hello (helloAck eph sel h1) = Inr thFull"
    and "wire_ok E" "hc_RedirectChecker (ch_config h) = None"
  shows "\<exists>sh'. handleHello E tk me payload (h, sh) =
     (None, notify SessionConnected (h_AgentId hello) (h1\<lparr>ch_sm := \<lparr>ssm_state = ServerStateReady\<rparr>, ch_authed := True,
        ch_sent := ch_sent h @ [MHelloAck ((helloAck eph sel h1)\<lparr>ha_Finished := FinishedMAC (e_crypto E) keys thFull\<rparr>)] @
          dict_frames (hc_Policy (ch_config h)) sel\<rparr>), sh') \<and>
     sh_epochs sh' = (sh_epochs sh)(h_AgentId hello := sh_epochs sh (h_AgentId hello) + 1)"
  using handshake_completes_eq [OF assms(3-10) [unfolded sel_def h1_def]] unfolding sel_def h1_def .

text \<open>A concrete connection on which the theorems apply: one registered token, an agent that holds it.\<close>

definition demo_env :: env where
  "demo_env = \<lparr>e_crypto = demo_crypto, e_codecs = demo_codecs, e_signal_codecs = Map.empty, e_encode = (\<lambda>_. Inr []),
     e_send = (\<lambda>_ _ _. None),
     e_dec_hello = (\<lambda>p. Inr \<lparr>h_Profile = PROFILE_INTL, h_AgentId = ''a'', h_Meta = [], h_Capabilities = [],
        h_ClientEph = replicate 32 2, h_TokenProof = p\<rparr>),
     e_dec_envelope = (\<lambda>_. Inl gopanic), e_dec_batch = (\<lambda>_. Inl gopanic), e_dec_ping = (\<lambda>_. Inl gopanic),
     e_dec_close = (\<lambda>_. Inl gopanic), e_dec_ack = (\<lambda>_. Inl gopanic), e_refill = (\<lambda>_ _. 0)\<rparr>"

definition demo_config :: HandlerConfig where
  "demo_config = \<lparr>hc_ResolveToken = ResolveToken (NewStaticTokenValidator [(''t'', ''a'')]),
     hc_Policy = DefaultServerPolicy PROFILE_INTL, hc_RedirectChecker = None, hc_OnSession = True, hc_SinkRaw = True,
     hc_SinkHandler = None, hc_SinkDeadline = 0, hc_SinkQueueSize = 0, hc_SinkQueueMaxBytes = 0, hc_Zdict = None, hc_Commands = False\<rparr>"

definition demo_th :: bytes where
  "demo_th = transcriptHash demo_crypto PROFILE_INTL [bytes_of (ProfileName PROFILE_INTL), bytes_of ''a'']"

definition demo_client_hello :: Hello where
  "demo_client_hello = \<lparr>h_Profile = PROFILE_INTL, h_AgentId = ''a'', h_Meta = [], h_Capabilities = [],
     h_ClientEph = replicate 32 2, h_TokenProof = TokenProof demo_crypto PROFILE_INTL ''t'' demo_th\<rparr>"

definition demo_tick :: tick where
  "demo_tick = \<lparr>tk_now = 0, tk_rnd = Inr (replicate 32 1), tk_sid = [7]\<rparr>"

definition demo_handler :: CoreHandler where
  "demo_handler = fst (NewCoreHandler demo_env (\<lambda>_ _. None) demo_config \<lparr>zr_reg = [], zr_ord = []\<rparr>)"

definition demo_shared :: Shared where
  "demo_shared = \<lparr>sh_epochs = (\<lambda>_. 0), sh_commands = NewCommandRegistry\<rparr>"

lemma demo_handler_simps [simp]:
  "ch_config demo_handler = demo_config" "ch_sm demo_handler = \<lparr>ssm_state = ServerStateHandshaking\<rparr>"
  "ch_sent demo_handler = []" "ch_events demo_handler = []"
  by (simp_all add: demo_handler_def NewCoreHandler_def initSinkQueue_def demo_config_def DefaultServerPolicy_def NewServerMachine_def)

lemma demo_hello_decodes: "e_dec_hello demo_env (h_TokenProof demo_client_hello) = Inr demo_client_hello"
  by (simp add: demo_env_def demo_client_hello_def)

lemma demo_transcript: "TranscriptHello demo_crypto PROFILE_INTL demo_client_hello = Inr demo_th"
  by (simp add: TranscriptHello_def CanonicalHello_def demo_th_def demo_client_hello_def demo_crypto_def)

lemma demo_verified: "verified demo_env demo_config demo_client_hello"
proof -
  have "ValidateHello (Some demo_client_hello) = None"
    by (simp add: ValidateHello_def demo_client_hello_def validateAgentID_def MaxAgentIDLen_def hasStrictControlChars_bytes plain_char_def
        EphemeralPubLen_def TokenProof_def demo_crypto_def bytes_of_def)
  moreover have "VerifyTokenProof demo_crypto (hc_ResolveToken demo_config) PROFILE_INTL ''a'' demo_th (h_TokenProof demo_client_hello) = None"
    by (simp add: VerifyTokenProof_def demo_config_def demo_client_hello_def new_validator)
  ultimately show ?thesis using demo_transcript
    by (simp add: verified_def demo_client_hello_def demo_config_def DefaultServerPolicy_def demo_env_def)
qed

lemma demo_wire: "wire_ok demo_env"
  by (simp add: wire_ok_def sendable_def demo_env_def)


lemma demo_derive:
  "\<exists>keys. fst (deriveServerKeys demo_env demo_tick PROFILE_INTL (replicate 32 2) demo_th prf caps h) = Inr (keys, replicate 32 1)"
proof -
  have "\<exists>zz. DeriveZZ demo_crypto PROFILE_INTL \<lparr>ek_profile = PROFILE_INTL, ek_x25519 = Some (replicate 32 1), ek_sm2 = None\<rparr> (replicate 32 2) = Inr zz"
    by (simp add: DeriveZZ_def demo_crypto_def)
  then obtain zz where z: "DeriveZZ demo_crypto PROFILE_INTL \<lparr>ek_profile = PROFILE_INTL, ek_x25519 = Some (replicate 32 1), ek_sm2 = None\<rparr>
      (replicate 32 2) = Inr zz" ..
  obtain keys where k: "DeriveSessionKeysWithCaps demo_crypto PROFILE_INTL zz demo_th prf caps = Inr keys"
    using demo_derives [of PROFILE_INTL] by blast
  have g: "GenerateEphemeral demo_crypto PROFILE_INTL (tk_rnd demo_tick) =
      Inr (\<lparr>ek_profile = PROFILE_INTL, ek_x25519 = Some (replicate 32 1), ek_sm2 = None\<rparr>, replicate 32 1)"
    by (simp add: GenerateEphemeral_def demo_tick_def demo_crypto_def)
  have "ephPub demo_crypto \<lparr>ek_profile = PROFILE_INTL, ek_x25519 = Some (replicate 32 1), ek_sm2 = None\<rparr> = replicate 32 1"
    by (simp add: ephPub_def PubBytes_def demo_crypto_def)
  moreover have "e_crypto demo_env = demo_crypto" by (simp add: demo_env_def)
  ultimately show ?thesis using z k g by (simp add: deriveServerKeys_def)
qed

lemma demo_full: "\<exists>t. TranscriptFull demo_crypto PROFILE_INTL demo_client_hello a = Inr t"
  by (simp add: TranscriptFull_def CanonicalHello_def CanonicalHelloAck_def demo_crypto_def)

text \<open>The hypotheses of a completed handshake hold there.\<close>

abbreviation demo_sel :: "string list" where
  "demo_sel \<equiv> selectedCaps (hc_Policy (ch_config demo_handler)) demo_client_hello"

abbreviation demo_ready :: "SessionKeys \<Rightarrow> CoreHandler" where
  "demo_ready keys \<equiv> demo_handler\<lparr>ch_negCaps := Some demo_sel, ch_codec := Some (CodecFor demo_sel), ch_keys := Some keys,
     ch_agentID := h_AgentId demo_client_hello, ch_sessionID := tk_sid demo_tick,
     ch_epoch := sh_epochs demo_shared (h_AgentId demo_client_hello) + 1, ch_expiresAt := Unix (tk_now demo_tick + DefaultSessionTTL)\<rparr>"

lemma demo_hypotheses:
  "\<exists>keys t. fst (deriveServerKeys demo_env demo_tick (h_Profile demo_client_hello) (h_ClientEph demo_client_hello) demo_th
       (h_TokenProof demo_client_hello) demo_sel demo_handler) = Inr (keys, replicate 32 1) \<and>
     TranscriptFull (e_crypto demo_env) (h_Profile demo_client_hello) demo_client_hello
       (helloAck (replicate 32 1) demo_sel (demo_ready keys)) = Inr t"
  "verified demo_env (ch_config demo_handler) demo_client_hello"
  "ssm_state (ch_sm demo_handler) = ServerStateHandshaking"
  "TranscriptHello (e_crypto demo_env) (h_Profile demo_client_hello) demo_client_hello = Inr demo_th"
  "hc_RedirectChecker (ch_config demo_handler) = None"
proof -
  have prof: "h_Profile demo_client_hello = PROFILE_INTL" "h_ClientEph demo_client_hello = replicate 32 2"
    by (simp_all add: demo_client_hello_def)
  have e: "e_crypto demo_env = demo_crypto" by (simp add: demo_env_def)
  obtain keys where k: "fst (deriveServerKeys demo_env demo_tick PROFILE_INTL (replicate 32 2) demo_th (h_TokenProof demo_client_hello) demo_sel
      demo_handler) = Inr (keys, replicate 32 1)"
    using demo_derive by blast
  then show "\<exists>keys t. fst (deriveServerKeys demo_env demo_tick (h_Profile demo_client_hello) (h_ClientEph demo_client_hello) demo_th
       (h_TokenProof demo_client_hello) demo_sel demo_handler) = Inr (keys, replicate 32 1) \<and>
     TranscriptFull (e_crypto demo_env) (h_Profile demo_client_hello) demo_client_hello
       (helloAck (replicate 32 1) demo_sel (demo_ready keys)) = Inr t"
    unfolding prof e using demo_full by blast
  show "TranscriptHello (e_crypto demo_env) (h_Profile demo_client_hello) demo_client_hello = Inr demo_th"
    unfolding prof e by (rule demo_transcript)
qed (simp_all add: demo_verified, simp add: demo_config_def)

theorem handshake_completes_witness:
  "\<exists>h' sh'. handleHello demo_env demo_tick 0 (h_TokenProof demo_client_hello) (demo_handler, demo_shared) = (None, h', sh') \<and>
     ssm_state (ch_sm h') = ServerStateReady \<and> ch_authed h' \<and> ch_agentID h' = ''a''"
proof -
  obtain keys t where kt: "fst (deriveServerKeys demo_env demo_tick (h_Profile demo_client_hello) (h_ClientEph demo_client_hello) demo_th
       (h_TokenProof demo_client_hello) demo_sel demo_handler) = Inr (keys, replicate 32 1)"
     "TranscriptFull (e_crypto demo_env) (h_Profile demo_client_hello) demo_client_hello
       (helloAck (replicate 32 1) demo_sel (demo_ready keys)) = Inr t"
    using demo_hypotheses(1) by blast
  have "h_AgentId demo_client_hello = ''a''" by (simp add: demo_client_hello_def)
  then show ?thesis
    using handshake_completes [OF demo_hello_decodes demo_hypotheses(2-4) kt demo_wire demo_hypotheses(5), of 0]
    by (auto simp: notify_def)
qed


end
