(* ===== verification/Conservation.thy ===== *)
theory Conservation
  imports Interleave
begin

text \<open>
  Where the credit of a connection is: every batch and byte of the grant is either outstanding (the
  peer may use it), recovered (waiting for the next CREDIT frame) or held by an in-flight slot. The
  sums are over the integers, so they also show that no counter wraps. The operations conserve the
  sums when a slot is consumed once, settled only after it was consumed, and not released once it
  was; the last section shows that \<open>Release\<close> after \<open>Consume\<close>, which the batch handler has on one path, does leak.
  The reaper's search for the oldest slot closes the theory.
\<close>

section \<open>The server end as a credit account\<close>

definition server_avail :: "CreditManager \<Rightarrow> int \<times> int" where
  "server_avail m = (sint (outstandingB m), sint (outstandingY m))"

definition server_spend :: "u64 \<Rightarrow> i64 \<Rightarrow> CreditManager \<Rightarrow> CreditManager option" where
  "server_spend seq n m =
    (case Grant_Consume n \<lparr>g_seq = seq, g_consumed = False, g_done = False, g_accepted = False\<rparr> m of
       (None, _, m') \<Rightarrow> Some m' | (Some _, _, _) \<Rightarrow> None)"

interpretation server_account: credit_account server_avail "\<lambda>_. True" server_spend
proof unfold_locales
  fix a n s a'
  assume "0 \<le> sint n" and sp: "server_spend s n a = Some a'"
  moreover from sp have "1 \<le> sint (outstandingB a)" "sint n \<le> sint (outstandingY a)"
    and "outstandingB a' = outstandingB a - 1" "outstandingY a' = outstandingY a - n"
    by (auto simp: server_spend_def Grant_Consume_def split: if_splits option.splits)
  ultimately show "True \<and> server_avail a' = (fst (server_avail a) - 1, snd (server_avail a) - sint n)"
    using sint_sub_le [of 1 "outstandingB a"] sint_sub_le [of n "outstandingY a"]
    by (simp add: server_avail_def)
next
  fix a n s
  show "(server_spend s n a = None) = (fst (server_avail a) < 1 \<or> snd (server_avail a) < sint n)"
    by (simp add: server_spend_def Grant_Consume_def server_avail_def)
qed

section \<open>Conservation\<close>

definition heldB :: "InflightSlot \<Rightarrow> int" where
  "heldB s = (if is_Bytes s = 0 then 0 else 1)"

definition heldY :: "InflightSlot \<Rightarrow> int" where
  "heldY s = sint (is_Bytes s)"

definition totalB :: "CreditManager \<Rightarrow> int" where
  "totalB m = sint (outstandingB m) + sint (recoveredB m) + weight heldB (seen m)"

definition totalY :: "CreditManager \<Rightarrow> int" where
  "totalY m = sint (outstandingY m) + sint (recoveredY m) + weight heldY (seen m)"

definition counters_ok :: "CreditManager \<Rightarrow> bool" where
  "counters_ok m \<longleftrightarrow> 0 \<le> sint (outstandingB m) \<and> 0 \<le> sint (outstandingY m) \<and>
     0 \<le> sint (recoveredB m) \<and> 0 \<le> sint (recoveredY m) \<and>
     (\<forall>(k, s) \<in> set (seen m). 0 \<le> sint (is_Bytes s)) \<and> totalB m < 2 ^ 63 \<and> totalY m < 2 ^ 63"

text \<open>The discipline, as conditions on the state a step finds.\<close>

fun disciplined :: "pool \<Rightarrow> mop \<Rightarrow> bool" where
  "disciplined p (MConsume i n) =
     (i < length (grants p) \<and> \<not> g_done (grants p ! i) \<longrightarrow> 0 < sint n \<and>
        (case map_of (seen (mgr p)) (g_seq (grants p ! i)) of Some s \<Rightarrow> is_Bytes s = 0 | None \<Rightarrow> False))"
| "disciplined p (MSettle i _ _ _ _ _) =
     (i < length (grants p) \<and> effective (grants p ! i) (mgr p) \<longrightarrow>
        (case map_of (seen (mgr p)) (g_seq (grants p ! i)) of Some s \<Rightarrow> 0 < sint (is_Bytes s) | None \<Rightarrow> False))"
| "disciplined p (MRelease i) =
     (i < length (grants p) \<and> \<not> g_done (grants p ! i) \<longrightarrow>
        (case map_of (seen (mgr p)) (g_seq (grants p ! i)) of Some s \<Rightarrow> is_Bytes s = 0 | None \<Rightarrow> True))"
| "disciplined p _ = True"

fun disciplined_run :: "pool \<Rightarrow> mop list \<Rightarrow> bool" where
  "disciplined_run p [] = True"
| "disciplined_run p (op # ops) = (mop_ok op \<and> disciplined p op \<and> disciplined_run (mop_step p op) ops)"

definition balanced :: "int \<Rightarrow> int \<Rightarrow> CreditManager \<Rightarrow> bool" where
  "balanced b y m \<longleftrightarrow> counters_ok m \<and> totalB m = b \<and> totalY m = y"

lemma weight_nonneg: "\<forall>(k, s) \<in> set al. (0::int) \<le> f s \<Longrightarrow> 0 \<le> weight f al"
  by (induction al) auto

lemma held_nonneg:
  assumes "counters_ok m"
  shows "0 \<le> weight heldB (seen m)" "0 \<le> weight heldY (seen m)"
  using assms by (auto intro!: weight_nonneg simp: counters_ok_def heldB_def heldY_def)

lemma balanced_release:
  assumes "balanced b y m" "distinct_keys (seen m)"
    "case map_of (seen m) k of Some s \<Rightarrow> is_Bytes s = 0 | None \<Rightarrow> True"
  shows "balanced b y (releaseLocked k m)"
proof (cases "map_of (seen m) k")
  case None
  with assms show ?thesis by (simp add: releaseLocked_def delete_fresh)
next
  case (Some s)
  have "\<forall>(k, s) \<in> set (AList.delete k (seen m)). 0 \<le> sint (is_Bytes s)"
    using assms(1) by (intro alist_delete_all) (simp add: balanced_def counters_ok_def)
  with assms Some show ?thesis
    by (simp add: balanced_def counters_ok_def totalB_def totalY_def releaseLocked_def
        weight_delete [OF assms(2) Some] heldB_def heldY_def)
qed

lemma balanced_consume:
  assumes bal: "balanced b y m" and dk: "distinct_keys (seen m)" and n: "0 < sint n"
    and sl: "map_of (seen m) k = Some s" "is_Bytes s = 0"
    and av: "1 \<le> sint (outstandingB m)" "sint n \<le> sint (outstandingY m)"
  shows "balanced b y (m\<lparr>outstandingB := outstandingB m - 1, outstandingY := outstandingY m - n,
    seen := AList.update k (s\<lparr>is_Bytes := n\<rparr>) (seen m)\<rparr>)"
proof -
  have "\<forall>(k, s) \<in> set (AList.update k (s\<lparr>is_Bytes := n\<rparr>) (seen m)). 0 \<le> sint (is_Bytes s)"
    using bal n by (intro alist_update_all) (simp_all add: balanced_def counters_ok_def)
  moreover have "sint (outstandingB m - 1) = sint (outstandingB m) - 1"
    "sint (outstandingY m - n) = sint (outstandingY m) - sint n"
    using av n sint_sub_le [of 1 "outstandingB m"] sint_sub_le [of n "outstandingY m"] by simp_all
  moreover have "n \<noteq> 0" using n by auto
  ultimately show ?thesis
    using bal av sl(2)
    by (simp add: balanced_def counters_ok_def totalB_def totalY_def
        weight_update_old [OF dk sl(1)] heldB_def heldY_def)
qed

lemma balanced_settle:
  assumes bal: "balanced b y m" and dk: "distinct_keys (seen m)"
    and sl: "map_of (seen m) k = Some s" "0 < sint (is_Bytes s)"
    and m': "outstandingB m' = outstandingB m" "outstandingY m' = outstandingY m"
      "recoveredB m' = recoveredB m + 1" "recoveredY m' = recoveredY m + is_Bytes s"
      "seen m' = AList.delete k (seen m)"
  shows "balanced b y m'"
proof -
  have co: "counters_ok m" and tot: "totalB m = b" "totalY m = y" using bal by (auto simp: balanced_def)
  have sn: "\<forall>(k, s) \<in> set (AList.delete k (seen m)). 0 \<le> sint (is_Bytes s)"
    using co by (intro alist_delete_all) (simp add: counters_ok_def)
  have nz: "is_Bytes s \<noteq> 0" using sl(2) by auto
  have wB: "weight heldB (AList.delete k (seen m)) = weight heldB (seen m) - 1"
    and wY: "weight heldY (AList.delete k (seen m)) = weight heldY (seen m) - sint (is_Bytes s)"
    by (simp_all add: weight_delete [OF dk sl(1)] heldB_def heldY_def nz)
  have ge: "0 \<le> weight heldB (AList.delete k (seen m))" "0 \<le> weight heldY (AList.delete k (seen m))"
    using sn by (auto intro!: weight_nonneg simp: heldB_def heldY_def)
  have "sint (recoveredB m + 1) = sint (recoveredB m) + 1"
    "sint (recoveredY m + is_Bytes s) = sint (recoveredY m) + sint (is_Bytes s)"
    using co ge sl(2) unfolding wB wY
    by (subst sint_add_64; simp add: counters_ok_def totalB_def totalY_def)+
  then show ?thesis
    using co tot sn sl(2) by (simp add: balanced_def counters_ok_def totalB_def totalY_def m' wB wY)
qed

lemma balanced_take:
  assumes "balanced b y m"
  shows "balanced b y (snd (TakeRecovered m))"
proof -
  have co: "counters_ok m" using assms by (simp add: balanced_def)
  have "sint (outstandingB m + recoveredB m) = sint (outstandingB m) + sint (recoveredB m)"
    "sint (outstandingY m + recoveredY m) = sint (outstandingY m) + sint (recoveredY m)"
    using co held_nonneg [OF co]
    by (subst sint_add_64; simp add: counters_ok_def totalB_def totalY_def)+
  with assms show ?thesis
    by (simp add: balanced_def TakeRecovered_def counters_ok_def totalB_def totalY_def)
qed

lemma balanced_admit:
  assumes "balanced b y m"
  shows "balanced b y (snd (Admit seq now m))"
proof (cases "snd (Admit seq now m) = m")
  case False
  let ?v = "\<lparr>is_Seq = seq, is_Bytes = 0, is_Correlation = [], is_AddedAt = now\<rparr>"
  from False have "snd (Admit seq now m) = m\<lparr>seen := AList.update seq ?v (seen m)\<rparr>"
    and fresh: "map_of (seen m) seq = None"
    by (auto simp: Admit_def split: if_splits option.splits)
  moreover have "\<forall>(k, s) \<in> set (AList.update seq ?v (seen m)). 0 \<le> sint (is_Bytes s)"
    using assms by (intro alist_update_all) (simp_all add: balanced_def counters_ok_def)
  ultimately show ?thesis
    using assms by (simp add: balanced_def counters_ok_def totalB_def totalY_def
        weight_update_fresh [OF fresh] heldB_def heldY_def)
qed (use assms in simp)

lemma balanced_backfill:
  assumes "balanced b y m" and dk: "distinct_keys (seen m)"
  shows "balanced b y (Grant_Backfill corr g m)"
proof (cases "map_of (seen m) (g_seq g)")
  case None
  with assms show ?thesis by (simp add: Grant_Backfill_def)
next
  case (Some s)
  let ?v = "s\<lparr>is_Correlation := corr\<rparr>"
  have "\<forall>(k, s) \<in> set (seen m). 0 \<le> sint (is_Bytes s)" using assms by (simp add: balanced_def counters_ok_def)
  then have "\<forall>(k, s) \<in> set (AList.update (g_seq g) ?v (seen m)). 0 \<le> sint (is_Bytes s)"
    using map_of_SomeD [OF Some] by (intro alist_update_all) auto
  with assms Some show ?thesis
    by (simp add: balanced_def counters_ok_def totalB_def totalY_def Grant_Backfill_def
        weight_update_old [OF dk Some] heldB_def heldY_def)
qed

lemma balanced_grant_consume:
  assumes "pool_inv p" and bal: "balanced b y (mgr p)" and d: "disciplined p (MConsume i n)" and i: "i < length (grants p)"
  shows "balanced b y (snd (snd (Grant_Consume n (grants p ! i) (mgr p))))"
proof -
  let ?g = "grants p ! i"
  have dk: "distinct_keys (seen (mgr p))" using assms(1) by (simp add: pool_inv_def mgr_inv_def)
  show ?thesis
  proof (cases "g_done ?g \<or> sint (outstandingB (mgr p)) < 1 \<or> sint (outstandingY (mgr p)) < sint n")
    case True
    with i d bal balanced_release [OF bal dk, of "g_seq ?g"] show ?thesis by (auto simp: Grant_Consume_def split: option.splits)
  next
    case False
    with i d obtain s where "map_of (seen (mgr p)) (g_seq ?g) = Some s" "is_Bytes s = 0" "0 < sint n" by (auto split: option.splits)
    with False balanced_consume [OF bal dk, of n "g_seq ?g" s] show ?thesis by (simp add: Grant_Consume_def)
  qed
qed

lemma balanced_grant_settle:
  assumes "pool_inv p" and bal: "balanced b y (mgr p)" and d: "disciplined p (MSettle i send level code retry n)" and i: "i < length (grants p)"
    and st: "Grant_Settle send level code retry n (grants p ! i) (mgr p) = (rs, g, m)"
  shows "balanced b y m"
proof -
  let ?g = "grants p ! i"
  have mi: "mgr_inv (mgr p)" and gok: "grants_ok (grants p)" using assms(1) by (simp_all add: pool_inv_def)
  have dk: "distinct_keys (seen (mgr p))" using mi by (simp add: mgr_inv_def)
  show ?thesis
  proof (cases "effective ?g (mgr p)")
    case True
    with d i obtain s where s: "map_of (seen (mgr p)) (g_seq ?g) = Some s" "0 < sint (is_Bytes s)" by (auto split: option.splits)
    moreover have "settle_bytes n ?g (mgr p) = is_Bytes s" using s by (simp add: settle_bytes_def)
    ultimately show ?thesis
      using Settle_effective(3-7) [OF mi True _ st] grants_ok_nth [OF gok i] balanced_settle [OF bal dk s] by simp
  next
    case False
    with st bal show ?thesis by (simp add: Settle_ineffective)
  qed
qed

lemma balanced_step:
  assumes inv: "pool_inv p" and bal: "balanced b y (mgr p)" and d: "disciplined p op"
  shows "balanced b y (mgr (mop_step p op))"
proof -
  have dk: "distinct_keys (seen (mgr p))" using inv by (simp add: pool_inv_def mgr_inv_def)
  show ?thesis
  proof (cases op)
    case (MAdmit seq now)
    then show ?thesis using balanced_admit [OF bal, of seq now] by (simp add: case_prod_beta)
  next
    case (MConsume i n)
    then show ?thesis using bal balanced_grant_consume [OF inv bal d [unfolded MConsume]] by (simp add: case_prod_beta)
  next
    case (MBackfill i corr)
    then show ?thesis using bal balanced_backfill [OF bal dk] by simp
  next
    case (MSettle i send level code retry n)
    obtain rs g m where st: "Grant_Settle send level code retry n (grants p ! i) (mgr p) = (rs, g, m)"
      by (cases "Grant_Settle send level code retry n (grants p ! i) (mgr p)")
    then show ?thesis using bal balanced_grant_settle [OF inv bal d [unfolded MSettle] _ st] by (simp add: MSettle)
  next
    case (MRelease i)
    then show ?thesis
      using bal d balanced_release [OF bal dk, of "g_seq (grants p ! i)"]
      by (simp add: Grant_Release_def case_prod_beta)
  next
    case MTake
    then show ?thesis using balanced_take [OF bal] by simp
  qed (use bal in \<open>simp_all add: case_prod_beta\<close>)
qed

lemma balanced_run:
  assumes "pool_inv p" "balanced b y (mgr p)" "disciplined_run p ops"
  shows "balanced b y (mgr (foldl mop_step p ops))"
  using assms by (induction ops arbitrary: p) (auto simp: balanced_step pool_inv_step)

text \<open>
  C25. Credit is conserved. In any disciplined interleaving that starts from a grant of \<open>b\<close> batches
  and \<open>y\<close> bytes, the outstanding, the recovered and the in-flight credit add up to exactly
  \<open>b\<close> and \<open>y\<close>, over the integers and with no counter negative: no credit is lost or invented and
  no counter wraps.
\<close>

theorem credit_conserved:
  assumes "0 \<le> sint b" "0 \<le> sint y" "disciplined_run (init_pool b y cap) ops"
  defines "m \<equiv> mgr (foldl mop_step (init_pool b y cap) ops)"
  shows "totalB m = sint b \<and> totalY m = sint y \<and> 0 \<le> sint (outstandingB m) \<and> 0 \<le> sint (outstandingY m) \<and>
    0 \<le> sint (recoveredB m) \<and> 0 \<le> sint (recoveredY m)"
proof -
  have "balanced (sint b) (sint y) (mgr (init_pool b y cap))"
    using assms(1,2) sint_bounds_64 [of b] sint_bounds_64 [of y]
    by (simp add: balanced_def counters_ok_def init_pool_def NewCreditManager_def totalB_def totalY_def)
  from balanced_run [OF pool_inv_init this assms(3)] show ?thesis
    by (simp add: m_def balanced_def counters_ok_def)
qed

theorem credit_conserved_witness:
  "totalB (mgr (foldl mop_step (init_pool 4 100 2)
     [MAdmit 1 0, MConsume 0 7, MAdmit 2 0, MConsume 1 9, MSettle 0 True 1 0 0 7, MTake])) = 4"
proof -
  let ?ops = "[MAdmit 1 0, MConsume 0 7, MAdmit 2 0, MConsume 1 9, MSettle 0 True 1 0 0 7, MTake]"
  have "disciplined_run (init_pool 4 100 2) ?ops" by (simp add: mgr_eval)
  moreover have "0 \<le> sint (4::i64)" "0 \<le> sint (100::i64)" "sint (4::i64) = 4" by simp_all
  ultimately show ?thesis using credit_conserved [of 4 100 2 ?ops] by (simp only:)
qed

text \<open>
  Releasing a consumed grant leaks its credit. When \<open>Consume\<close> succeeded, \<open>Release\<close> drops the
  slot but gives nothing back: afterwards the total is one batch and the frame's bytes short, so the peer
  never sees that credit again.
\<close>

theorem release_after_consume_leaks:
  assumes "mgr_inv m" "counters_ok m" "map_of (seen m) (g_seq g) = Some s" "is_Bytes s = 0" "0 < sint n"
    and "Grant_Consume n g m = (None, g', m')"
  shows "totalB (snd (Grant_Release g' m')) = totalB m - 1 \<and> totalY (snd (Grant_Release g' m')) = totalY m - sint n \<and>
    g_seq g \<notin> inflight (snd (Grant_Release g' m'))"
proof -
  have dk: "distinct_keys (seen m)" using assms(1) by (simp add: mgr_inv_def)
  let ?u = "AList.update (g_seq g) (s\<lparr>is_Bytes := n\<rparr>) (seen m)"
  from assms(3,6) have av: "1 \<le> sint (outstandingB m)" "sint n \<le> sint (outstandingY m)"
    and nd: "\<not> g_done g'" and sq: "g_seq g' = g_seq g"
    and m': "m' = m\<lparr>outstandingB := outstandingB m - 1, outstandingY := outstandingY m - n, seen := ?u\<rparr>"
    by (auto simp: Grant_Consume_def split: if_splits)
  have "sint (outstandingB m - 1) = sint (outstandingB m) - 1"
    "sint (outstandingY m - n) = sint (outstandingY m) - sint n"
    using av assms(5) sint_sub_le [of 1 "outstandingB m"] sint_sub_le [of n "outstandingY m"] by simp_all
  moreover have old: "map_of ?u (g_seq g) = Some (s\<lparr>is_Bytes := n\<rparr>)" by (simp add: map_of_alist_update)
  have w: "weight f (AList.delete (g_seq g) ?u) = weight f (seen m) - f s" for f :: "InflightSlot \<Rightarrow> int"
    unfolding weight_delete [OF distinct_keys_update [OF dk] old] weight_update_old [OF dk assms(3)] by simp
  ultimately show ?thesis
    using assms(4,5) nd sq w [of heldB] w [of heldY]
    by (auto simp: Grant_Release_def releaseLocked_def m' totalB_def totalY_def heldB_def heldY_def
        inflight_def map_of_alist_delete)
qed

theorem release_after_consume_leaks_witness:
  "(let m = snd (Admit 1 0 (NewCreditManager 4 100 2));
        g = \<lparr>g_seq = 1, g_consumed = False, g_done = False, g_accepted = False\<rparr>;
        (_, g', m') = Grant_Consume 7 g m
    in totalB (snd (Grant_Release g' m')) = totalB m - 1)"
proof -
  let ?m = "snd (Admit 1 0 (NewCreditManager 4 100 2))"
  let ?g = "\<lparr>g_seq = 1, g_consumed = False, g_done = False, g_accepted = False\<rparr>"
  let ?s = "\<lparr>is_Seq = 1, is_Bytes = 0, is_Correlation = [], is_AddedAt = 0\<rparr>"
  have 1: "mgr_inv ?m" by (rule mgr_inv_Admit [OF mgr_inv_New]) simp
  have 2: "counters_ok ?m" "map_of (seen ?m) (g_seq ?g) = Some ?s"
    by (simp_all add: mgr_eval counters_ok_def totalB_def totalY_def heldB_def heldY_def)
  obtain g' m' where c: "Grant_Consume 7 ?g ?m = (None, g', m')"
    by (auto simp: mgr_eval)
  from release_after_consume_leaks [OF 1 2 _ _ c] have "totalB (snd (Grant_Release g' m')) = totalB ?m - 1" by simp
  with c show ?thesis unfolding Let_def by simp
qed

section \<open>The reaper's search\<close>

lemma older_simps:
  "older cutoff kv None = (if is_AddedAt (snd kv) < cutoff then Some kv else None)"
  "older cutoff kv (Some best) = (if is_AddedAt (snd kv) < cutoff \<and> fst kv < fst best then Some kv else Some best)"
  by (simp_all add: older_def case_prod_beta)

lemma older_None: "fold (older cutoff) al None = None \<Longrightarrow> kv \<in> set al \<Longrightarrow> cutoff \<le> is_AddedAt (snd kv)"
  by (induction al rule: rev_induct) (auto simp: older_def not_less split: if_splits option.splits)

lemma older_Some:
  assumes "fold (older cutoff) al None = Some kv"
  shows "kv \<in> set al \<and> is_AddedAt (snd kv) < cutoff \<and>
    (\<forall>kv' \<in> set al. is_AddedAt (snd kv') < cutoff \<longrightarrow> fst kv \<le> fst kv')"
  using assms
proof (induction al arbitrary: kv rule: rev_induct)
  case (snoc x al)
  show ?case
  proof (cases "fold (older cutoff) al None")
    case None
    then have "is_AddedAt (snd x) < cutoff" "kv = x"
      using snoc.prems by (auto simp: older_simps split: if_splits)
    moreover have "\<not> is_AddedAt (snd kv') < cutoff" if "kv' \<in> set al" for kv'
      using older_None [OF None that] by simp
    ultimately show ?thesis by auto
  next
    case (Some best)
    note IH = snoc.IH [OF Some]
    have "kv = (if is_AddedAt (snd x) < cutoff \<and> fst x < fst best then x else best)"
      using snoc.prems by (auto simp: older_simps Some split: if_splits)
    with IH show ?thesis by (auto split: if_splits intro: order.trans less_imp_le)
  qed
qed simp

text \<open>
  The reaper takes the stuck numbers in sequence order, whatever the iteration order of the map:
  \<open>OldestBefore\<close> returns the least in-flight number admitted before the cutoff with its slot, and
  nothing exactly when there is none.
\<close>

theorem OldestBefore_least:
  assumes "mgr_inv m"
  shows "OldestBefore cutoff m = Some (k, s) \<longleftrightarrow>
    map_of (seen m) k = Some s \<and> is_AddedAt s < cutoff \<and>
    (\<forall>k' s'. map_of (seen m) k' = Some s' \<and> is_AddedAt s' < cutoff \<longrightarrow> k \<le> k')"
proof -
  have dk: "distinct_keys (seen m)" using assms by (simp add: mgr_inv_def)
  then have mem: "(k, s) \<in> set (seen m) \<longleftrightarrow> map_of (seen m) k = Some s" for k s
    by (simp add: distinct_keys_def)
  show ?thesis
  proof (cases "OldestBefore cutoff m")
    case None
    then have "\<not> is_AddedAt s < cutoff" if "map_of (seen m) k = Some s" for k s
      using older_None [of cutoff "seen m" "(k, s)"] that by (simp add: OldestBefore_def mem not_less)
    with None show ?thesis by auto
  next
    case (Some r)
    obtain k0 s0 where r: "r = (k0, s0)" by (cases r)
    with older_Some [of cutoff "seen m" r] Some
    have o: "map_of (seen m) k0 = Some s0" "is_AddedAt s0 < cutoff"
      "\<And>k' s'. map_of (seen m) k' = Some s' \<Longrightarrow> is_AddedAt s' < cutoff \<Longrightarrow> k0 \<le> k'"
      by (auto simp: OldestBefore_def simp flip: mem)
    show ?thesis unfolding Some r using o by (metis Pair_inject antisym option.inject)
  qed
qed

theorem OldestBefore_least_witness:
  "OldestBefore 7 (mgr (foldl mop_step (init_pool 4 100 2) [MAdmit 5 1, MAdmit 3 2, MAdmit 1 9])) =
     Some (3, \<lparr>is_Seq = 3, is_Bytes = 0, is_Correlation = [], is_AddedAt = 2\<rparr>)"
proof -
  let ?m = "mgr (foldl mop_step (init_pool 4 100 2) [MAdmit 5 1, MAdmit 3 2, MAdmit 1 9])"
  have "mgr_inv ?m" using run_inv [of "[MAdmit 5 1, MAdmit 3 2, MAdmit 1 9]" 4 100 2]
    by (simp add: pool_inv_def del: foldl_Cons)
  from OldestBefore_least [OF this] show ?thesis by (simp add: mgr_eval)
qed

end
