(* ===== verification/BatchPath.thy ===== *)
theory BatchPath
  imports Handshake Conservation
begin

text \<open>
  The data side of a server connection: \<open>internal/protocol/handler_batch.go\<close> and \<open>internal/protocol/handler_sink.go\<close>. A
  batch is admitted, charged, opened, validated and delivered to the sink; every terminal answer goes through its grant. Each
  definition is what one goroutine does from its entry to its return; the interleaving of the critical sections
  underneath is the subject of the theory \<open>Interleave\<close>. Pointers to grants and callbacks are positions in the connection's heaps.
\<close>

section \<open>Grants of a connection\<close>

definition maxBatchEvents :: nat where "maxBatchEvents = 10000"
definition stuckInflightAge :: time where "stuckInflightAge = 60 * 10 ^ 9"

text \<open>The sender injected into the grants: encode and write one RESULT.\<close>

definition send_results :: "env \<Rightarrow> Result list \<Rightarrow> CoreHandler \<Rightarrow> CoreHandler" where
  "send_results E rs h = foldl (\<lambda>h r. post E (MResult r) h) h rs"

definition h_consume :: "nat \<Rightarrow> i64 \<Rightarrow> CoreHandler \<Rightarrow> go_err option \<times> CoreHandler" where
  "h_consume i n h = (case Grant_Consume n (ch_grants h ! i) (ch_credit h) of
     (e, g, m) \<Rightarrow> (e, h\<lparr>ch_credit := m, ch_grants := (ch_grants h)[i := g]\<rparr>))"

definition h_settle :: "env \<Rightarrow> nat \<Rightarrow> ResultLevel \<Rightarrow> u32 \<Rightarrow> u32 \<Rightarrow> i64 \<Rightarrow> CoreHandler \<Rightarrow> CoreHandler" where
  "h_settle E i level code retry n h = (case Grant_Settle True level code retry n (ch_grants h ! i) (ch_credit h) of
     (rs, g, m) \<Rightarrow> send_results E rs (h\<lparr>ch_credit := m, ch_grants := (ch_grants h)[i := g]\<rparr>))"

definition h_accept :: "env \<Rightarrow> nat \<Rightarrow> CoreHandler \<Rightarrow> CoreHandler" where
  "h_accept E i h = (case Grant_Accept True (ch_grants h ! i) (ch_credit h) of
     (rs, g) \<Rightarrow> send_results E rs (h\<lparr>ch_grants := (ch_grants h)[i := g]\<rparr>))"

definition h_release :: "nat \<Rightarrow> CoreHandler \<Rightarrow> CoreHandler" where
  "h_release i h = (case Grant_Release (ch_grants h ! i) (ch_credit h) of
     (g, m) \<Rightarrow> h\<lparr>ch_credit := m, ch_grants := (ch_grants h)[i := g]\<rparr>)"

definition h_backfill :: "nat \<Rightarrow> string \<Rightarrow> CoreHandler \<Rightarrow> CoreHandler" where
  "h_backfill i corr h = h\<lparr>ch_credit := Grant_Backfill corr (ch_grants h ! i) (ch_credit h)\<rparr>"

text \<open>An admission that yields a grant allocates it.\<close>

definition h_admit :: "u64 \<Rightarrow> time \<Rightarrow> CoreHandler \<Rightarrow> AdmitResult \<times> nat \<times> CoreHandler" where
  "h_admit seq now h = (case Admit seq now (ch_credit h) of
     (ar, m) \<Rightarrow> (ar, length (ch_grants h),
       h\<lparr>ch_credit := m, ch_grants := ch_grants h @ (case ar_Grant ar of Some g \<Rightarrow> [g] | None \<Rightarrow> [])\<rparr>))"

section \<open>Credit returns\<close>

text \<open>Arming the timer; while one is pending a second call does nothing.\<close>

definition maybeScheduleFlush :: "CoreHandler \<Rightarrow> CoreHandler" where
  "maybeScheduleFlush h = h\<lparr>ch_flushArmed := True\<rparr>"

definition flushPending :: "env \<Rightarrow> CoreHandler \<Rightarrow> CoreHandler" where
  "flushPending E h = (case TakeRecovered (ch_credit h) of
     ((b, y), m) \<Rightarrow>
       let h = h\<lparr>ch_credit := m\<rparr> in
       if sint b \<le> 0 \<and> sint y \<le> 0 then h else post E (MCredit \<lparr>cr_Batches = b, cr_Bytes = y\<rparr>) h)"

text \<open>What the timer runs.\<close>

definition flush_timer :: "env \<Rightarrow> CoreHandler \<Rightarrow> CoreHandler" where
  "flush_timer E h = flushPending E (h\<lparr>ch_flushArmed := False\<rparr>)"

definition abort :: "env \<Rightarrow> u32 \<Rightarrow> string \<Rightarrow> CoreHandler \<Rightarrow> CoreHandler" where
  "abort E code detail h = (post E (MAbort code detail) h)\<lparr>ch_closed := True\<rparr>"

definition rejectAtCapacity :: "env \<Rightarrow> time \<Rightarrow> bytes \<Rightarrow> CoreHandler \<Rightarrow> CoreHandler" where
  "rejectAtCapacity E now payload h =
    (case e_dec_envelope E payload of Inl _ \<Rightarrow> h | Inr en \<Rightarrow>
     case h_admit (en_Seq en) now h of (ar, i, h) \<Rightarrow>
     case ar_Decision ar of
       AdmitAccept \<Rightarrow>
         (case h_consume i (len64 payload) h of
            (Some _, h) \<Rightarrow> abort E CodeWindowExceeded ''credit exhausted'' h
          | (None, h) \<Rightarrow>
              maybeScheduleFlush (h_settle E i RESULT_LEVEL_RELEASED CodeServerDraining 1000 (len64 payload) h))
     | AdmitDuplicate \<Rightarrow> h | AdmitTerminalHit \<Rightarrow> h | AdmitBelowUnknown \<Rightarrow> h
     | AdmitViolation \<Rightarrow> abort E CodeWindowExceeded ''invalid seq'' h)"

text \<open>
  The reaper's loop. \<open>ForceSettle\<close> allocates a grant of its own and settles it; each round removes the slot it found, so the loop ends.
\<close>

definition force_one :: "env \<Rightarrow> u32 \<Rightarrow> u64 \<Rightarrow> InflightSlot \<Rightarrow> CoreHandler \<Rightarrow> CoreHandler" where
  "force_one E code seq slot h =
    (case ForceSettle True seq RESULT_LEVEL_RELEASED code 1000 (is_Bytes slot) (ch_credit h) of
       (rs, m) \<Rightarrow> send_results E rs (h\<lparr>ch_credit := m,
          ch_grants := ch_grants h @ [\<lparr>g_seq = seq, g_consumed = True, g_done = True, g_accepted = False\<rparr>]\<rparr>))"

lemma send_results_sel [simp]:
  "ch_credit (send_results E rs h) = ch_credit h" "ch_grants (send_results E rs h) = ch_grants h"
  "ch_keys (send_results E rs h) = ch_keys h" "ch_config (send_results E rs h) = ch_config h"
  "ch_sinkQueue (send_results E rs h) = ch_sinkQueue h" "ch_sinkQueuedBytes (send_results E rs h) = ch_sinkQueuedBytes h"
  "ch_sinkMaxBytes (send_results E rs h) = ch_sinkMaxBytes h" "ch_dones (send_results E rs h) = ch_dones h"
  "ch_closed (send_results E rs h) = ch_closed h"
proof -
  have "ch_credit (foldl (\<lambda>h r. post E (MResult r) h) h rs) = ch_credit h \<and> ch_grants (foldl (\<lambda>h r. post E (MResult r) h) h rs) = ch_grants h \<and>
    ch_keys (foldl (\<lambda>h r. post E (MResult r) h) h rs) = ch_keys h \<and> ch_config (foldl (\<lambda>h r. post E (MResult r) h) h rs) = ch_config h \<and>
    ch_sinkQueue (foldl (\<lambda>h r. post E (MResult r) h) h rs) = ch_sinkQueue h \<and>
    ch_sinkQueuedBytes (foldl (\<lambda>h r. post E (MResult r) h) h rs) = ch_sinkQueuedBytes h \<and>
    ch_sinkMaxBytes (foldl (\<lambda>h r. post E (MResult r) h) h rs) = ch_sinkMaxBytes h \<and>
    ch_dones (foldl (\<lambda>h r. post E (MResult r) h) h rs) = ch_dones h \<and> ch_closed (foldl (\<lambda>h r. post E (MResult r) h) h rs) = ch_closed h"
    by (induction rs arbitrary: h) (auto simp: post_eq)
  then show "ch_credit (send_results E rs h) = ch_credit h" "ch_grants (send_results E rs h) = ch_grants h"
    "ch_keys (send_results E rs h) = ch_keys h" "ch_config (send_results E rs h) = ch_config h"
    "ch_sinkQueue (send_results E rs h) = ch_sinkQueue h" "ch_sinkQueuedBytes (send_results E rs h) = ch_sinkQueuedBytes h"
    "ch_sinkMaxBytes (send_results E rs h) = ch_sinkMaxBytes h" "ch_dones (send_results E rs h) = ch_dones h"
    "ch_closed (send_results E rs h) = ch_closed h"
    unfolding send_results_def by blast+
qed

lemma Settle_seen_inflight:
  assumes "map_of (seen m) (g_seq g) = Some s" "\<not> g_done g"
  shows "seen (snd (snd (Grant_Settle send level code retry n g m))) = AList.delete (g_seq g) (seen m)"
  using assms by (simp add: Grant_Settle_def Let_def record_terminal_def advanceLowLocked_def split: prod.splits)

lemma ForceSettle_seen:
  assumes "map_of (seen m) k = Some s"
  shows "seen (snd (ForceSettle send k level code retry n m)) = AList.delete k (seen m)"
  using Settle_seen_inflight [of m "\<lparr>g_seq = k, g_consumed = True, g_done = False, g_accepted = False\<rparr>" s]
  by (simp add: ForceSettle_def force_lookup_def assms case_prod_beta)

lemma OldestBefore_in: "OldestBefore cutoff m = Some (k, s) \<Longrightarrow> (k, s) \<in> set (seen m) \<and> is_AddedAt s < cutoff"
proof -
  have "fold (older cutoff) al b = Some (k, s) \<Longrightarrow> b = Some (k, s) \<or> ((k, s) \<in> set al \<and> is_AddedAt s < cutoff)" for al b
    by (induction al arbitrary: b) (fastforce simp: older_def split: if_splits option.splits)+
  then show "OldestBefore cutoff m = Some (k, s) \<Longrightarrow> (k, s) \<in> set (seen m) \<and> is_AddedAt s < cutoff"
    unfolding OldestBefore_def by blast
qed

lemma length_delete_less: "k \<in> fst ` set al \<Longrightarrow> length (AList.delete k al) < length al"
  by (auto simp: AList.delete_eq intro!: length_filter_less)

function releaseStuck_loop :: "env \<Rightarrow> time \<Rightarrow> u32 \<Rightarrow> CoreHandler \<Rightarrow> CoreHandler" where
  "releaseStuck_loop E cutoff code h =
    (case OldestBefore cutoff (ch_credit h) of
       None \<Rightarrow> h
     | Some (seq, slot) \<Rightarrow> releaseStuck_loop E cutoff code (force_one E code seq slot h))"
  by pat_completeness auto
termination
proof (relation "measure (\<lambda>(E, cutoff, code, h). length (seen (ch_credit h)))")
  fix E cutoff code and h :: CoreHandler and x seq slot
  assume a: "OldestBefore cutoff (ch_credit h) = Some x" "(seq, slot) = x"
  then have i: "seq \<in> fst ` set (seen (ch_credit h))" using OldestBefore_in by force
  then obtain s where s: "map_of (seen (ch_credit h)) seq = Some s" by (metis map_of_eq_None_iff option.exhaust)
  have "ch_credit (force_one E code seq slot h) = snd (ForceSettle True seq RESULT_LEVEL_RELEASED code 1000 (is_Bytes slot) (ch_credit h))"
    by (simp add: force_one_def case_prod_beta)
  then have "seen (ch_credit (force_one E code seq slot h)) = AList.delete seq (seen (ch_credit h))"
    by (simp add: ForceSettle_seen [OF s])
  then show "((E, cutoff, code, force_one E code seq slot h), E, cutoff, code, h) \<in> measure (\<lambda>(E, cutoff, code, h). length (seen (ch_credit h)))"
    using length_delete_less [OF i] by simp
qed simp

declare releaseStuck_loop.simps [simp del]

definition releaseStuck :: "env \<Rightarrow> time \<Rightarrow> u32 \<Rightarrow> time \<Rightarrow> CoreHandler \<Rightarrow> CoreHandler" where
  "releaseStuck E now code age h = maybeScheduleFlush (releaseStuck_loop E (now - age) code h)"


section \<open>Opening and validating\<close>

text \<open>The error code, or the batch with its wire form.\<close>

definition decodeAndValidate :: "env \<Rightarrow> time \<Rightarrow> Envelope \<Rightarrow> byte \<Rightarrow> CoreHandler \<Rightarrow> u32 + (Batch \<times> bytes)" where
  "decodeAndValidate E now en frameType h =
    (if ch_keys h = None then Inl CodeInternal
     else if 0 < sint (ch_expiresAt h) \<and> sint (ch_expiresAt h) < sint (Unix now) then Inl CodeServerDraining
     else case OpenEnvelope (e_crypto E) (e_codecs E) frameType (ch_sessionID h) (ch_keys h) (hc_Zdict (ch_config h)) en of
       Inl _ \<Rightarrow> Inl CodeEnvelopeOpenFail
     | Inr batchWire \<Rightarrow>
     if sint (sp_MaxBatchBytes (hc_Policy (ch_config h))) < sint (len64 batchWire) then Inl CodeBatchTooLarge
     else case e_dec_batch E batchWire of
       Inl _ \<Rightarrow> Inl CodeBatchInvalid
     | Inr batch \<Rightarrow>
     if b_Seq batch \<noteq> en_Seq en then Inl CodeBatchInvalid
     else if maxBatchEvents < unat (b_EventsCount batch) then Inl CodeBatchInvalid
     else if ValidateBatchTraceContext (b_Trace batch) \<noteq> None then Inl CodeBatchInvalid
     else Inr (batch, batchWire))"

section \<open>Delivery\<close>

definition decodeSignalBatch :: "env \<Rightarrow> bytes \<Rightarrow> CoreHandler \<Rightarrow> SignalBatch res" where
  "decodeSignalBatch E raw h =
    UnmarshalSignalBatchCodec (e_signal_codecs E) (case ch_codec h of Some c \<Rightarrow> c | None \<Rightarrow> CODEC_PROTO) raw"

definition makeEvent :: "env \<Rightarrow> time \<Rightarrow> Batch \<Rightarrow> bytes \<Rightarrow> CoreHandler \<Rightarrow> BatchEvent" where
  "makeEvent E now batch raw h =
    \<lparr>ev_Agent = ch_agentID h, ev_Seq = b_Seq batch, ev_Correlation = b_Correlation batch, ev_EventsCount = b_EventsCount batch,
     ev_ReceivedAt = now, ev_Trace = b_Trace batch,
     ev_Decoded = (if hc_SinkRaw (ch_config h) then None
       else case decodeSignalBatch E (b_Payload batch) h of Inl _ \<Rightarrow> None | Inr sb \<Rightarrow> Some sb),
     ev_Raw = (if hc_SinkRaw (ch_config h) then Some raw else None)\<rparr>"

definition makeDone :: "nat \<Rightarrow> bool \<Rightarrow> CoreHandler \<Rightarrow> nat \<times> CoreHandler" where
  "makeDone grant durable h =
    (length (ch_dones h), h\<lparr>ch_dones := ch_dones h @ [\<lparr>dn_grant = grant, dn_durable = durable, dn_fired = False\<rparr>]\<rparr>)"

text \<open>Calling the callback \<open>d\<close>: the body runs once.\<close>

definition done_body :: "env \<Rightarrow> nat \<Rightarrow> Outcome \<Rightarrow> CoreHandler \<Rightarrow> CoreHandler" where
  "done_body E i oc h =
    (let code = (if oc_Code oc = 0 then CodeInternal else oc_Code oc) in
     maybeScheduleFlush
      (case oc_Level oc of
         OutcomeDurable \<Rightarrow> h_settle E i RESULT_LEVEL_DURABLE 0 0 0 h
       | OutcomeAccepted \<Rightarrow> h_settle E i RESULT_LEVEL_DURABLE 0 0 0 h
       | OutcomeReleased \<Rightarrow> h_settle E i RESULT_LEVEL_RELEASED code 1000 0 h
       | OutcomeRejected \<Rightarrow> h_settle E i RESULT_LEVEL_REJECTED code 0 0 h
       | OutcomeOther _ \<Rightarrow> h))"

definition call_done :: "env \<Rightarrow> nat \<Rightarrow> Outcome \<Rightarrow> CoreHandler \<Rightarrow> CoreHandler" where
  "call_done E d oc h =
    (let f = ch_dones h ! d in
     if dn_fired f then h
     else
       let h = h\<lparr>ch_dones := (ch_dones h)[d := f\<lparr>dn_fired := True\<rparr>]\<rparr>
       in if \<not> dn_durable f then h else done_body E (dn_grant f) oc h)"

definition released_internal :: Outcome where
  "released_internal = \<lparr>oc_Level = OutcomeReleased, oc_Code = CodeInternal, oc_RetryAfter = 0\<rparr>"

text \<open>
  The handler is called with the callback; a panic is turned into a release. The first definition is the part before the deadline, the second
  what follows it (nothing when the handler returned in time).
\<close>

definition handler_early :: "env \<Rightarrow> BatchEvent \<Rightarrow> nat \<Rightarrow> CoreHandler \<Rightarrow> CoreHandler" where
  "handler_early E ev d h = (case hc_SinkHandler (ch_config h) of None \<Rightarrow> h
     | Some f \<Rightarrow> foldl (\<lambda>h oc. call_done E d oc h) h (run_early (f ev)))"

definition handler_late :: "env \<Rightarrow> BatchEvent \<Rightarrow> nat \<Rightarrow> CoreHandler \<Rightarrow> CoreHandler" where
  "handler_late E ev d h = (case hc_SinkHandler (ch_config h) of None \<Rightarrow> h
     | Some f \<Rightarrow>
        let h = (case run_late (f ev) of None \<Rightarrow> h | Some os \<Rightarrow> foldl (\<lambda>h oc. call_done E d oc h) h os)
        in if run_panic (f ev) then call_done E d released_internal h else h)"

definition callHandler :: "env \<Rightarrow> BatchEvent \<Rightarrow> nat \<Rightarrow> CoreHandler \<Rightarrow> CoreHandler" where
  "callHandler E ev d h = handler_late E ev d (handler_early E ev d h)"

text \<open>\<open>closing\<close> says whether the connection starts its shutdown between the two looks at \<open>sinkDone\<close>.\<close>

definition enqueueSink :: "env \<Rightarrow> time \<Rightarrow> bool \<Rightarrow> nat \<Rightarrow> Batch \<Rightarrow> bytes \<Rightarrow> i64 \<Rightarrow> bool \<Rightarrow> CoreHandler \<Rightarrow> bool \<times> CoreHandler" where
  "enqueueSink E now closing grant batch batchWire frameBytes durable h =
    (case ch_sinkQueue h of
       None \<Rightarrow>
         let ev = makeEvent E now batch batchWire h; (d, h) = makeDone grant durable h
         in (True, callHandler E ev d h)
     | Some q \<Rightarrow>
         if ch_sinkDone h then (False, h)
         else
           let ev = makeEvent E now batch batchWire h; (d, h) = makeDone grant durable h;
               task = \<lparr>st_ev = ev, st_done = d, st_bytes = frameBytes, st_deadline = now + ch_sinkDeadline h\<rparr>
           in if sint (ch_sinkMaxBytes h) < sint (ch_sinkQueuedBytes h + frameBytes) then (False, h)
              else if length q < ch_sinkCap h then
                (\<not> closing, h\<lparr>ch_sinkQueuedBytes := ch_sinkQueuedBytes h + frameBytes, ch_sinkQueue := Some (q @ [task]),
                   ch_sinkDone := closing\<rparr>)
              else (False, h))"

definition deliver :: "env \<Rightarrow> time \<Rightarrow> bool \<Rightarrow> nat \<Rightarrow> Batch \<Rightarrow> bytes \<Rightarrow> i64 \<Rightarrow> CoreHandler \<Rightarrow> CoreHandler" where
  "deliver E now closing grant batch batchWire frameBytes h =
    (if hc_SinkHandler (ch_config h) = None then
       maybeScheduleFlush (h_settle E grant RESULT_LEVEL_ACCEPTED 0 0 frameBytes h)
     else
       let durable = (sp_AckMode (hc_Policy (ch_config h)) = ACK_MODE_DURABLE) in
       case enqueueSink E now closing grant batch batchWire frameBytes durable h of
         (False, h) \<Rightarrow> maybeScheduleFlush (h_settle E grant RESULT_LEVEL_RELEASED CodeServerDraining 1000 frameBytes h)
       | (True, h) \<Rightarrow>
           if durable then h_accept E grant h
           else maybeScheduleFlush (h_settle E grant RESULT_LEVEL_ACCEPTED 0 0 frameBytes h))"

text \<open>A receipt that touches neither outcome nor credit.\<close>

definition sendResult :: "env \<Rightarrow> Result \<Rightarrow> CoreHandler \<Rightarrow> CoreHandler" where
  "sendResult E r h = post E (MResult r) h"

definition receipt :: "u64 \<Rightarrow> ResultLevel \<Rightarrow> u32 \<Rightarrow> string \<Rightarrow> Result" where
  "receipt seq level code corr = \<lparr>r_RefSeq = seq, r_Level = level, r_Code = code, r_RetryHintMs = 0, r_Correlation = corr\<rparr>"

text \<open>The part of \<open>processBatch\<close> that owns a grant.\<close>

definition process_admitted :: "env \<Rightarrow> time \<Rightarrow> bool \<Rightarrow> Envelope \<Rightarrow> i64 \<Rightarrow> nat \<Rightarrow> CoreHandler \<Rightarrow> CoreHandler" where
  "process_admitted E now closing en frameBytes i h =
    (case h_consume i frameBytes h of
       (Some _, h) \<Rightarrow> abort E CodeWindowExceeded ''credit exhausted'' h
     | (None, h) \<Rightarrow>
       (case decodeAndValidate E now en TypeBatch h of
          Inl code \<Rightarrow>
            if code = CodeInternal then h_release i h
            else if code = CodeServerDraining then abort E code ''session expired'' h
            else maybeScheduleFlush (h_settle E i RESULT_LEVEL_REJECTED code 0 frameBytes h)
        | Inr (batch, batchWire) \<Rightarrow>
            deliver E now closing i batch batchWire frameBytes (h_backfill i (b_Correlation batch) h)))"

definition processBatch :: "env \<Rightarrow> time \<Rightarrow> bool \<Rightarrow> bytes \<Rightarrow> CoreHandler \<Rightarrow> CoreHandler" where
  "processBatch E now closing payload h =
    (case e_dec_envelope E payload of Inl _ \<Rightarrow> h | Inr en \<Rightarrow>
     case h_admit (en_Seq en) now h of (ar, i, h) \<Rightarrow>
     case ar_Decision ar of
       AdmitAccept \<Rightarrow> process_admitted E now closing en (len64 payload) i h
     | AdmitViolation \<Rightarrow> abort E CodeWindowExceeded ''invalid seq'' h
     | AdmitTerminalHit \<Rightarrow>
         (case ar_Terminal ar of None \<Rightarrow> h
          | Some t \<Rightarrow> sendResult E (receipt (en_Seq en) (te_Level t) (te_Code t) []) h)
     | AdmitBelowUnknown \<Rightarrow> sendResult E (receipt (en_Seq en) RESULT_LEVEL_RELEASED CodeInternal []) h
     | AdmitDuplicate \<Rightarrow>
         (case ar_DupSlot ar of None \<Rightarrow> h
          | Some s \<Rightarrow> sendResult E (receipt (en_Seq en) RESULT_LEVEL_ACCEPTED 0 (is_Correlation s)) h))"

section \<open>Sink workers\<close>

text \<open>
  A worker runs one task: when the deadline passes first, the release is reported before whatever the handler still reports. The bytes
  of the task are given back when it ends.
\<close>

definition runSinkTask :: "env \<Rightarrow> sinkTask \<Rightarrow> CoreHandler \<Rightarrow> CoreHandler" where
  "runSinkTask E t h =
    (let h = handler_early E (st_ev t) (st_done t) h;
         timedOut = (case hc_SinkHandler (ch_config h) of None \<Rightarrow> False | Some f \<Rightarrow> run_late (f (st_ev t)) \<noteq> None);
         h = (if timedOut then call_done E (st_done t) released_internal h else h);
         h = handler_late E (st_ev t) (st_done t) h
     in h\<lparr>ch_sinkQueuedBytes := ch_sinkQueuedBytes h - st_bytes t\<rparr>)"

definition sink_next :: "env \<Rightarrow> CoreHandler \<Rightarrow> CoreHandler" where
  "sink_next E h = (case ch_sinkQueue h of Some (t # q) \<Rightarrow> runSinkTask E t (h\<lparr>ch_sinkQueue := Some q\<rparr>) | _ \<Rightarrow> h)"

section \<open>Datagrams\<close>

text \<open>The token bucket; \<open>e_refill\<close> is the truncated float product of elapsed time and rate.\<close>

definition dgramAllow :: "env \<Rightarrow> time \<Rightarrow> i64 \<Rightarrow> CoreHandler \<Rightarrow> bool \<times> CoreHandler" where
  "dgramAllow E now n h =
    (if sint (ch_dgramRate h) \<le> 0 then (True, h)
     else
       let avail = (case ch_dgramLast h of
             None \<Rightarrow> ch_dgramRate h
           | Some prev \<Rightarrow>
               let a = ch_dgramAvail h + e_refill E (now - prev) (ch_dgramRate h)
               in if sint (ch_dgramRate h) < sint a then ch_dgramRate h else a);
           h = h\<lparr>ch_dgramLast := Some now, ch_dgramAvail := avail\<rparr>
       in if sint n \<le> sint avail then (True, h\<lparr>ch_dgramAvail := avail - n\<rparr>) else (False, h))"

text \<open>The callback of a datagram does nothing, so its outcomes do not appear.\<close>

definition processDatagram :: "env \<Rightarrow> time \<Rightarrow> bytes \<Rightarrow> CoreHandler \<Rightarrow> BatchEvent option \<times> CoreHandler" where
  "processDatagram E now payload h =
    (case dgramAllow E now (len64 payload) h of
       (False, h) \<Rightarrow> (None, h)
     | (True, h) \<Rightarrow>
       (case e_dec_envelope E payload of Inl _ \<Rightarrow> (None, h) | Inr en \<Rightarrow>
        case decodeAndValidate E now en TypeDgram h of Inl _ \<Rightarrow> (None, h)
        | Inr (batch, batchWire) \<Rightarrow>
            (if hc_SinkHandler (ch_config h) = None then None else Some (makeEvent E now batch batchWire h), h)))"

section \<open>The data loop and the end of the connection\<close>

text \<open>One data frame; the two flags say whether the batch semaphore and the datagram slots are full.\<close>

definition data_step :: "env \<Rightarrow> time \<Rightarrow> bool \<Rightarrow> bool \<Rightarrow> bool \<Rightarrow> byte \<Rightarrow> bytes \<Rightarrow> CoreHandler \<Rightarrow> CoreHandler" where
  "data_step E now semFull slotsFull closing ty payload h =
    (if ty = TypeBatch then (if semFull then rejectAtCapacity E now payload h else processBatch E now closing payload h)
     else if ty = TypeDgram then (if slotsFull then h else snd (processDatagram E now payload h))
     else h)"

text \<open>A tick of the reaper.\<close>

definition reaper_tick :: "env \<Rightarrow> time \<Rightarrow> CoreHandler \<Rightarrow> CoreHandler" where
  "reaper_tick E now h = releaseStuck E now CodeInternal stuckInflightAge h"

fun drain_sink :: "env \<Rightarrow> nat \<Rightarrow> CoreHandler \<Rightarrow> CoreHandler" where
  "drain_sink E 0 h = h"
| "drain_sink E (Suc n) h = drain_sink E n (sink_next E h)"

text \<open>
  What \<open>Handle\<close> does after its control loop returned: release what is in flight, stop and drain the sink (\<open>drained\<close>: the workers finish
  in time), wipe the keys when the data goroutines are gone (\<open>dataClean\<close>), then the deferred clean-up.
\<close>

definition Handle_end :: "env \<Rightarrow> nat \<Rightarrow> time \<Rightarrow> bool \<Rightarrow> bool \<Rightarrow> CoreHandler \<times> Shared \<Rightarrow> CoreHandler \<times> Shared" where
  "Handle_end E me now dataClean drained = (\<lambda>(h, sh).
    let h = releaseStuck E now CodeServerDraining 0 h;
        h = (case ch_sinkQueue h of None \<Rightarrow> h
             | Some q \<Rightarrow> let h = h\<lparr>ch_sinkDone := True\<rparr> in if drained then drain_sink E (length q) h else h);
        h = (if dataClean then h\<lparr>ch_keys := map_option Wipe (ch_keys h)\<rparr> else h);
        sh = (if hc_Commands (ch_config h) \<and> ch_authed h
              then sh\<lparr>sh_commands := Registry_unregister (ch_agentID h) me (sh_commands sh)\<rparr> else sh)
    in (notify SessionDisconnected (ch_agentID h) h, sh))"


section \<open>Answers\<close>

lemma send_results_wire:
  assumes "wire_ok E"
  shows "send_results E rs h = h\<lparr>ch_sent := ch_sent h @ map MResult rs\<rparr>"
proof -
  have "sendable E m" for m using assms by (simp add: wire_ok_def)
  then show ?thesis unfolding send_results_def by (induction rs arbitrary: h) (simp_all add: post_eq)
qed

lemma post_wire: "wire_ok E \<Longrightarrow> post E m h = h\<lparr>ch_sent := ch_sent h @ [m]\<rparr>"
  by (simp add: wire_ok_def post_eq)

text \<open>A grant that is still open and whose slot is in flight settles with exactly one RESULT for its number.\<close>

lemma Settle_open:
  assumes "map_of (seen m) (g_seq g) = Some s" "\<not> g_done g"
  shows "fst (Grant_Settle True level code retry n g m) =
    [\<lparr>r_RefSeq = g_seq g, r_Level = level, r_Code = code, r_RetryHintMs = retry, r_Correlation = is_Correlation s\<rparr>]"
  using assms by (simp add: Grant_Settle_def Let_def slot_corr_def split: prod.splits)

lemma h_settle_open:
  assumes "wire_ok E" "map_of (seen (ch_credit h)) (g_seq (ch_grants h ! i)) = Some s" "\<not> g_done (ch_grants h ! i)"
  shows "ch_sent (h_settle E i level code retry n h) = ch_sent h @
    [MResult \<lparr>r_RefSeq = g_seq (ch_grants h ! i), r_Level = level, r_Code = code, r_RetryHintMs = retry, r_Correlation = is_Correlation s\<rparr>]"
  using Settle_open [OF assms(2,3), of level code retry n]
  by (simp add: h_settle_def case_prod_beta send_results_wire [OF assms(1)])

text \<open>What admission and charging leave behind.\<close>

lemma h_admit_accept:
  assumes "h_admit seq now h = (ar, i, h')" "ar_Decision ar = AdmitAccept"
  shows "i = length (ch_grants h)"
    "h' = h\<lparr>ch_credit := ch_credit h\<lparr>seen := AList.update seq \<lparr>is_Seq = seq, is_Bytes = 0, is_Correlation = [], is_AddedAt = now\<rparr>
        (seen (ch_credit h))\<rparr>,
      ch_grants := ch_grants h @ [\<lparr>g_seq = seq, g_consumed = False, g_done = False, g_accepted = False\<rparr>]\<rparr>"
    "seq \<noteq> 0" "map_of (seen (ch_credit h)) seq = None"
  using assms by (auto simp: h_admit_def Admit_def split: if_splits option.splits)

lemma h_admit_other:
  assumes "h_admit seq now h = (ar, i, h')" "ar_Decision ar \<noteq> AdmitAccept"
  shows "h' = h"
    "ar_Decision ar = AdmitDuplicate \<Longrightarrow> \<exists>s. ar_DupSlot ar = Some s"
    "ar_Decision ar = AdmitTerminalHit \<Longrightarrow> \<exists>t. ar_Terminal ar = Some t"
  using assms by (auto simp: h_admit_def Admit_def split: if_splits option.splits)

text \<open>The state in which a batch is opened: its grant is open and its slot holds the frame's bytes.\<close>

definition charged :: "nat \<Rightarrow> u64 \<Rightarrow> i64 \<Rightarrow> CoreHandler \<Rightarrow> bool" where
  "charged i seq n h \<longleftrightarrow> i < length (ch_grants h) \<and> g_seq (ch_grants h ! i) = seq \<and> \<not> g_done (ch_grants h ! i) \<and>
     \<not> g_accepted (ch_grants h ! i) \<and> (\<exists>s. map_of (seen (ch_credit h)) seq = Some s \<and> is_Bytes s = n)"

lemma h_consume_charged:
  assumes "h_admit seq now h0 = (ar, i, h)" "ar_Decision ar = AdmitAccept" "h_consume i n h = (None, h')"
  shows "charged i seq n h'" "ch_sent h' = ch_sent h0" "ch_keys h' = ch_keys h0" "ch_config h' = ch_config h0"
    "ch_sinkQueue h' = ch_sinkQueue h0" "ch_closed h' = ch_closed h0"
  using h_admit_accept [OF assms(1,2)] assms(3)
  by (auto simp: h_consume_def Grant_Consume_def charged_def map_of_alist_update split: if_splits prod.splits)

lemma charged_backfill: "charged i seq n h \<Longrightarrow> charged i seq n (h_backfill i corr h)"
  by (auto simp: charged_def h_backfill_def Grant_Backfill_def map_of_alist_update)

lemma charged_settle_reply:
  assumes "wire_ok E" "charged i seq n h"
  shows "\<exists>c. ch_sent (h_settle E i level code retry k h) = ch_sent h @
    [MResult \<lparr>r_RefSeq = seq, r_Level = level, r_Code = code, r_RetryHintMs = retry, r_Correlation = c\<rparr>]"
  using assms h_settle_open [OF assms(1)] by (auto simp: charged_def)

lemma charged_accept_reply:
  assumes "wire_ok E" "charged i seq n h"
  shows "\<exists>c. ch_sent (h_accept E i h) = ch_sent h @
    [MResult \<lparr>r_RefSeq = seq, r_Level = RESULT_LEVEL_ACCEPTED, r_Code = 0, r_RetryHintMs = 0, r_Correlation = c\<rparr>]"
  using assms by (auto simp: charged_def h_accept_def Grant_Accept_def send_results_wire)

text \<open>With a queue in front of the sink, putting a task there neither answers nor settles anything.\<close>

lemma enqueue_queued:
  assumes "ch_sinkQueue h = Some q" "enqueueSink E now closing i b w n d h = (r, h')"
  shows "ch_sent h' = ch_sent h" "ch_credit h' = ch_credit h" "ch_grants h' = ch_grants h" "ch_config h' = ch_config h"
    "ch_keys h' = ch_keys h" "ch_closed h' = ch_closed h"
  using assms by (auto simp: enqueueSink_def makeDone_def Let_def split: if_splits)

lemma charged_cong: "ch_credit h' = ch_credit h \<Longrightarrow> ch_grants h' = ch_grants h \<Longrightarrow> charged i seq n h' = charged i seq n h"
  by (simp add: charged_def)

definition queued_sink :: "CoreHandler \<Rightarrow> bool" where
  "queued_sink h \<longleftrightarrow> hc_SinkHandler (ch_config h) = None \<or> ch_sinkQueue h \<noteq> None"

lemma flush_sent [simp]: "ch_sent (maybeScheduleFlush h) = ch_sent h" "ch_closed (maybeScheduleFlush h) = ch_closed h"
  "ch_credit (maybeScheduleFlush h) = ch_credit h" "ch_grants (maybeScheduleFlush h) = ch_grants h"
  by (simp_all add: maybeScheduleFlush_def)

lemma deliver_reply:
  assumes "wire_ok E" "charged i seq n h" "queued_sink h"
  shows "\<exists>r. ch_sent (deliver E now closing i b w n h) = ch_sent h @ [MResult r] \<and> r_RefSeq r = seq \<and>
    r_Level r \<in> {RESULT_LEVEL_ACCEPTED, RESULT_LEVEL_RELEASED}"
proof (cases "hc_SinkHandler (ch_config h)")
  case None
  then show ?thesis
    using charged_settle_reply [OF assms(1,2), of RESULT_LEVEL_ACCEPTED 0 0 n] by (auto simp: deliver_def)
next
  case (Some f)
  then obtain q where q: "ch_sinkQueue h = Some q" using assms(3) by (auto simp: queued_sink_def)
  let ?d = "sp_AckMode (hc_Policy (ch_config h)) = ACK_MODE_DURABLE"
  obtain r h' where e: "enqueueSink E now closing i b w n ?d h = (r, h')" by force
  note k = enqueue_queued [OF q e]
  have c: "charged i seq n h'" using assms(2) charged_cong [OF k(2,3)] by simp
  show ?thesis
    using charged_settle_reply [OF assms(1) c, of RESULT_LEVEL_RELEASED CodeServerDraining 1000 n]
      charged_settle_reply [OF assms(1) c, of RESULT_LEVEL_ACCEPTED 0 0 n] charged_accept_reply [OF assms(1) c] Some e k(1)
    by (cases r; cases ?d) (auto simp: deliver_def)
qed

lemma levels_valid [simp]:
  "ValidateResultLevel 1 = None" "ValidateResultLevel 2 = None" "ValidateResultLevel 3 = None" "ValidateResultLevel 4 = None"
  by (simp_all add: ValidateResultLevel_def)

text \<open>Exactly one message: a RESULT for this number, or an ABORT that closes the connection.\<close>

definition one_answer :: "u64 \<Rightarrow> CoreHandler \<Rightarrow> CoreHandler \<Rightarrow> bool" where
  "one_answer seq h h' \<longleftrightarrow> (\<exists>m. ch_sent h' = ch_sent h @ [m] \<and>
    ((\<exists>r. m = MResult r \<and> r_RefSeq r = seq \<and> ValidateResultLevel (r_Level r) = None) \<or>
     (\<exists>c d. m = MAbort c d \<and> c \<in> {CodeWindowExceeded, CodeServerDraining} \<and> ch_closed h')))"

lemma abort_answers:
  "wire_ok E \<Longrightarrow> ch_sent h' = ch_sent h \<Longrightarrow> c \<in> {CodeWindowExceeded, CodeServerDraining} \<Longrightarrow> one_answer seq h (abort E c d h')"
  by (simp add: one_answer_def abort_def post_wire)

lemma receipt_answers:
  "wire_ok E \<Longrightarrow> ValidateResultLevel lv = None \<Longrightarrow> one_answer seq h (sendResult E (receipt seq lv code corr) h)"
  by (simp add: one_answer_def sendResult_def receipt_def post_wire)

text \<open>A frame that is not admitted is answered from what is known of its number.\<close>

lemma refused_answer:
  assumes "wire_ok E" "e_dec_envelope E payload = Inr en" "h_admit (en_Seq en) now h = (ar, i, h1)" "ar_Decision ar \<noteq> AdmitAccept"
    and "\<forall>t \<in> ran (terminal (ch_credit h)). ValidateResultLevel (te_Level t) = None"
  shows "one_answer (en_Seq en) h (processBatch E now closing payload h)"
proof -
  note o = h_admit_other [OF assms(3,4)] and r = receipt_answers [OF assms(1)]
  have t: "ValidateResultLevel (te_Level t) = None" if "ar_Terminal ar = Some t" for t
    using assms(3,5) that by (auto simp: h_admit_def Admit_def ran_def split: if_splits option.splits)
  show ?thesis
  proof (cases "ar_Decision ar")
    case AdmitDuplicate
    then show ?thesis using o(1,2) assms(2,3) r [of RESULT_LEVEL_ACCEPTED] by (auto simp: processBatch_def)
  next
    case AdmitTerminalHit
    then show ?thesis using o(1,3) assms(2,3) t r by (auto simp: processBatch_def)
  next
    case AdmitBelowUnknown
    then show ?thesis using o(1) assms(2,3) r [of RESULT_LEVEL_RELEASED] by (simp add: processBatch_def)
  next
    case AdmitViolation
    then show ?thesis using o(1) assms(2,3) abort_answers [OF assms(1), of h h] by (simp add: processBatch_def)
  qed (use assms(4) in simp)
qed

text \<open>An admitted frame is charged, or the connection is aborted; then its fate decides.\<close>

lemma admitted_answer:
  assumes "wire_ok E" "h_admit (en_Seq en) now h = (ar, i, h1)" "ar_Decision ar = AdmitAccept" "ch_keys h \<noteq> None" "queued_sink h"
  shows "one_answer (en_Seq en) h (process_admitted E now closing en len i h1)"
proof -
  obtain e h2 where co: "h_consume i len h1 = (e, h2)" by force
  show ?thesis
  proof (cases e)
    case (Some x)
    have "ch_sent h2 = ch_sent h" using co h_admit_accept(2) [OF assms(2,3)] by (auto simp: h_consume_def split: prod.splits)
    then show ?thesis using abort_answers [OF assms(1), of h2 h] co Some by (simp add: process_admitted_def)
  next
    case None
    note ch = h_consume_charged [OF assms(2,3) co [unfolded None]]
    have q: "queued_sink (h_backfill i corr h2)" for corr using assms(5) ch(4,5) by (simp add: queued_sink_def h_backfill_def)
    have ni: "code \<noteq> CodeInternal" if "decodeAndValidate E now en TypeBatch h2 = Inl code" for code
      using that assms(4) ch(3) by (auto simp: decodeAndValidate_def split: if_splits sum.splits)
    have "one_answer (en_Seq en) h (deliver E now closing i b w len (h_backfill i corr h2))" for b w corr
      using deliver_reply [OF assms(1) charged_backfill [OF ch(1)] q, of now closing b w corr] ch(2) by (auto simp: one_answer_def h_backfill_def)
    moreover have "one_answer (en_Seq en) h (maybeScheduleFlush (h_settle E i RESULT_LEVEL_REJECTED code 0 len h2))" for code
      using charged_settle_reply [OF assms(1) ch(1), of RESULT_LEVEL_REJECTED code 0 len] ch(2) by (auto simp: one_answer_def)
    ultimately show ?thesis using abort_answers [OF assms(1), of h2 h] ch(2) co None ni by (auto simp: process_admitted_def split: sum.splits)
  qed
qed


text \<open>A connection after its handshake on which the theorems apply, without a sink and with a queue in front of one.\<close>

definition demo_data_env :: env where
  "demo_data_env = demo_env\<lparr>e_dec_envelope := (\<lambda>p. Inr \<lparr>en_KeyEpoch = 1, en_Seq = word_of_nat (length p), en_Compression = COMPRESSION_NONE,
     en_Ciphertext = p, en_Mac = []\<rparr>)\<rparr>"

definition demo_conn :: CoreHandler where
  "demo_conn = demo_handler\<lparr>ch_keys := Some demo_keys\<rparr>"

definition demo_sink_conn :: CoreHandler where
  "demo_sink_conn = demo_conn\<lparr>ch_config := demo_config\<lparr>hc_SinkHandler := Some (\<lambda>_. \<lparr>run_early = [], run_late = None, run_panic = True\<rparr>)\<rparr>,
     ch_sinkQueue := Some [], ch_sinkCap := 4, ch_sinkMaxBytes := 100,
     ch_dones := [\<lparr>dn_grant = 0, dn_durable = False, dn_fired = False\<rparr>]\<rparr>"

lemma demo_data_wire: "wire_ok demo_data_env"
  using demo_wire by (simp add: wire_ok_def sendable_def demo_data_env_def)

lemma demo_conn_simps [simp]:
  "ch_keys demo_conn = Some demo_keys" "queued_sink demo_conn" "ch_sent demo_conn = []" "ch_grants demo_conn = []" "ch_dones demo_conn = []"
  "ch_credit demo_conn = NewCreditManager DefaultInitialCreditBatches DefaultInitialCreditBytes 256" "ch_sinkQueuedBytes demo_conn = 0"
  "ch_dgramLast demo_conn = None"
  by (simp_all add: demo_conn_def queued_sink_def demo_config_def demo_handler_def NewCoreHandler_def initSinkQueue_def DefaultServerPolicy_def)


end
