(* ===== verification/ConnectionCredit.thy ===== *)
theory ConnectionCredit
  imports BatchPath
begin

text \<open>
  Flow control of a whole connection: the handlers of \<open>internal/protocol/handler_batch.go\<close>, the reaper, the flush timer and the sink's callbacks
  as schedules of the credit manager of \<open>core/credit.go\<close>, and the conservation of credit over everything that can happen to a connection.
\<close>

section \<open>Credit of a connection\<close>

text \<open>
  The handlers as schedules of the credit manager. A pool of the theory \<open>Interleave\<close> with the connection's manager and grants goes
  along with every handler, so that its invariant and the conservation of credit hold for the connection.
\<close>

definition credit_ok :: "int \<Rightarrow> int \<Rightarrow> CoreHandler \<Rightarrow> bool" where
  "credit_ok b y h \<longleftrightarrow> (\<exists>p. pool_inv p \<and> balanced b y (mgr p) \<and> mgr p = ch_credit h \<and> grants p = ch_grants h)"

definition slots_charged :: "CoreHandler \<Rightarrow> bool" where
  "slots_charged h \<longleftrightarrow> (\<forall>(k, s) \<in> set (seen (ch_credit h)). 0 < sint (is_Bytes s))"

text \<open>One step of the manager.\<close>

lemma credit_ok_step:
  assumes "pool_inv p" "balanced b y (mgr p)" "mop_ok op" "disciplined p op"
    and "mgr (mop_step p op) = ch_credit h'" "grants (mop_step p op) = ch_grants h'"
  shows "credit_ok b y h'"
  unfolding credit_ok_def using assms pool_inv_step balanced_step by blast

lemma credit_ok_cong: "ch_credit h' = ch_credit h \<Longrightarrow> ch_grants h' = ch_grants h \<Longrightarrow> credit_ok b y h' = credit_ok b y h"
  by (simp add: credit_ok_def)

lemma slots_charged_cong: "ch_credit h' = ch_credit h \<Longrightarrow> slots_charged h' = slots_charged h"
  by (simp add: slots_charged_def)

lemma credit_ok_settle:
  assumes "credit_ok b y h" "i < length (ch_grants h)"
    and "effective (ch_grants h ! i) (ch_credit h) \<Longrightarrow>
      \<exists>s. map_of (seen (ch_credit h)) (g_seq (ch_grants h ! i)) = Some s \<and> 0 < sint (is_Bytes s)"
  shows "credit_ok b y (h_settle E i level code retry n h)"
proof -
  obtain p where p: "pool_inv p" "balanced b y (mgr p)" "mgr p = ch_credit h" "grants p = ch_grants h"
    using assms(1) unfolding credit_ok_def by blast
  show ?thesis
  proof (rule credit_ok_step [OF p(1,2), of "MSettle i True level code retry n"])
    show "disciplined p (MSettle i True level code retry n)" using assms(3) p by auto
  qed (use p assms(2) in \<open>simp_all add: h_settle_def case_prod_beta\<close>)
qed

lemma slots_charged_settle: "slots_charged h \<Longrightarrow> slots_charged (h_settle E i level code retry n h)"
proof -
  assume s: "slots_charged h"
  have "set (seen (snd (snd (Grant_Settle send level code retry n g m)))) \<subseteq> set (seen m)" for send g m
    using set_alist_delete [of "g_seq g" "seen m"]
    by (auto simp: Grant_Settle_def Let_def record_terminal_def advanceLowLocked_def split: prod.splits if_splits)
  then show ?thesis using s unfolding slots_charged_def h_settle_def by (simp add: case_prod_beta) blast
qed

lemma credit_ok_admit:
  assumes "credit_ok b y h" "seq \<noteq> -1" "h_admit seq now h = (ar, i, h')"
  shows "credit_ok b y h'"
proof -
  obtain p where p: "pool_inv p" "balanced b y (mgr p)" "mgr p = ch_credit h" "grants p = ch_grants h"
    using assms(1) unfolding credit_ok_def by blast
  show ?thesis
    by (rule credit_ok_step [OF p(1,2), of "MAdmit seq now"]) (use assms(2,3) p in \<open>auto simp: h_admit_def case_prod_beta\<close>)
qed

lemma credit_ok_consume:
  assumes "credit_ok b y h" "seq \<noteq> -1" "0 < sint n" "h_admit seq now h = (ar, i, h1)" "ar_Decision ar = AdmitAccept"
    and "h_consume i n h1 = (e, h2)"
  shows "credit_ok b y h2"
proof -
  note a = h_admit_accept [OF assms(4,5)]
  obtain p where p: "pool_inv p" "balanced b y (mgr p)" "mgr p = ch_credit h1" "grants p = ch_grants h1"
    using credit_ok_admit [OF assms(1,2,4)] unfolding credit_ok_def by blast
  have g: "ch_grants h1 ! i = \<lparr>g_seq = seq, g_consumed = False, g_done = False, g_accepted = False\<rparr>" "i < length (ch_grants h1)"
    using a by simp_all
  have m: "map_of (seen (ch_credit h1)) seq = Some \<lparr>is_Seq = seq, is_Bytes = 0, is_Correlation = [], is_AddedAt = now\<rparr>"
    using a by (simp add: map_of_alist_update)
  show ?thesis
  proof (rule credit_ok_step [OF p(1,2), of "MConsume i n"])
    show "disciplined p (MConsume i n)" using assms(3) p g m by simp
  qed (use p g assms(6) in \<open>auto simp: h_consume_def case_prod_beta\<close>)
qed

lemma slots_charged_consume:
  assumes "slots_charged h" "0 < sint n" "h_admit seq now h = (ar, i, h1)" "ar_Decision ar = AdmitAccept" "h_consume i n h1 = (e, h2)"
  shows "slots_charged h2"
proof -
  note a = h_admit_accept [OF assms(3,4)]
  let ?v = "\<lparr>is_Seq = seq, is_Bytes = 0, is_Correlation = [], is_AddedAt = now\<rparr>"
  have old: "\<forall>(k, s) \<in> set (seen (ch_credit h)). 0 < sint (is_Bytes s)" using assms(1) by (simp add: slots_charged_def)
  note dr = delete_update_fresh [OF a(4)]
  have new: "\<forall>(k, s) \<in> set (AList.update seq \<lparr>is_Seq = seq, is_Bytes = n, is_Correlation = [], is_AddedAt = now\<rparr> (seen (ch_credit h))).
      0 < sint (is_Bytes s)"
    using old assms(2) by (intro alist_update_all) simp_all
  show ?thesis
    using assms(5) old new a(4)
    by (auto simp: slots_charged_def h_consume_def Grant_Consume_def a(1,2) releaseLocked_def map_of_alist_update dr split: if_splits prod.splits)
qed

lemma credit_ok_backfill:
  assumes "credit_ok b y h" "i < length (ch_grants h)"
  shows "credit_ok b y (h_backfill i corr h)"
proof -
  obtain p where p: "pool_inv p" "balanced b y (mgr p)" "mgr p = ch_credit h" "grants p = ch_grants h"
    using assms(1) unfolding credit_ok_def by blast
  show ?thesis
    by (rule credit_ok_step [OF p(1,2), of "MBackfill i corr"]) (use p assms(2) in \<open>simp_all add: h_backfill_def\<close>)
qed

lemma credit_ok_accept:
  assumes "credit_ok b y h" "i < length (ch_grants h)"
  shows "credit_ok b y (h_accept E i h)"
proof -
  obtain p where p: "pool_inv p" "balanced b y (mgr p)" "mgr p = ch_credit h" "grants p = ch_grants h"
    using assms(1) unfolding credit_ok_def by blast
  show ?thesis
    by (rule credit_ok_step [OF p(1,2), of "MAccept i True"]) (use p assms(2) in \<open>simp_all add: h_accept_def case_prod_beta\<close>)
qed

lemma credit_ok_flush:
  assumes "credit_ok b y h"
  shows "credit_ok b y (flush_timer E h)"
proof -
  obtain p where p: "pool_inv p" "balanced b y (mgr p)" "mgr p = ch_credit h" "grants p = ch_grants h"
    using assms(1) unfolding credit_ok_def by blast
  show ?thesis
    by (rule credit_ok_step [OF p(1,2), of MTake]) (use p in \<open>auto simp: flush_timer_def flushPending_def Let_def post_eq split: prod.splits\<close>)
qed


lemma slots_charged_sub: "slots_charged h \<Longrightarrow> set (seen (ch_credit h')) \<subseteq> set (seen (ch_credit h)) \<Longrightarrow> slots_charged h'"
  unfolding slots_charged_def by blast

lemma force_one_sel:
  assumes "map_of (seen (ch_credit h)) seq = Some s"
  shows "seen (ch_credit (force_one E code seq slot h)) = AList.delete seq (seen (ch_credit h))"
    "ch_keys (force_one E code seq slot h) = ch_keys h" "ch_config (force_one E code seq slot h) = ch_config h"
    "ch_sinkQueue (force_one E code seq slot h) = ch_sinkQueue h" "ch_dones (force_one E code seq slot h) = ch_dones h"
    "length (ch_grants (force_one E code seq slot h)) = Suc (length (ch_grants h))"
  using ForceSettle_seen [OF assms] by (simp_all add: force_one_def case_prod_beta)

lemma credit_ok_force:
  assumes "credit_ok b y h" "map_of (seen (ch_credit h)) seq = Some s" "0 < sint (is_Bytes s)"
  shows "credit_ok b y (force_one E code seq slot h)"
proof -
  obtain p where p: "pool_inv p" "balanced b y (mgr p)" "mgr p = ch_credit h" "grants p = ch_grants h"
    using assms(1) unfolding credit_ok_def by blast
  let ?g = "\<lparr>g_seq = seq, g_consumed = True, g_done = False, g_accepted = False\<rparr>"
  let ?q = "mop_step p (MForce seq True (is_Bytes slot))"
  have q: "mgr ?q = ch_credit h" "grants ?q = ch_grants h @ [?g]" "pool_inv ?q" "balanced b y (mgr ?q)"
    using p pool_inv_step [OF p(1), of "MForce seq True (is_Bytes slot)"] balanced_step [OF p(1,2), of "MForce seq True (is_Bytes slot)"] assms(2)
    by (auto simp: force_lookup_def)
  show ?thesis
    by (rule credit_ok_step [OF q(3,4), of "MSettle (length (ch_grants h)) True RESULT_LEVEL_RELEASED code 1000 (is_Bytes s)"])
      (use assms(2,3) q(1,2) in \<open>auto simp: force_one_def ForceSettle_def force_lookup_def case_prod_beta Grant_Settle_def Let_def nth_append
        split: prod.splits\<close>)
qed


section \<open>A connection's credit over time\<close>

definition conn_inv :: "int \<Rightarrow> int \<Rightarrow> CoreHandler \<Rightarrow> bool" where
  "conn_inv b y h \<longleftrightarrow> credit_ok b y h \<and> slots_charged h \<and> (\<forall>f \<in> set (ch_dones h). dn_grant f < length (ch_grants h)) \<and>
     ch_keys h \<noteq> None \<and> queued_sink h"

text \<open>What happens on a connection after its handshake: a BATCH frame, a round of the reaper, the flush timer, a call of a sink callback.\<close>

datatype conn_op =
    OpBatch time bool bool bytes
  | OpStuck time u32 time
  | OpFlush
  | OpDone nat Outcome

fun conn_step :: "env \<Rightarrow> CoreHandler \<Rightarrow> conn_op \<Rightarrow> CoreHandler" where
  "conn_step E h (OpBatch now semFull closing payload) = data_step E now semFull False closing TypeBatch payload h"
| "conn_step E h (OpStuck now code age) = releaseStuck E now code age h"
| "conn_step E h OpFlush = flush_timer E h"
| "conn_step E h (OpDone d oc) = call_done E d oc h"

text \<open>
  What the theorem asks of a schedule: a frame is not empty, fits an \<open>int64\<close> and does not carry the last number; a callback that is
  still to settle something finds its slot in flight or its outcome in the ring (the late callback of
  \<open>late_settle_recovers_twice\<close> is excluded).
\<close>

definition timely :: "nat \<Rightarrow> CoreHandler \<Rightarrow> bool" where
  "timely d h \<longleftrightarrow> d < length (ch_dones h) \<and>
     (let g = ch_grants h ! dn_grant (ch_dones h ! d) in effective g (ch_credit h) \<longrightarrow> g_seq g \<in> inflight (ch_credit h))"

fun conn_op_ok :: "env \<Rightarrow> CoreHandler \<Rightarrow> conn_op \<Rightarrow> bool" where
  "conn_op_ok E h (OpBatch now semFull closing payload) \<longleftrightarrow> 0 < length payload \<and> length payload < 2 ^ 63 \<and>
     (case e_dec_envelope E payload of Inl _ \<Rightarrow> True | Inr en \<Rightarrow> en_Seq en \<noteq> -1)"
| "conn_op_ok E h (OpDone d oc) \<longleftrightarrow> timely d h"
| "conn_op_ok E h _ \<longleftrightarrow> True"

fun conn_run_ok :: "env \<Rightarrow> CoreHandler \<Rightarrow> conn_op list \<Rightarrow> bool" where
  "conn_run_ok E h [] = True"
| "conn_run_ok E h (op # ops) = (conn_op_ok E h op \<and> conn_run_ok E (conn_step E h op) ops)"

lemma conn_inv_cong:
  assumes "conn_inv b y h" "ch_credit h' = ch_credit h" "ch_grants h' = ch_grants h" "ch_dones h' = ch_dones h" "ch_keys h' = ch_keys h"
    "queued_sink h'"
  shows "conn_inv b y h'"
  using assms credit_ok_cong [OF assms(2,3)] slots_charged_cong [OF assms(2)] by (simp add: conn_inv_def)

lemma abort_sel [simp]: "ch_credit (abort E c d h) = ch_credit h" "ch_grants (abort E c d h) = ch_grants h"
  "ch_dones (abort E c d h) = ch_dones h" "ch_keys (abort E c d h) = ch_keys h" "queued_sink (abort E c d h) = queued_sink h"
  by (simp_all add: abort_def post_eq queued_sink_def)

lemma conn_inv_abort: "conn_inv b y h \<Longrightarrow> conn_inv b y (abort E c d h)"
  using conn_inv_cong [of b y h "abort E c d h"] by (simp add: conn_inv_def)

lemma conn_inv_sendResult: "conn_inv b y h \<Longrightarrow> conn_inv b y (sendResult E r h)"
  using conn_inv_cong [of b y h "sendResult E r h"] by (simp add: sendResult_def post_eq conn_inv_def queued_sink_def)

lemma conn_inv_flag: "conn_inv b y h \<Longrightarrow> conn_inv b y (maybeScheduleFlush h)"
  using conn_inv_cong [of b y h "maybeScheduleFlush h"] by (simp add: maybeScheduleFlush_def conn_inv_def queued_sink_def)

lemma h_settle_sel [simp]: "ch_dones (h_settle E i l c r n h) = ch_dones h" "ch_keys (h_settle E i l c r n h) = ch_keys h"
  "length (ch_grants (h_settle E i l c r n h)) = length (ch_grants h)" "queued_sink (h_settle E i l c r n h) = queued_sink h"
  by (simp_all add: h_settle_def case_prod_beta queued_sink_def)

lemma conn_inv_settle:
  assumes "conn_inv b y h" "i < length (ch_grants h)"
    and "effective (ch_grants h ! i) (ch_credit h) \<Longrightarrow> g_seq (ch_grants h ! i) \<in> inflight (ch_credit h)"
  shows "conn_inv b y (h_settle E i l c r n h)"
proof -
  have "\<exists>s. map_of (seen (ch_credit h)) (g_seq (ch_grants h ! i)) = Some s \<and> 0 < sint (is_Bytes s)"
    if e: "effective (ch_grants h ! i) (ch_credit h)"
  proof -
    obtain s where s: "map_of (seen (ch_credit h)) (g_seq (ch_grants h ! i)) = Some s"
      using assms(3) [OF e] by (auto simp: inflight_def)
    then show ?thesis using assms(1) map_of_SomeD [OF s] by (fastforce simp: conn_inv_def slots_charged_def)
  qed
  then show ?thesis using assms(1,2) credit_ok_settle slots_charged_settle by (simp add: conn_inv_def)
qed

lemma conn_inv_done:
  assumes "conn_inv b y h" "timely d h"
  shows "conn_inv b y (call_done E d oc h)"
proof -
  let ?f = "ch_dones h ! d" let ?h = "h\<lparr>ch_dones := (ch_dones h)[d := ?f\<lparr>dn_fired := True\<rparr>]\<rparr>"
  have d: "d < length (ch_dones h)" using assms(2) by (simp add: timely_def)
  have g: "dn_grant ?f < length (ch_grants h)" using assms(1) d by (simp add: conn_inv_def)
  have i: "conn_inv b y ?h"
  proof -
    have "\<forall>f \<in> set ((ch_dones h)[d := ?f\<lparr>dn_fired := True\<rparr>]). dn_grant f < length (ch_grants h)"
      using assms(1) g set_update_subset_insert [of "ch_dones h" d] by (fastforce simp: conn_inv_def)
    then show ?thesis using assms(1) by (simp add: conn_inv_def credit_ok_def slots_charged_def queued_sink_def)
  qed
  have "conn_inv b y (h_settle E (dn_grant ?f) l c r n ?h)" for l c r n
    by (rule conn_inv_settle [OF i]) (use g assms(2) in \<open>auto simp: timely_def Let_def\<close>)
  then show ?thesis
    using assms(1) i conn_inv_flag by (simp add: call_done_def done_body_def Let_def split: OutcomeLevel.splits)
qed

lemma conn_inv_force:
  assumes "conn_inv b y h" "OldestBefore cutoff (ch_credit h) = Some (seq, slot)"
  shows "conn_inv b y (force_one E code seq slot h)"
proof -
  have "seq \<in> fst ` set (seen (ch_credit h))" using OldestBefore_in [OF assms(2)] by force
  then obtain s where s: "map_of (seen (ch_credit h)) seq = Some s" by (metis map_of_eq_None_iff option.exhaust)
  have c: "0 < sint (is_Bytes s)" using assms(1) map_of_SomeD [OF s] by (fastforce simp: conn_inv_def slots_charged_def)
  note f = force_one_sel [OF s, of E code slot]
  have "credit_ok b y (force_one E code seq slot h)" using credit_ok_force [OF _ s c] assms(1) by (simp add: conn_inv_def)
  moreover have "slots_charged (force_one E code seq slot h)"
    using assms(1) f(1) set_alist_delete [of seq "seen (ch_credit h)"] slots_charged_sub [of h "force_one E code seq slot h"]
    by (simp add: conn_inv_def)
  ultimately show ?thesis using assms(1) f(2-) by (auto simp: conn_inv_def queued_sink_def)
qed

lemma conn_inv_stuck: "conn_inv b y h \<Longrightarrow> conn_inv b y (releaseStuck E now code age h)"
proof -
  assume "conn_inv b y h"
  then have "conn_inv b y (releaseStuck_loop E cutoff code h)" for cutoff
  proof (induction E cutoff code h rule: releaseStuck_loop.induct)
    case (1 E cutoff code h)
    show ?case
    proof (cases "OldestBefore cutoff (ch_credit h)")
      case None
      with 1(2) show ?thesis by (simp add: releaseStuck_loop.simps [of E cutoff code h])
    next
      case (Some x)
      obtain seq slot where x: "x = (seq, slot)" by force
      from 1(1) [OF Some x [symmetric] conn_inv_force [OF 1(2) Some [unfolded x]]] show ?thesis
        using Some x by (simp add: releaseStuck_loop.simps [of E cutoff code h])
    qed
  qed
  then show ?thesis unfolding releaseStuck_def by (rule conn_inv_flag)
qed

lemma len64_pos: "0 < length p \<Longrightarrow> length p < 2 ^ 63 \<Longrightarrow> 0 < sint (len64 p)"
  by (simp add: sint_len64)

text \<open>Between admission and its end a grant of a frame is charged, so every way out of \<open>processBatch\<close> keeps the invariant.\<close>

lemma h_admit_sel:
  assumes "h_admit seq now h = (ar, i, h1)"
  shows "ch_dones h1 = ch_dones h" "ch_keys h1 = ch_keys h" "queued_sink h1 = queued_sink h" "length (ch_grants h) \<le> length (ch_grants h1)"
  using assms by (auto simp: h_admit_def queued_sink_def split: prod.splits)

lemma h_consume_sel:
  assumes "h_consume i n h = (e, h2)"
  shows "ch_dones h2 = ch_dones h" "ch_keys h2 = ch_keys h" "queued_sink h2 = queued_sink h" "length (ch_grants h2) = length (ch_grants h)"
  using assms by (auto simp: h_consume_def queued_sink_def split: prod.splits)

lemma conn_inv_consume:
  assumes "conn_inv b y h" "seq \<noteq> -1" "0 < sint n" "h_admit seq now h = (ar, i, h1)" "ar_Decision ar = AdmitAccept"
    and "h_consume i n h1 = (e, h2)"
  shows "conn_inv b y h2"
  using assms credit_ok_consume [OF _ assms(2,3,4,5,6)] slots_charged_consume [OF _ assms(3,4,5,6)] h_admit_sel [OF assms(4)] h_consume_sel [OF assms(6)]
  unfolding conn_inv_def by (metis order_less_le_trans)

lemma conn_inv_settle_charged: "conn_inv b y h \<Longrightarrow> charged i seq n h \<Longrightarrow> conn_inv b y (h_settle E i l c r k h)"
  by (rule conn_inv_settle) (auto simp: charged_def inflight_def)

lemma conn_inv_backfill: "conn_inv b y h \<Longrightarrow> i < length (ch_grants h) \<Longrightarrow> conn_inv b y (h_backfill i corr h)"
proof -
  assume a: "conn_inv b y h" "i < length (ch_grants h)"
  have "slots_charged (h_backfill i corr h)"
  proof (cases "map_of (seen (ch_credit h)) (g_seq (ch_grants h ! i))")
    case None
    with a(1) show ?thesis by (simp add: conn_inv_def slots_charged_def h_backfill_def Grant_Backfill_def)
  next
    case (Some s)
    have "0 < sint (is_Bytes s)" using a(1) map_of_SomeD [OF Some] by (fastforce simp: conn_inv_def slots_charged_def)
    then have "\<forall>(k, s) \<in> set (AList.update (g_seq (ch_grants h ! i)) (s\<lparr>is_Correlation := corr\<rparr>) (seen (ch_credit h))). 0 < sint (is_Bytes s)"
      using a(1) by (intro alist_update_all) (simp_all add: conn_inv_def slots_charged_def)
    with Some show ?thesis by (simp add: slots_charged_def h_backfill_def Grant_Backfill_def)
  qed
  then show ?thesis using a credit_ok_backfill by (simp add: conn_inv_def h_backfill_def queued_sink_def)
qed

lemma conn_inv_accept: "conn_inv b y h \<Longrightarrow> i < length (ch_grants h) \<Longrightarrow> conn_inv b y (h_accept E i h)"
  using credit_ok_accept [of b y h i E] slots_charged_cong [of "h_accept E i h" h]
  by (simp add: conn_inv_def h_accept_def queued_sink_def case_prod_beta)

lemma conn_inv_enqueue:
  assumes "conn_inv b y h" "ch_sinkQueue h = Some q" "i < length (ch_grants h)" "enqueueSink E now closing i bt w n d h = (r, h')"
  shows "conn_inv b y h'"
proof -
  note k = enqueue_queued [OF assms(2,4)]
  have "\<forall>f \<in> set (ch_dones h'). dn_grant f < length (ch_grants h')" "queued_sink h'"
    using assms by (auto simp: conn_inv_def enqueueSink_def makeDone_def Let_def queued_sink_def split: if_splits)
  then show ?thesis using assms(1) credit_ok_cong [OF k(2,3)] slots_charged_cong [OF k(2)] k(5) by (simp add: conn_inv_def)
qed

lemma conn_inv_deliver:
  assumes "conn_inv b y h" "charged i seq n h"
  shows "conn_inv b y (deliver E now closing i bt w n h)"
proof (cases "hc_SinkHandler (ch_config h)")
  case None
  then show ?thesis
    using conn_inv_flag [OF conn_inv_settle_charged [OF assms]] by (simp add: deliver_def)
next
  case (Some f)
  then obtain q where q: "ch_sinkQueue h = Some q" using assms(1) by (auto simp: conn_inv_def queued_sink_def)
  let ?d = "sp_AckMode (hc_Policy (ch_config h)) = ACK_MODE_DURABLE"
  have i: "i < length (ch_grants h)" using assms(2) by (simp add: charged_def)
  obtain r h' where e: "enqueueSink E now closing i bt w n ?d h = (r, h')" by force
  note k = enqueue_queued [OF q e] and inv = conn_inv_enqueue [OF assms(1) q i e]
  have c: "charged i seq n h'" using assms(2) charged_cong [OF k(2,3)] by simp
  show ?thesis
    using conn_inv_flag [OF conn_inv_settle_charged [OF inv c]] conn_inv_accept [OF inv, of i] k(3) i Some e
    by (cases r; cases ?d) (simp_all add: deliver_def)
qed

lemma conn_inv_batch:
  assumes "conn_inv b y h" "conn_op_ok E h (OpBatch now semFull closing payload)"
  shows "conn_inv b y (data_step E now semFull sf closing TypeBatch payload h)"
proof (cases "e_dec_envelope E payload")
  case (Inl e)
  with assms(1) show ?thesis by (simp add: data_step_def rejectAtCapacity_def processBatch_def)
next
  case (Inr en)
  have n: "en_Seq en \<noteq> -1" "0 < sint (len64 payload)" using assms(2) Inr len64_pos [of payload] by simp_all
  obtain ar i h1 where ad: "h_admit (en_Seq en) now h = (ar, i, h1)" by (cases "h_admit (en_Seq en) now h")
  show ?thesis
  proof (cases "ar_Decision ar = AdmitAccept")
    case False
    then have "h1 = h" using h_admit_other(1) [OF ad] by simp
    then show ?thesis
      using assms(1) Inr ad False conn_inv_abort conn_inv_sendResult
      by (cases "ar_Decision ar") (simp_all add: data_step_def rejectAtCapacity_def processBatch_def split: option.splits)
  next
    case True
    obtain e h2 where co: "h_consume i (len64 payload) h1 = (e, h2)" by force
    note inv = conn_inv_consume [OF assms(1) n ad True co]
    show ?thesis
    proof (cases e)
      case (Some x)
      then show ?thesis
        using Inr ad True co conn_inv_abort [OF inv] by (simp add: data_step_def rejectAtCapacity_def processBatch_def process_admitted_def)
    next
      case None
      note ch = h_consume_charged(1) [OF ad True co [unfolded None]]
      have i: "i < length (ch_grants h2)" using ch by (simp add: charged_def)
      have ni: "code \<noteq> CodeInternal" if "decodeAndValidate E now en TypeBatch h2 = Inl code" for code
        using that inv by (auto simp: conn_inv_def decodeAndValidate_def split: if_splits sum.splits)
      have "conn_inv b y (process_admitted E now closing en (len64 payload) i h1)"
        using co None ni conn_inv_abort [OF inv] conn_inv_flag [OF conn_inv_settle_charged [OF inv ch]]
          conn_inv_deliver [OF conn_inv_backfill [OF inv i] charged_backfill [OF ch]]
        by (auto simp: process_admitted_def split: sum.splits)
      then show ?thesis
        using Inr ad True co None conn_inv_flag [OF conn_inv_settle_charged [OF inv ch]]
        by (simp add: data_step_def rejectAtCapacity_def processBatch_def)
    qed
  qed
qed

lemma conn_inv_step: "conn_inv b y h \<Longrightarrow> conn_op_ok E h op \<Longrightarrow> conn_inv b y (conn_step E h op)"
proof (cases op)
  case OpFlush
  assume "conn_inv b y h"
  moreover have "ch_grants (flush_timer E h) = ch_grants h" "ch_dones (flush_timer E h) = ch_dones h" "ch_keys (flush_timer E h) = ch_keys h"
    "queued_sink (flush_timer E h) = queued_sink h" "seen (ch_credit (flush_timer E h)) = seen (ch_credit h)"
    by (auto simp: flush_timer_def flushPending_def Let_def post_eq queued_sink_def TakeRecovered_def split: prod.splits)
  ultimately show ?thesis using credit_ok_flush OpFlush by (simp add: conn_inv_def slots_charged_def)
qed (use conn_inv_batch conn_inv_stuck conn_inv_done in auto)



end
