(* ===== verification/Delivery.thy ===== *)
theory Delivery
  imports BatchPath "HOL-Library.Multiset"
begin

text \<open>
  What happens to a batch after it was accepted, \<open>internal/protocol/handler_sink.go\<close> and the background tasks of
  \<open>internal/protocol/handler.go\<close>: the sink's callback, the queue in front of the sink, the reaper of stuck batches and the rate limit of datagrams.
\<close>

section \<open>Callbacks\<close>

lemma h_settle_keeps: "ch_dones (h_settle E i l c r n h) = ch_dones h" "ch_config (h_settle E i l c r n h) = ch_config h"
  "ch_sinkQueuedBytes (h_settle E i l c r n h) = ch_sinkQueuedBytes h" "ch_sinkQueue (h_settle E i l c r n h) = ch_sinkQueue h"
  "ch_sinkMaxBytes (h_settle E i l c r n h) = ch_sinkMaxBytes h"
  by (simp_all add: h_settle_def case_prod_beta)

lemma call_done_keeps:
  assumes "d < length (ch_dones h)"
  shows "ch_config (call_done E d oc h) = ch_config h" "length (ch_dones (call_done E d oc h)) = length (ch_dones h)"
    "ch_sinkQueuedBytes (call_done E d oc h) = ch_sinkQueuedBytes h" "ch_sinkQueue (call_done E d oc h) = ch_sinkQueue h"
    "ch_sinkMaxBytes (call_done E d oc h) = ch_sinkMaxBytes h" "dn_fired (ch_dones (call_done E d oc h) ! d)"
  using assms by (auto simp: call_done_def done_body_def Let_def h_settle_keeps maybeScheduleFlush_def split: OutcomeLevel.splits)

lemma call_done_fired: "dn_fired (ch_dones h ! d) \<Longrightarrow> call_done E d oc h = h"
  by (simp add: call_done_def)

lemma calls_fired: "dn_fired (ch_dones h ! d) \<Longrightarrow> foldl (\<lambda>h oc. call_done E d oc h) h os = h"
  by (induction os arbitrary: h) (simp_all add: call_done_fired)

lemma calls_first:
  assumes "d < length (ch_dones h)"
  shows "foldl (\<lambda>h oc. call_done E d oc h) h os = (case os of [] \<Rightarrow> h | oc # _ \<Rightarrow> call_done E d oc h)"
  using calls_fired call_done_keeps(6) [OF assms] by (cases os) auto


section \<open>The queue in front of the sink\<close>

text \<open>The queue holds at most its capacity, its byte counter is the sum of the queued frames and never exceeds the limit.\<close>

definition sink_inv :: "i64 \<Rightarrow> nat \<Rightarrow> CoreHandler \<Rightarrow> bool" where
  "sink_inv M C h \<longleftrightarrow> (\<exists>q. ch_sinkQueue h = Some q \<and> ch_sinkMaxBytes h = M \<and> ch_sinkCap h = C \<and> length q \<le> C \<and>
     (\<forall>t \<in> set q. 0 \<le> sint (st_bytes t)) \<and> sint (ch_sinkQueuedBytes h) = sum_list (map (\<lambda>t. sint (st_bytes t)) q) \<and>
     sint (ch_sinkQueuedBytes h) \<le> sint M)"

lemma sum_nonneg: "\<forall>t \<in> set q. (0::int) \<le> f t \<Longrightarrow> 0 \<le> sum_list (map f q)"
  by (induction q) auto

lemma sink_inv_enqueue:
  assumes "sink_inv M C h" "0 \<le> sint n" "sint M + sint n < 2 ^ 63" "enqueueSink E now closing i b w n d h = (r, h')"
  shows "sink_inv M C h'"
proof -
  obtain q where a: "ch_sinkQueue h = Some q" "ch_sinkMaxBytes h = M" "ch_sinkCap h = C" "length q \<le> C" "\<forall>t \<in> set q. 0 \<le> sint (st_bytes t)"
    "sint (ch_sinkQueuedBytes h) = sum_list (map (\<lambda>t. sint (st_bytes t)) q)" "sint (ch_sinkQueuedBytes h) \<le> sint M"
    using assms(1) by (auto simp: sink_inv_def)
  have "0 \<le> sint (ch_sinkQueuedBytes h)" using a(5,6) sum_nonneg [of q "\<lambda>t. sint (st_bytes t)"] by simp
  then have s: "sint (ch_sinkQueuedBytes h + n) = sint (ch_sinkQueuedBytes h) + sint n"
    using assms(2,3) a(7) by (intro sint_add_64) auto
  show ?thesis
    using assms(2,4) a s by (auto simp: enqueueSink_def makeDone_def Let_def sink_inv_def split: if_splits)
qed

text \<open>What the invariant reads of a connection; everything but enqueueing and running a task leaves it alone.\<close>

definition sink_view :: "CoreHandler \<Rightarrow> sinkTask list option \<times> nat \<times> i64 \<times> i64" where
  "sink_view h = (ch_sinkQueue h, ch_sinkCap h, ch_sinkQueuedBytes h, ch_sinkMaxBytes h)"

lemma sink_inv_view: "sink_view h' = sink_view h \<Longrightarrow> sink_inv M C h' = sink_inv M C h"
  by (auto simp: sink_view_def sink_inv_def split: option.splits)

lemma sink_view_post [simp]: "sink_view (post E m h) = sink_view h"
  by (simp add: sink_view_def post_eq)

lemma sink_view_results [simp]: "sink_view (send_results E rs h) = sink_view h"
  unfolding send_results_def by (induction rs arbitrary: h) simp_all

lemma sink_view_upd [simp]:
  "sink_view (h\<lparr>ch_credit := m\<rparr>) = sink_view h" "sink_view (h\<lparr>ch_grants := gs\<rparr>) = sink_view h" "sink_view (h\<lparr>ch_closed := c\<rparr>) = sink_view h"
  "sink_view (h\<lparr>ch_flushArmed := c\<rparr>) = sink_view h" "sink_view (h\<lparr>ch_dones := (ch_dones h)[d := x]\<rparr>) = sink_view h"
  by (simp_all add: sink_view_def)

lemma sink_view_steps [simp]:
  "sink_view (h_settle E i l c r n h) = sink_view h" "sink_view (h_accept E i h) = sink_view h"
  "sink_view (h_release i h) = sink_view h" "sink_view (h_backfill i corr h) = sink_view h" "sink_view (abort E c dt h) = sink_view h"
  "sink_view (maybeScheduleFlush h) = sink_view h" "sink_view (sendResult E rs h) = sink_view h"
  by (simp_all add: h_settle_def h_accept_def h_release_def h_backfill_def abort_def maybeScheduleFlush_def sendResult_def case_prod_beta)

lemma sink_view_pairs: "sink_view (snd (snd (h_admit seq now h))) = sink_view h" "sink_view (snd (h_consume i n h)) = sink_view h"
  by (simp_all add: h_admit_def h_consume_def case_prod_beta)

lemma sink_view_done [simp]: "sink_view (call_done E d oc h) = sink_view h"
  by (auto simp: call_done_def done_body_def Let_def split: OutcomeLevel.splits)

lemma sink_view_stuck [simp]: "sink_view (releaseStuck E now code age h) = sink_view h"
proof -
  have "sink_view (releaseStuck_loop E cutoff code h) = sink_view h" for cutoff
  proof (induction E cutoff code h rule: releaseStuck_loop.induct)
    case (1 E cutoff code h)
    have "sink_view (force_one E code k s h) = sink_view h" for k s by (simp add: force_one_def case_prod_beta)
    with 1 show ?case by (auto simp: releaseStuck_loop.simps [of E cutoff code h] split: option.splits)
  qed
  then show ?thesis by (simp add: releaseStuck_def)
qed

lemma sink_inv_deliver:
  assumes "sink_inv M C h" "0 \<le> sint n" "sint M + sint n < 2 ^ 63"
  shows "sink_inv M C (deliver E now closing i b w n h)"
proof (cases "hc_SinkHandler (ch_config h) = None")
  case True
  then show ?thesis using assms(1) sink_inv_view [of "deliver E now closing i b w n h" h] by (simp add: deliver_def)
next
  case False
  let ?d = "sp_AckMode (hc_Policy (ch_config h)) = ACK_MODE_DURABLE"
  obtain r h' where e: "enqueueSink E now closing i b w n ?d h = (r, h')" by force
  have "sink_view (deliver E now closing i b w n h) = sink_view h'" using False e by (cases r) (auto simp: deliver_def)
  with sink_inv_enqueue [OF assms e] show ?thesis using sink_inv_view by blast
qed

lemma sink_inv_batch:
  assumes "sink_inv M C h" "length payload < 2 ^ 63" "sint M + int (length payload) < 2 ^ 63"
  shows "sink_inv M C (data_step E now semFull sf closing TypeBatch payload h)"
proof -
  let ?n = "len64 payload"
  have n: "0 \<le> sint ?n" "sint M + sint ?n < 2 ^ 63" using assms(2,3) by (simp_all add: sint_len64)
  have del: "sink_inv M C (deliver E now closing i b w ?n g)" if "sink_view g = sink_view h" for g i b w
    using n assms(1) sink_inv_view [OF that] by (intro sink_inv_deliver) simp_all
  have other: "sink_inv M C g" if "sink_view g = sink_view h" for g using that assms(1) sink_inv_view by blast
  show ?thesis
  proof (cases "e_dec_envelope E payload")
    case (Inl e)
    with assms(1) show ?thesis by (simp add: data_step_def rejectAtCapacity_def processBatch_def)
  next
    case (Inr en)
    obtain ar i h1 where ad: "h_admit (en_Seq en) now h = (ar, i, h1)" by (cases "h_admit (en_Seq en) now h")
    obtain e h2 where co: "h_consume i ?n h1 = (e, h2)" by force
    have v: "sink_view h1 = sink_view h" "sink_view h2 = sink_view h"
      using sink_view_pairs(1) [of "en_Seq en" now h] sink_view_pairs(2) [of i ?n h1] ad co
by auto
    have "sink_inv M C (process_admitted E now closing en ?n i h1)"
      using co v other del by (auto simp: process_admitted_def split: option.splits sum.splits)
    then show ?thesis
      using Inr ad co v other
      by (auto simp: data_step_def rejectAtCapacity_def processBatch_def split: AdmitDecision.splits option.splits)
  qed
qed

text \<open>Everything that touches the queue, as a step relation.\<close>

inductive sink_step :: "env \<Rightarrow> CoreHandler \<Rightarrow> CoreHandler \<Rightarrow> bool" for E where
  batch: "length payload \<le> unat MaxFrameBytes \<Longrightarrow> sink_step E h (data_step E now semFull sf closing TypeBatch payload h)"
| worker: "sink_step E h (sink_next E h)"
| report: "sink_step E h (call_done E d oc h)"
| stuck: "sink_step E h (releaseStuck E now code age h)"
| flush: "sink_step E h (flush_timer E h)"

lemma sink_view_flush: "sink_view (flush_timer E h) = sink_view h"
  by (auto simp: flush_timer_def flushPending_def Let_def split: prod.splits)

lemma sink_view_calls [simp]: "sink_view (foldl (\<lambda>h oc. call_done E d oc h) h os) = sink_view h"
  by (induction os arbitrary: h) simp_all

lemma sink_view_handler [simp]: "sink_view (handler_early E ev d h) = sink_view h" "sink_view (handler_late E ev d h) = sink_view h"
  by (auto simp: handler_early_def handler_late_def Let_def split: option.splits)

lemma sink_inv_next:
  assumes "sink_inv M C h"
  shows "sink_inv M C (sink_next E h)"
proof (cases "\<exists>t q. ch_sinkQueue h = Some (t # q)")
  case True
  then obtain t q where q: "ch_sinkQueue h = Some (t # q)" by blast
  let ?h = "h\<lparr>ch_sinkQueue := Some q, ch_sinkQueuedBytes := ch_sinkQueuedBytes h - st_bytes t\<rparr>"
  let ?r = "sum_list (map (\<lambda>t. sint (st_bytes t)) q)"
  have a: "\<forall>t' \<in> set (t # q). 0 \<le> sint (st_bytes t')" "sint (ch_sinkQueuedBytes h) = sint (st_bytes t) + ?r"
    using assms q by (auto simp: sink_inv_def)
  then have r: "0 \<le> ?r" using sum_nonneg [of q "\<lambda>t. sint (st_bytes t)"] by simp
  have "sint (ch_sinkQueuedBytes h - st_bytes t) = ?r"
    using a r sint_bounds_64 [of "ch_sinkQueuedBytes h"] by (subst sint_sub_64) auto
  then have "sink_inv M C ?h" using assms q a r by (auto simp: sink_inv_def)
  moreover have "sink_view (sink_next E h) = sink_view ?h"
  proof -
    have "sink_view g = sink_view (h\<lparr>ch_sinkQueue := Some q\<rparr>) \<Longrightarrow>
        sink_view (g\<lparr>ch_sinkQueuedBytes := ch_sinkQueuedBytes g - st_bytes t\<rparr>) = sink_view ?h" for g
      by (simp add: sink_view_def)
    then show ?thesis by (simp add: sink_next_def q runSinkTask_def Let_def)
  qed
  ultimately show ?thesis using sink_inv_view by blast
qed (use assms in \<open>auto simp: sink_next_def split: option.splits list.splits\<close>)


definition demo_task :: sinkTask where
  "demo_task = \<lparr>st_ev = \<lparr>ev_Agent = ''a'', ev_Seq = 1, ev_Correlation = [], ev_EventsCount = 1, ev_ReceivedAt = 0, ev_Trace = None,
     ev_Decoded = None, ev_Raw = None\<rparr>, st_done = 0, st_bytes = 7, st_deadline = 0\<rparr>"



section \<open>The reaper\<close>

definition stuck :: "time \<Rightarrow> CoreHandler \<Rightarrow> (u64 \<times> InflightSlot) list" where
  "stuck cutoff h = filter (\<lambda>(k, s). is_AddedAt s < cutoff) (seen (ch_credit h))"

definition stuck_results :: "time \<Rightarrow> u32 \<Rightarrow> CoreHandler \<Rightarrow> msg list" where
  "stuck_results cutoff code h = map (\<lambda>(k, s). MResult \<lparr>r_RefSeq = k, r_Level = RESULT_LEVEL_RELEASED, r_Code = code, r_RetryHintMs = 1000,
      r_Correlation = is_Correlation s\<rparr>) (sort_key fst (stuck cutoff h))"

lemma sort_key_least:
  fixes al :: "('k::linorder \<times> 'v) list"
  assumes "distinct_keys al" "(k, v) \<in> set al" "\<forall>kv \<in> set al. k \<le> fst kv"
  shows "sort_key fst al = (k, v) # sort_key fst (AList.delete k al)"
proof (rule sort_key_inj_key_eq)
  have inj: "inj_on fst (set al)" using assms(1) by (simp add: distinct_keys_def distinct_map)
  then show "inj_on fst (set al)" .
  have "filter (\<lambda>kv. fst kv = k) al = [(k, v)]"
    using assms(1,2) unfolding distinct_keys_def by (induction al) (auto simp: filter_empty_conv rev_image_eqI)
  then have "mset (filter (\<lambda>kv. fst kv = k) al) + mset (filter (\<lambda>kv. \<not> fst kv = k) al) = mset ((k, v) # AList.delete k al)"
    by (simp add: AList.delete_eq case_prod_beta eq_commute [of k])
  then show "mset al = mset ((k, v) # sort_key fst (AList.delete k al))" using multiset_partition [of "mset al" "\<lambda>kv. fst kv = k"] by simp
  show "sorted (map fst ((k, v) # sort_key fst (AList.delete k al)))"
    using assms(3) set_alist_delete [of k al] by auto
qed

lemma force_one_wire:
  assumes "wire_ok E" "map_of (seen (ch_credit h)) k = Some s"
  shows "ch_sent (force_one E code k s' h) = ch_sent h @ [MResult \<lparr>r_RefSeq = k, r_Level = RESULT_LEVEL_RELEASED, r_Code = code,
      r_RetryHintMs = 1000, r_Correlation = is_Correlation s\<rparr>]"
    "seen (ch_credit (force_one E code k s' h)) = AList.delete k (seen (ch_credit h))"
proof -
  let ?g = "\<lparr>g_seq = k, g_consumed = True, g_done = False, g_accepted = False\<rparr>"
  show "ch_sent (force_one E code k s' h) = ch_sent h @ [MResult \<lparr>r_RefSeq = k, r_Level = RESULT_LEVEL_RELEASED, r_Code = code,
      r_RetryHintMs = 1000, r_Correlation = is_Correlation s\<rparr>]"
    using Settle_open [of "ch_credit h" ?g s RESULT_LEVEL_RELEASED code 1000] assms(2)
    by (simp add: force_one_def ForceSettle_def force_lookup_def case_prod_beta send_results_wire [OF assms(1)])
  show "seen (ch_credit (force_one E code k s' h)) = AList.delete k (seen (ch_credit h))"
    using ForceSettle_seen [OF assms(2)] by (simp add: force_one_def case_prod_beta)
qed

lemma releaseStuck_loop_effect:
  assumes "wire_ok E" "distinct_keys (seen (ch_credit h))"
  shows "ch_sent (releaseStuck_loop E cutoff code h) = ch_sent h @ stuck_results cutoff code h \<and>
    seen (ch_credit (releaseStuck_loop E cutoff code h)) = filter (\<lambda>(k, s). \<not> is_AddedAt s < cutoff) (seen (ch_credit h))"
  using assms
proof (induction E cutoff code h rule: releaseStuck_loop.induct)
  case (1 E cutoff code h)
  let ?al = "seen (ch_credit h)"
  show ?case
  proof (cases "OldestBefore cutoff (ch_credit h)")
    case None
    then have "\<forall>kv \<in> set ?al. \<not> is_AddedAt (snd kv) < cutoff" using older_None [of cutoff ?al] by (auto simp: OldestBefore_def not_less)
    then have "stuck cutoff h = []" "filter (\<lambda>(k, s). \<not> is_AddedAt s < cutoff) ?al = ?al"
      by (auto simp: stuck_def filter_empty_conv case_prod_beta)
    with None show ?thesis by (simp add: releaseStuck_loop.simps [of E cutoff code h] stuck_results_def)
  next
    case (Some x)
    obtain k s where x: "x = (k, s)" by force
    note o = older_Some [of cutoff ?al x, folded OldestBefore_def, OF Some, unfolded x]
    have m: "map_of ?al k = Some s" using o 1(3) by (simp add: distinct_keys_def)
    let ?h = "force_one E code k s h"
    note f = force_one_wire [OF 1(2) m, of code s]
    have del: "stuck cutoff ?h = AList.delete k (stuck cutoff h)"
      by (simp add: stuck_def f(2) AList.delete_eq conj_commute case_prod_beta)
    have "sort_key fst (stuck cutoff h) = (k, s) # sort_key fst (stuck cutoff ?h)"
      unfolding del using 1(3) o by (intro sort_key_least) (auto simp: stuck_def)
    moreover have "filter (\<lambda>(k, s). \<not> is_AddedAt s < cutoff) (AList.delete k ?al) = filter (\<lambda>(k, s). \<not> is_AddedAt s < cutoff) ?al"
      using o 1(3) by (auto simp: AList.delete_eq case_prod_beta distinct_keys_def intro!: filter_cong dest: eq_key_imp_eq_value)
    moreover have "distinct_keys (seen (ch_credit ?h))" using 1(3) f(2) by simp
    ultimately show ?thesis
      using 1(1) [OF Some x [symmetric] 1(2)] f Some x by (simp add: releaseStuck_loop.simps [of E cutoff code h] stuck_results_def)
  qed
qed

text \<open>
  C33. A round of the reaper ends and does all of its work: every batch admitted before \<open>now - age\<close> is taken out of flight and answered
  by exactly one RELEASED result with its own correlation and a retry hint of one second, in the order of their sequence numbers;
  no other batch is touched, and a flush is scheduled for the credit.
\<close>

theorem releaseStuck_complete:
  assumes "wire_ok E" "distinct_keys (seen (ch_credit h))"
  shows "ch_sent (releaseStuck E now code age h) = ch_sent h @ stuck_results (now - age) code h \<and>
    seen (ch_credit (releaseStuck E now code age h)) = filter (\<lambda>(k, s). now - age \<le> is_AddedAt s) (seen (ch_credit h)) \<and>
    ch_flushArmed (releaseStuck E now code age h)"
  using releaseStuck_loop_effect [OF assms, of "now - age" code]
  by (simp add: releaseStuck_def not_less) (simp add: maybeScheduleFlush_def)

section \<open>Datagrams\<close>

text \<open>Datagrams of one connection: arrival times and sizes. The first component of the result is what was let through.\<close>

fun dgram_run :: "env \<Rightarrow> (time \<times> i64) list \<Rightarrow> CoreHandler \<Rightarrow> int \<times> int \<times> CoreHandler" where
  "dgram_run E [] h = (0, 0, h)"
| "dgram_run E ((now, n) # ds) h =
    (let refill = (case ch_dgramLast h of None \<Rightarrow> 0 | Some prev \<Rightarrow> sint (e_refill E (now - prev) (ch_dgramRate h)));
         (ok, h') = dgramAllow E now n h; (passed, refilled, h'') = dgram_run E ds h'
     in (passed + (if ok then sint n else 0), refilled + refill, h''))"

definition bucket_inv :: "i64 \<Rightarrow> CoreHandler \<Rightarrow> bool" where
  "bucket_inv rate h \<longleftrightarrow> ch_dgramRate h = rate \<and> (ch_dgramLast h \<noteq> None \<longrightarrow> 0 \<le> sint (ch_dgramAvail h) \<and> sint (ch_dgramAvail h) \<le> sint rate)"

definition tokens :: "CoreHandler \<Rightarrow> int" where
  "tokens h = (if ch_dgramLast h = None then sint (ch_dgramRate h) else sint (ch_dgramAvail h))"

lemma dgramAllow_step:
  assumes "0 < sint rate" "bucket_inv rate h" "0 \<le> sint n" "\<forall>t. 0 \<le> sint (e_refill E t rate) \<and> sint rate + sint (e_refill E t rate) < 2 ^ 63"
    and "dgramAllow E now n h = (ok, h')"
    and "refill = (case ch_dgramLast h of None \<Rightarrow> 0 | Some prev \<Rightarrow> sint (e_refill E (now - prev) (ch_dgramRate h)))"
  shows "bucket_inv rate h' \<and> tokens h' + (if ok then sint n else 0) \<le> tokens h + refill"
proof -
  define avail where "avail = (case ch_dgramLast h of None \<Rightarrow> ch_dgramRate h
    | Some prev \<Rightarrow> let a = ch_dgramAvail h + e_refill E (now - prev) (ch_dgramRate h) in if sint (ch_dgramRate h) < sint a then ch_dgramRate h else a)"
  have r: "ch_dgramRate h = rate" using assms(2) by (simp add: bucket_inv_def)
  have a: "0 \<le> sint avail \<and> sint avail \<le> sint rate \<and> sint avail \<le> tokens h + refill"
  proof (cases "ch_dgramLast h")
    case None
    then show ?thesis using r assms(1,6) by (simp add: avail_def tokens_def)
  next
    case (Some prev)
    let ?f = "e_refill E (now - prev) rate"
    have f: "0 \<le> sint ?f" "sint rate + sint ?f < 2 ^ 63" using assms(4) by blast+
    have "sint (ch_dgramAvail h + ?f) = sint (ch_dgramAvail h) + sint ?f"
      using f assms(2) Some by (intro sint_add_64) (auto simp: bucket_inv_def)
    then show ?thesis using f assms(1,2,6) Some r by (auto simp: avail_def tokens_def bucket_inv_def Let_def)
  qed
  have h': "(ok, h') = (let h = h\<lparr>ch_dgramLast := Some now, ch_dgramAvail := avail\<rparr> in
      if sint n \<le> sint avail then (True, h\<lparr>ch_dgramAvail := avail - n\<rparr>) else (False, h))"
    using assms(1,5) r by (simp add: dgramAllow_def avail_def Let_def split: if_splits)
  have s: "sint n \<le> sint avail \<Longrightarrow> sint (avail - n) = sint avail - sint n"
    using a assms(3) sint_bounds_64 [of avail] by (intro sint_sub_64) auto
  show ?thesis using h' s a assms(3) r by (auto simp: bucket_inv_def tokens_def Let_def split: if_splits)
qed


theorem releaseStuck_complete_witness:
  "ch_sent (releaseStuck demo_data_env 70 CodeInternal 60 (demo_conn\<lparr>ch_credit := (ch_credit demo_conn)\<lparr>seen :=
      [(4, \<lparr>is_Seq = 4, is_Bytes = 7, is_Correlation = ''c'', is_AddedAt = 20\<rparr>),
       (3, \<lparr>is_Seq = 3, is_Bytes = 7, is_Correlation = ''c'', is_AddedAt = 5\<rparr>)]\<rparr>\<rparr>)) =
   [MResult \<lparr>r_RefSeq = 3, r_Level = RESULT_LEVEL_RELEASED, r_Code = CodeInternal, r_RetryHintMs = 1000, r_Correlation = ''c''\<rparr>]"
proof -
  let ?h = "demo_conn\<lparr>ch_credit := (ch_credit demo_conn)\<lparr>seen :=
      [(4, \<lparr>is_Seq = 4, is_Bytes = 7, is_Correlation = ''c'', is_AddedAt = 20\<rparr>),
       (3, \<lparr>is_Seq = 3, is_Bytes = 7, is_Correlation = ''c'', is_AddedAt = 5\<rparr>)]\<rparr>\<rparr>"
  have "distinct_keys (seen (ch_credit ?h))" by (simp add: distinct_keys_def)
  from releaseStuck_complete [OF demo_data_wire this, of 70 CodeInternal 60] show ?thesis
    by (simp add: stuck_results_def stuck_def)
qed


end
