(* ===== verification/Deduper.thy ===== *)
theory Deduper
  imports Prelude
begin

text \<open>
  The application-level deduplicator of correlation keys, \<open>core/deduper.go\<close>: a map from key to
  registration time and the list of keys in order of registration, bounded by a capacity and an
  optional time to live. The clock reading is an argument.
\<close>

section \<open>Operations\<close>

record CorrelationDeduper =
  dd_cap :: int
  dd_ttl :: time
  dd_seen :: "(string \<times> time) list"
  dd_order :: "string list"

definition NewCorrelationDeduper :: "int \<Rightarrow> time \<Rightarrow> CorrelationDeduper" where
  "NewCorrelationDeduper capacity ttl =
    \<lparr>dd_cap = (if capacity \<le> 0 then 65536 else capacity), dd_ttl = ttl, dd_seen = [], dd_order = []\<rparr>"

text \<open>The eviction loop: it stops when the map fits or the order list is empty.\<close>

fun evict :: "int \<Rightarrow> (string \<times> time) list \<Rightarrow> string list \<Rightarrow> (string \<times> time) list \<times> string list" where
  "evict cap seen [] = (seen, [])"
| "evict cap seen (front # order) =
    (if int (length seen) > cap then evict cap (AList.delete front seen) order else (seen, front # order))"

definition fresh_window :: "CorrelationDeduper \<Rightarrow> time \<Rightarrow> time \<Rightarrow> bool" where
  "fresh_window d now ts \<longleftrightarrow> dd_ttl d \<le> 0 \<or> now - ts < dd_ttl d"

definition register :: "string \<Rightarrow> time \<Rightarrow> CorrelationDeduper \<Rightarrow> CorrelationDeduper" where
  "register key now d =
    (let (s, q) = evict (dd_cap d) (AList.update key now (dd_seen d)) (dd_order d @ [key])
     in d\<lparr>dd_seen := s, dd_order := q\<rparr>)"

definition Dedup :: "string \<Rightarrow> time \<Rightarrow> CorrelationDeduper \<Rightarrow> bool \<times> CorrelationDeduper" where
  "Dedup key now d =
    (if key = [] then (True, d)
     else case map_of (dd_seen d) key of
       Some ts \<Rightarrow>
         if fresh_window d now ts then (False, d)
         else (True, register key now
           (d\<lparr>dd_seen := AList.delete key (dd_seen d), dd_order := remove1 key (dd_order d)\<rparr>))
     | None \<Rightarrow> (True, register key now d))"

definition Seen :: "string \<Rightarrow> time \<Rightarrow> CorrelationDeduper \<Rightarrow> bool" where
  "Seen key now d =
    (if key = [] then False
     else case map_of (dd_seen d) key of None \<Rightarrow> False | Some ts \<Rightarrow> fresh_window d now ts)"

definition Len :: "CorrelationDeduper \<Rightarrow> nat" where
  "Len d = length (dd_seen d)"

fun dedup_run :: "(string \<times> time) list \<Rightarrow> CorrelationDeduper \<Rightarrow> CorrelationDeduper" where
  "dedup_run [] d = d"
| "dedup_run ((k, t) # calls) d = dedup_run calls (snd (Dedup k t d))"

text \<open>How many calls of a run register a key.\<close>

fun registrations :: "(string \<times> time) list \<Rightarrow> CorrelationDeduper \<Rightarrow> nat" where
  "registrations [] d = 0"
| "registrations ((k, t) # calls) d =
    (if k \<noteq> [] \<and> fst (Dedup k t d) then 1 else 0) + registrations calls (snd (Dedup k t d))"

section \<open>Invariant\<close>

definition dd_inv :: "CorrelationDeduper \<Rightarrow> bool" where
  "dd_inv d \<longleftrightarrow> 0 < dd_cap d \<and> distinct_keys (dd_seen d) \<and> distinct (dd_order d) \<and>
     set (dd_order d) = fst ` set (dd_seen d) \<and> int (length (dd_seen d)) \<le> dd_cap d"

lemma keys_delete: "fst ` set (AList.delete k al) = fst ` set al - {k}"
  by (induction al) auto

lemma keys_update: "fst ` set (AList.update k v al) = insert k (fst ` set al)"
  by (simp add: dom_update)

text \<open>Registering a key that is not in the map evicts at most the oldest one.\<close>

lemma register_cases:
  assumes cap: "0 < dd_cap d" and dk: "distinct_keys (dd_seen d)" and dq: "distinct (dd_order d)"
    and st: "set (dd_order d) = fst ` set (dd_seen d)" and len: "int (length (dd_seen d)) \<le> dd_cap d"
    and new: "map_of (dd_seen d) key = None"
  shows "register key now d =
    (if int (length (dd_seen d)) < dd_cap d
     then d\<lparr>dd_seen := AList.update key now (dd_seen d), dd_order := dd_order d @ [key]\<rparr>
     else d\<lparr>dd_seen := AList.delete (hd (dd_order d)) (AList.update key now (dd_seen d)),
            dd_order := tl (dd_order d) @ [key]\<rparr>)"
proof -
  have lq: "length (dd_order d) = length (dd_seen d)" using dk dq st by (rule alist_keys_length)
  have lu: "length (AList.update key now (dd_seen d)) = Suc (length (dd_seen d))" using new by (simp add: update_fresh)
  show ?thesis
  proof (cases "int (length (dd_seen d)) < dd_cap d")
    case True
    then show ?thesis using lu by (cases "dd_order d") (auto simp: register_def)
  next
    case False
    then obtain x q where q: "dd_order d = x # q" using cap lq by (cases "dd_order d") auto
    have "x \<in> fst ` set (dd_seen d)" using st q by auto
    moreover have "distinct_keys (AList.update key now (dd_seen d))" using dk by simp
    ultimately have "length (AList.delete x (AList.update key now (dd_seen d))) = length (dd_seen d)"
      using lu alist_keys_length [of "AList.delete x (AList.update key now (dd_seen d))"
          "remove1 x (map fst (AList.update key now (dd_seen d)))"]
      by (auto simp: keys_delete keys_update distinct_keys_def length_remove1 distinct_update distinct_delete)
    with False lu q len show ?thesis by (cases q) (auto simp: register_def)
  qed
qed

lemma dd_inv_register:
  assumes "dd_inv d" "map_of (dd_seen d) key = None"
  shows "dd_inv (register key now d)"
proof -
  have c: "0 < dd_cap d" "distinct_keys (dd_seen d)" "distinct (dd_order d)"
    "set (dd_order d) = fst ` set (dd_seen d)" "int (length (dd_seen d)) \<le> dd_cap d"
    using assms(1) by (auto simp: dd_inv_def)
  note r = register_cases [OF c assms(2), of now]
  have fresh: "key \<notin> set (dd_order d)" using assms(2) c(4) by (simp add: map_of_eq_None_iff)
  show ?thesis
  proof (cases "int (length (dd_seen d)) < dd_cap d")
    case True
    with c fresh assms(2) show ?thesis
      by (simp add: r dd_inv_def keys_update update_fresh [OF assms(2)] distinct_keys_def)
  next
    case False
    then have ne: "dd_order d \<noteq> []" using c by auto
    then obtain x q where q: "dd_order d = x # q" by (cases "dd_order d") auto
    let ?s = "AList.delete x (AList.update key now (dd_seen d))"
    have dk: "distinct_keys ?s" using c by simp
    have dq: "distinct (q @ [key])" using c fresh q by auto
    have st: "set (q @ [key]) = fst ` set ?s" using c fresh q by (auto simp: keys_delete keys_update)
    have "length ?s = length (q @ [key])" using alist_keys_length [OF dk dq st] by simp
    moreover have "length (dd_order d) = length (dd_seen d)" using c by (intro alist_keys_length)
    ultimately have "int (length ?s) \<le> dd_cap d" using c q by simp
    with False dk dq st c(1) q show ?thesis by (simp add: r dd_inv_def)
  qed
qed

lemma dd_inv_expire:
  assumes "dd_inv d"
  shows "dd_inv (d\<lparr>dd_seen := AList.delete key (dd_seen d), dd_order := remove1 key (dd_order d)\<rparr>)"
proof -
  have "length (AList.delete key (dd_seen d)) \<le> length (dd_seen d)" by (rule length_delete_le)
  with assms show ?thesis by (auto simp: dd_inv_def keys_delete)
qed

lemma dd_inv_Dedup: "dd_inv d \<Longrightarrow> dd_inv (snd (Dedup key now d))"
  using dd_inv_expire [of d key] by (auto simp: Dedup_def dd_inv_register map_of_alist_delete split: option.splits)

lemma dd_inv_run: "dd_inv d \<Longrightarrow> dd_inv (dedup_run calls d)"
  by (induction calls d rule: dedup_run.induct) (simp_all add: dd_inv_Dedup)

lemma dd_inv_New: "dd_inv (NewCorrelationDeduper capacity ttl)"
  by (simp add: dd_inv_def NewCorrelationDeduper_def)

section \<open>The window of a key\<close>

text \<open>The number of keys from \<open>key\<close> to the back of the order list.\<close>

definition behind :: "string \<Rightarrow> string list \<Rightarrow> nat" where
  "behind key q = length (dropWhile (\<lambda>k. k \<noteq> key) q)"

lemma behind_snoc: "key \<in> set q \<Longrightarrow> behind key (q @ [k]) = Suc (behind key q)"
  by (simp add: behind_def dropWhile_append1)

lemma behind_remove1: "k \<noteq> key \<Longrightarrow> behind key (remove1 k q) \<le> behind key q"
  by (induction q) (auto simp: behind_def length_remove1)

lemma behind_tl: "hd q \<noteq> key \<Longrightarrow> behind key (tl q) = behind key q"
  by (cases q) (auto simp: behind_def)

lemma behind_hd: "hd q = key \<Longrightarrow> q \<noteq> [] \<Longrightarrow> behind key q = length q"
  by (cases q) (auto simp: behind_def)

lemma behind_new: "key \<notin> set q \<Longrightarrow> behind key (q @ [key]) = 1"
  by (induction q) (auto simp: behind_def)

lemma register_fields [simp]: "dd_cap (register k t d) = dd_cap d" "dd_ttl (register k t d) = dd_ttl d"
  by (simp_all add: register_def case_prod_beta)

lemma Dedup_fields [simp]: "dd_cap (snd (Dedup k t d)) = dd_cap d" "dd_ttl (snd (Dedup k t d)) = dd_ttl d"
  by (simp_all add: Dedup_def split: option.split)

text \<open>A new key pushes an older one back by one place and drops it only from the last place.\<close>

lemma register_new:
  assumes inv: "dd_inv d" and new: "map_of (dd_seen d) k = None"
  shows "map_of (dd_seen (register k t d)) k = Some t \<and> behind k (dd_order (register k t d)) = 1"
proof -
  have c: "0 < dd_cap d" "distinct_keys (dd_seen d)" "distinct (dd_order d)"
    "set (dd_order d) = fst ` set (dd_seen d)" "int (length (dd_seen d)) \<le> dd_cap d"
    using inv by (auto simp: dd_inv_def)
  have fresh: "k \<notin> set (dd_order d)" using new c(4) by (simp add: map_of_eq_None_iff)
  then have "k \<notin> set (tl (dd_order d))" by (cases "dd_order d") auto
  moreover have "hd (dd_order d) \<noteq> k" if "\<not> int (length (dd_seen d)) < dd_cap d"
  proof -
    have "dd_order d \<noteq> []" using that c by auto
    with fresh show ?thesis by (cases "dd_order d") auto
  qed
  ultimately show ?thesis
    using fresh by (auto simp: register_cases [OF c new] behind_new map_of_alist_update map_of_alist_delete)
qed

lemma register_keeps:
  assumes inv: "dd_inv d" and new: "map_of (dd_seen d) k = None"
    and key: "map_of (dd_seen d) key = Some ts" and room: "int (behind key (dd_order d)) < dd_cap d"
  shows "map_of (dd_seen (register k t d)) key = Some ts \<and>
    behind key (dd_order (register k t d)) = Suc (behind key (dd_order d))"
proof -
  have c: "0 < dd_cap d" "distinct_keys (dd_seen d)" "distinct (dd_order d)"
    "set (dd_order d) = fst ` set (dd_seen d)" "int (length (dd_seen d)) \<le> dd_cap d"
    using inv by (auto simp: dd_inv_def)
  have ne: "k \<noteq> key" using new key by auto
  have mem: "key \<in> set (dd_order d)" using key c(4) by (metis domI dom_map_of_conv_image_fst)
  show ?thesis
  proof (cases "int (length (dd_seen d)) < dd_cap d")
    case True
    with ne key mem show ?thesis by (simp add: register_cases [OF c new] map_of_alist_update behind_snoc)
  next
    case False
    have lq: "length (dd_order d) = length (dd_seen d)" using c(2-4) by (rule alist_keys_length)
    have q: "dd_order d \<noteq> []" using mem by auto
    then have hd: "hd (dd_order d) \<noteq> key" using behind_hd [of "dd_order d" key] room False lq by auto
    then have "key \<in> set (tl (dd_order d))" using mem q by (cases "dd_order d") auto
    with False ne key hd show ?thesis
      by (simp add: register_cases [OF c new] map_of_alist_update map_of_alist_delete behind_snoc behind_tl)
  qed
qed

lemma Dedup_keeps:
  assumes inv: "dd_inv d" and key: "map_of (dd_seen d) key = Some ts" and w: "fresh_window d t ts"
    and room: "k \<noteq> [] \<and> fst (Dedup k t d) \<Longrightarrow> int (behind key (dd_order d)) < dd_cap d"
  shows "map_of (dd_seen (snd (Dedup k t d))) key = Some ts \<and>
    behind key (dd_order (snd (Dedup k t d))) \<le>
      behind key (dd_order d) + (if k \<noteq> [] \<and> fst (Dedup k t d) then 1 else 0)"
proof (cases "k \<noteq> [] \<and> fst (Dedup k t d)")
  case False
  then have "snd (Dedup k t d) = d" by (auto simp: Dedup_def split: option.splits if_splits)
  with key show ?thesis by simp
next
  case True
  then have ne: "k \<noteq> key" using key w by (auto simp: Dedup_def)
  let ?d = "d\<lparr>dd_seen := AList.delete k (dd_seen d), dd_order := remove1 k (dd_order d)\<rparr>"
  have len: "behind key (remove1 k (dd_order d)) \<le> behind key (dd_order d)" using ne by (rule behind_remove1)
  show ?thesis
  proof (cases "map_of (dd_seen d) k")
    case None
    with True register_keeps [OF inv None key room, of t] show ?thesis by (simp add: Dedup_def)
  next
    case (Some t')
    with True have "snd (Dedup k t d) = register k t ?d" by (auto simp: Dedup_def split: if_splits)
    moreover have "map_of (dd_seen ?d) k = None" "map_of (dd_seen ?d) key = Some ts"
      "int (behind key (dd_order ?d)) < dd_cap ?d"
      using ne key len room True by (auto simp: map_of_alist_delete)
    note register_keeps [OF dd_inv_expire [OF inv] this, of t]
    ultimately show ?thesis using len True by simp
  qed
qed

lemma run_keeps:
  assumes "dd_inv d" "map_of (dd_seen d) key = Some ts" "\<forall>(k, t) \<in> set calls. fresh_window d t ts"
    "int (behind key (dd_order d) + registrations calls d) \<le> dd_cap d"
  shows "map_of (dd_seen (dedup_run calls d)) key = Some ts"
  using assms
proof (induction calls d rule: dedup_run.induct)
  case (2 k t calls d)
  let ?d = "snd (Dedup k t d)"
  have "map_of (dd_seen ?d) key = Some ts \<and> behind key (dd_order ?d) \<le>
      behind key (dd_order d) + (if k \<noteq> [] \<and> fst (Dedup k t d) then 1 else 0)"
    using 2(2-) by (intro Dedup_keeps) auto
  moreover have "\<forall>(k, t) \<in> set calls. fresh_window ?d t ts" using 2(4) by (auto simp: fresh_window_def)
  ultimately show ?case using 2 dd_inv_Dedup [of d k t] by (simp split: if_splits)
qed simp

section \<open>Properties\<close>

text \<open>
  Bounded memory. Whatever keys arrive and however the clock jumps, the deduplicator never holds
  more than its capacity, its order list holds exactly the registered keys, each once, and \<open>Seen\<close>
  says precisely what the next \<open>Dedup\<close> of a non-empty key would refuse.
\<close>

theorem deduper_bounded:
  fixes capacity :: int and ttl :: time and calls :: "(string \<times> time) list"
  defines "d \<equiv> dedup_run calls (NewCorrelationDeduper capacity ttl)"
  shows "int (Len d) \<le> (if capacity \<le> 0 then 65536 else capacity) \<and> distinct (dd_order d) \<and>
    set (dd_order d) = dom (map_of (dd_seen d)) \<and> length (dd_order d) = Len d \<and>
    (key \<noteq> [] \<longrightarrow> Seen key now d = (\<not> fst (Dedup key now d)))"
proof -
  have cap: "dd_cap (dedup_run cs e) = dd_cap e" for cs e by (induction cs e rule: dedup_run.induct) simp_all
  have inv: "dd_inv d" unfolding d_def by (intro dd_inv_run dd_inv_New)
  moreover have "dd_cap d = (if capacity \<le> 0 then 65536 else capacity)"
    by (simp add: d_def cap NewCorrelationDeduper_def)
  moreover have "length (dd_order d) = length (dd_seen d)" using inv by (intro alist_keys_length) (auto simp: dd_inv_def)
  moreover have "key \<noteq> [] \<longrightarrow> Seen key now d = (\<not> fst (Dedup key now d))"
    by (simp add: Seen_def Dedup_def split: option.split)
  ultimately show ?thesis by (simp add: dd_inv_def Len_def dom_map_of_conv_image_fst)
qed

theorem deduper_bounded_witness:
  "int (Len (dedup_run [(''a'', 0), (''b'', 1), (''a'', 2), (''c'', 3)] (NewCorrelationDeduper 2 0))) \<le> 2"
  using deduper_bounded [of "[(''a'', 0), (''b'', 1), (''a'', 2), (''c'', 3)]" 2 0] by simp

text \<open>
  C40. A key is let through once per window. After \<open>Dedup\<close> let a non-empty key through at \<open>t0\<close>, it
  refuses the key again after any calls in between, as long as everything happens within the time to
  live (if there is one) and fewer than \<open>capacity\<close> of the calls in between registered a key.
\<close>

theorem Dedup_once_per_window:
  assumes "dd_inv d" "key \<noteq> []" "Dedup key t0 d = (True, d1)"
    and "\<forall>(k, t) \<in> set (calls @ [(key, t1)]). fresh_window d t t0"
    and "int (registrations calls d1) < dd_cap d"
  shows "Dedup key t1 (dedup_run calls d1) = (False, dedup_run calls d1)"
proof -
  let ?e = "d\<lparr>dd_seen := AList.delete key (dd_seen d), dd_order := remove1 key (dd_order d)\<rparr>"
  have inv1: "dd_inv d1" using dd_inv_Dedup [OF assms(1), of key t0] assms(3) by simp
  have f1: "dd_cap d1 = dd_cap d" "dd_ttl d1 = dd_ttl d"
    using Dedup_fields [of key t0 d] assms(3) by simp_all
  have "map_of (dd_seen d1) key = Some t0 \<and> behind key (dd_order d1) = 1"
  proof (cases "map_of (dd_seen d) key")
    case None
    with assms(2,3) register_new [OF assms(1) None] show ?thesis by (auto simp: Dedup_def)
  next
    case (Some ts)
    with assms(2,3) have "d1 = register key t0 ?e" by (auto simp: Dedup_def split: if_splits)
    with register_new [OF dd_inv_expire [OF assms(1), of key], of key t0] show ?thesis
      by (simp add: map_of_alist_delete)
  qed
  moreover have "\<forall>(k, t) \<in> set calls. fresh_window d1 t t0" using assms(4) f1 by (auto simp: fresh_window_def)
  ultimately have "map_of (dd_seen (dedup_run calls d1)) key = Some t0"
    using run_keeps [OF inv1] assms(5) f1 by simp
  moreover have ttl: "dd_ttl (dedup_run cs e) = dd_ttl e" for cs e by (induction cs e rule: dedup_run.induct) simp_all
  ultimately show ?thesis
    using assms(2,4) f1 by (simp add: Dedup_def fresh_window_def ttl)
qed

theorem Dedup_once_per_window_witness:
  "fst (Dedup ''k'' 9 (dedup_run [(''x'', 2), (''k'', 3)] (snd (Dedup ''k'' 1 (NewCorrelationDeduper 2 100))))) = False"
proof -
  let ?d = "NewCorrelationDeduper 2 100"
  have "Dedup ''k'' 1 ?d = (True, snd (Dedup ''k'' 1 ?d))"
    by (simp add: Dedup_def NewCorrelationDeduper_def)
  from Dedup_once_per_window [OF dd_inv_New _ this, of "[(''x'', 2), (''k'', 3)]" 9] show ?thesis
    by (simp add: fresh_window_def NewCorrelationDeduper_def Dedup_def register_def)
qed

end
