(* ===== verification/Ledger.thy ===== *)
theory Ledger
  imports Errors
begin

text \<open>
  The client side of the flow control, \<open>core/credit.go\<close> lines 34 to 224: the sequence generator
  and the \<open>CreditLedger\<close>. The six counters are \<open>int64\<close>, kept as 64-bit words, so the laws below
  hold through counter wrap-around: what matters is the difference \<open>consumed - returned\<close>, which the
  code keeps between 0 and the grant. The map of slots is an association list with distinct keys;
  Go iterates it in an unspecified order, so nothing below depends on the order.
\<close>

section \<open>Sequence numbers\<close>

record SeqGenerator =
  sg_seq :: u64

definition NewSeqGenerator :: SeqGenerator where
  "NewSeqGenerator = \<lparr>sg_seq = 0\<rparr>"

definition Next :: "SeqGenerator \<Rightarrow> u64 \<times> SeqGenerator" where
  "Next g = (let s = sg_seq g + 1 in (s, g\<lparr>sg_seq := s\<rparr>))"

fun next_many :: "nat \<Rightarrow> SeqGenerator \<Rightarrow> u64 list \<times> SeqGenerator" where
  "next_many 0 g = ([], g)"
| "next_many (Suc n) g = (let (s, g1) = Next g; (ss, g2) = next_many n g1 in (s # ss, g2))"

section \<open>The ledger\<close>

record OutSlot =
  os_Seq :: u64
  os_Bytes :: i64
  os_Correlation :: string
  os_SentAt :: time
  os_Deadline :: time
  os_Failed :: bool

record CreditLedger =
  grantedB :: i64
  grantedY :: i64
  consumedB :: i64
  consumedY :: i64
  returnedB :: i64
  returnedY :: i64
  clampB :: i64
  clampY :: i64
  slots :: "(u64 \<times> OutSlot) list"
  violations :: i64

definition DefaultCreditClampBatches :: i64 where
  "DefaultCreditClampBatches = push_bit 16 1"

definition DefaultCreditClampBytes :: i64 where
  "DefaultCreditClampBytes = push_bit 32 1"

definition NewCreditLedger :: "i64 \<Rightarrow> i64 \<Rightarrow> i64 \<Rightarrow> i64 \<Rightarrow> CreditLedger" where
  "NewCreditLedger initialB initialY clB clY =
    (let clB = (if sint clB \<le> 0 then DefaultCreditClampBatches else clB);
         clY = (if sint clY \<le> 0 then DefaultCreditClampBytes else clY);
         initialB = (if sint initialB > sint clB then clB else initialB);
         initialY = (if sint initialY > sint clY then clY else initialY)
     in \<lparr>grantedB = initialB, grantedY = initialY, consumedB = 0, consumedY = 0,
         returnedB = 0, returnedY = 0, clampB = clB, clampY = clY, slots = [], violations = 0\<rparr>)"

definition Available :: "CreditLedger \<Rightarrow> i64 \<times> i64" where
  "Available l = (grantedB l - consumedB l + returnedB l, grantedY l - consumedY l + returnedY l)"

text \<open>\<open>Consume\<close> returns the error and leaves the ledger alone, or the ledger with the new slot.\<close>

definition Consume :: "u64 \<Rightarrow> i64 \<Rightarrow> string \<Rightarrow> time \<Rightarrow> time \<Rightarrow> CreditLedger \<Rightarrow> CreditLedger res" where
  "Consume seq bytes correlation deadline now l =
    (let availB = grantedB l - consumedB l + returnedB l;
         availY = grantedY l - consumedY l + returnedY l
     in if sint availB < 1 \<or> sint availY < sint bytes
        then Inl (NewError ErrCodeWindowExceeded ''credit exhausted'')
        else Inr (l\<lparr>consumedB := consumedB l + 1, consumedY := consumedY l + bytes,
               slots := AList.update seq \<lparr>os_Seq = seq, os_Bytes = bytes, os_Correlation = correlation,
                 os_SentAt = now, os_Deadline = deadline, os_Failed = False\<rparr> (slots l)\<rparr>))"

definition OnCredit :: "i64 \<Rightarrow> i64 \<Rightarrow> CreditLedger \<Rightarrow> CreditLedger" where
  "OnCredit dB dY l =
    (if dB = 0 \<and> dY = 0 then l
     else if sint dB < 0 \<or> sint dY < 0 then l\<lparr>violations := violations l + 1\<rparr>
     else let maxRetB = consumedB l - returnedB l;
              (dB, v1) = (if sint dB > sint maxRetB then (maxRetB, violations l + 1) else (dB, violations l));
              maxRetY = consumedY l - returnedY l;
              (dY, v2) = (if sint dY > sint maxRetY then (maxRetY, v1 + 1) else (dY, v1))
          in l\<lparr>returnedB := returnedB l + dB, returnedY := returnedY l + dY, violations := v2\<rparr>)"

definition Terminal :: "u64 \<Rightarrow> CreditLedger \<Rightarrow> OutSlot option \<times> CreditLedger" where
  "Terminal seq l = (case map_of (slots l) seq of
      Some s \<Rightarrow> (Some s, l\<lparr>slots := AList.delete seq (slots l)\<rparr>)
    | None \<Rightarrow> (None, l))"

definition Rollback :: "u64 \<Rightarrow> CreditLedger \<Rightarrow> OutSlot option \<times> CreditLedger" where
  "Rollback seq l = (case map_of (slots l) seq of
      None \<Rightarrow> (None, l)
    | Some s \<Rightarrow>
        (let dB = (if sint (1 :: i64) > sint (consumedB l - returnedB l) then consumedB l - returnedB l else 1);
             dY = (if sint (os_Bytes s) > sint (consumedY l - returnedY l)
                   then consumedY l - returnedY l else os_Bytes s)
         in (Some s, l\<lparr>slots := AList.delete seq (slots l),
               returnedB := returnedB l + dB, returnedY := returnedY l + dY\<rparr>)))"

text \<open>\<open>ReapExpired\<close> marks and removes every slot whose deadline has passed.\<close>

definition ReapExpired :: "time \<Rightarrow> CreditLedger \<Rightarrow> OutSlot list \<times> CreditLedger" where
  "ReapExpired now l =
    (map (\<lambda>(seq, s). s\<lparr>os_Failed := True\<rparr>) (filter (\<lambda>(seq, s). now > os_Deadline s) (slots l)),
     l\<lparr>slots := filter (\<lambda>(seq, s). \<not> now > os_Deadline s) (slots l)\<rparr>)"

definition Drained :: "CreditLedger \<Rightarrow> bool" where
  "Drained l \<longleftrightarrow> length (slots l) = 0"

definition Pending :: "CreditLedger \<Rightarrow> nat" where
  "Pending l = length (slots l)"

definition Reset :: "CreditLedger \<Rightarrow> CreditLedger" where
  "Reset l = l\<lparr>slots := []\<rparr>"

text \<open>The ledger's operations as steps; a refused \<open>Consume\<close> leaves the ledger unchanged.\<close>

datatype ledger_op =
    LConsume u64 i64 string time time
  | LCredit i64 i64
  | LTerminal u64
  | LRollback u64
  | LReap time
  | LReset

fun ledger_step :: "CreditLedger \<Rightarrow> ledger_op \<Rightarrow> CreditLedger" where
  "ledger_step l (LConsume seq n corr dl now) =
     (case Consume seq n corr dl now l of Inl _ \<Rightarrow> l | Inr l' \<Rightarrow> l')"
| "ledger_step l (LCredit dB dY) = OnCredit dB dY l"
| "ledger_step l (LTerminal seq) = snd (Terminal seq l)"
| "ledger_step l (LRollback seq) = snd (Rollback seq l)"
| "ledger_step l (LReap now) = snd (ReapExpired now l)"
| "ledger_step l LReset = Reset l"

text \<open>The sizes a caller passes to \<open>Consume\<close> are lengths of byte slices, never negative.\<close>

fun op_size_ok :: "ledger_op \<Rightarrow> bool" where
  "op_size_ok (LConsume _ n _ _ _) = (0 \<le> sint n)"
| "op_size_ok _ = True"

section \<open>Well-formedness and the abstract account\<close>

definition outB :: "CreditLedger \<Rightarrow> i64" where "outB l = consumedB l - returnedB l"
definition outY :: "CreditLedger \<Rightarrow> i64" where "outY l = consumedY l - returnedY l"

definition ledger_inv :: "CreditLedger \<Rightarrow> bool" where
  "ledger_inv l \<longleftrightarrow>
     0 \<le> sint (outB l) \<and> sint (outB l) \<le> max 0 (sint (grantedB l)) \<and>
     0 \<le> sint (outY l) \<and> sint (outY l) \<le> max 0 (sint (grantedY l)) \<and>
     sint (grantedB l) \<le> sint (clampB l) \<and> sint (grantedY l) \<le> sint (clampY l) \<and>
     distinct_keys (slots l) \<and>
     (\<forall>(k, s) \<in> set (slots l). os_Seq s = k \<and> 0 \<le> sint (os_Bytes s) \<and> \<not> os_Failed s)"

text \<open>
  What the ledger means: the grant, the signed availability of each dimension and the sizes of the
  pending batches. The abstract operations are arithmetic on integers: spending subtracts, a credit
  adds up to the grant, a roll-back gives the batch and its bytes back up to the grant.
\<close>

record account =
  acc_grant :: "int \<times> int"
  acc_avail :: "int \<times> int"
  acc_pending :: "u64 \<rightharpoonup> i64"

definition abs_ledger :: "CreditLedger \<Rightarrow> account" where
  "abs_ledger l = \<lparr>acc_grant = (sint (grantedB l), sint (grantedY l)),
     acc_avail = (sint (fst (Available l)), sint (snd (Available l))),
     acc_pending = (\<lambda>k. map_option os_Bytes (map_of (slots l) k))\<rparr>"

definition acc_spend :: "u64 \<Rightarrow> i64 \<Rightarrow> account \<Rightarrow> account option" where
  "acc_spend seq n a = (if fst (acc_avail a) < 1 \<or> snd (acc_avail a) < sint n then None
     else Some (a\<lparr>acc_avail := (fst (acc_avail a) - 1, snd (acc_avail a) - sint n),
                  acc_pending := (acc_pending a)(seq \<mapsto> n)\<rparr>))"

definition acc_credit :: "int \<Rightarrow> int \<Rightarrow> account \<Rightarrow> account" where
  "acc_credit b y a = a\<lparr>acc_avail := (min (fst (acc_grant a)) (fst (acc_avail a) + b),
                                     min (snd (acc_grant a)) (snd (acc_avail a) + y))\<rparr>"

definition acc_settle :: "u64 \<Rightarrow> account \<Rightarrow> account" where
  "acc_settle seq a = a\<lparr>acc_pending := (acc_pending a)(seq := None)\<rparr>"

definition acc_rollback :: "u64 \<Rightarrow> account \<Rightarrow> account" where
  "acc_rollback seq a = (case acc_pending a seq of None \<Rightarrow> a
     | Some n \<Rightarrow> acc_settle seq (acc_credit 1 (sint n) a))"

lemma avail_out: "Available l = (grantedB l - outB l, grantedY l - outY l)"
  by (simp add: Available_def outB_def outY_def)

lemma sint_avail [account_simps]:
  assumes "ledger_inv l"
  shows "sint (fst (Available l)) = sint (grantedB l) - sint (outB l)"
    and "sint (snd (Available l)) = sint (grantedY l) - sint (outY l)"
  using assms by (simp_all add: avail_out ledger_inv_def sint_sub_le)

lemma ledger_inv_New: "ledger_inv (NewCreditLedger iB iY cB cY)"
  by (simp add: ledger_inv_def NewCreditLedger_def Let_def outB_def outY_def)

text \<open>Adding to the outstanding amount what availability covers, and taking back what is out.\<close>

lemma out_spend:
  fixes out g n :: i64
  assumes "0 \<le> sint out" "sint out \<le> max 0 (sint g)" "0 \<le> sint n" "sint n \<le> sint (g - out)"
  shows "sint (out + n) = sint out + sint n \<and> sint (out + n) \<le> max 0 (sint g)"
proof -
  have "sint (g - out) = sint g - sint out" using assms by (simp add: sint_sub_le)
  with assms sint_bounds_64 [of g] sint_bounds_64 [of out] have "sint (out + n) = sint out + sint n"
    by (intro sint_add_64) auto
  with assms \<open>sint (g - out) = sint g - sint out\<close> show ?thesis by auto
qed

lemma out_return:
  fixes out d :: i64
  assumes "0 \<le> sint out" "0 \<le> sint d" "sint d \<le> sint out"
  shows "sint (out - d) = sint out - sint d"
  using assms by (intro sint_sub_le) auto

lemma Consume_Inr:
  assumes "Consume seq n corr dl now l = Inr l'"
  shows "sint (fst (Available l)) \<ge> 1" "sint (snd (Available l)) \<ge> sint n"
    "outB l' = outB l + 1" "outY l' = outY l + n"
    "grantedB l' = grantedB l" "grantedY l' = grantedY l" "clampB l' = clampB l" "clampY l' = clampY l"
    "slots l' = AList.update seq \<lparr>os_Seq = seq, os_Bytes = n, os_Correlation = corr,
       os_SentAt = now, os_Deadline = dl, os_Failed = False\<rparr> (slots l)"
  using assms by (auto simp: Consume_def Let_def Available_def outB_def outY_def split: if_splits)

lemma Consume_Inl:
  "(\<exists>e. Consume seq n corr dl now l = Inl e) =
     (sint (fst (Available l)) < 1 \<or> sint (snd (Available l)) < sint n)"
  by (auto simp: Consume_def Let_def Available_def split: if_splits)

lemma sint_1_64 [simp]: "sint (1 :: i64) = 1"
  by simp

lemma ledger_inv_Consume:
  assumes "ledger_inv l" "0 \<le> sint n" "Consume seq n corr dl now l = Inr l'"
  shows "ledger_inv l'"
proof -
  note c = Consume_Inr [OF assms(3)]
  from assms(1) c(1) have "0 \<le> sint (outB l')" "sint (outB l') \<le> max 0 (sint (grantedB l))"
    using out_spend [of "outB l" "grantedB l" 1] by (auto simp: c avail_out ledger_inv_def)
  moreover from assms(1,2) c(2) have "0 \<le> sint (outY l')" "sint (outY l') \<le> max 0 (sint (grantedY l))"
    using out_spend [of "outY l" "grantedY l" n] by (auto simp: c avail_out ledger_inv_def)
  moreover have "\<forall>(k, s) \<in> set (slots l'). os_Seq s = k \<and> 0 \<le> sint (os_Bytes s) \<and> \<not> os_Failed s"
    unfolding c(9) using assms(1,2) by (intro alist_update_all) (auto simp: ledger_inv_def)
  ultimately show ?thesis using assms(1) by (simp add: ledger_inv_def c)
qed

lemma OnCredit_frame [simp]:
  "slots (OnCredit dB dY l) = slots l" "grantedB (OnCredit dB dY l) = grantedB l"
  "grantedY (OnCredit dB dY l) = grantedY l" "clampB (OnCredit dB dY l) = clampB l"
  "clampY (OnCredit dB dY l) = clampY l" "consumedB (OnCredit dB dY l) = consumedB l"
  "consumedY (OnCredit dB dY l) = consumedY l"
  by (simp_all add: OnCredit_def Let_def)

lemma out_OnCredit:
  assumes "0 \<le> sint dB" "0 \<le> sint dY"
  shows "outB (OnCredit dB dY l) = outB l - (if sint dB > sint (outB l) then outB l else dB) \<or> dB = 0 \<and> dY = 0"
    and "outY (OnCredit dB dY l) = outY l - (if sint dY > sint (outY l) then outY l else dY) \<or> dB = 0 \<and> dY = 0"
  using assms by (auto simp: OnCredit_def Let_def outB_def outY_def algebra_simps)

lemma out_OnCredit_sint:
  assumes "ledger_inv l" "0 \<le> sint dB" "0 \<le> sint dY"
  shows "sint (outB (OnCredit dB dY l)) = max 0 (sint (outB l) - sint dB)"
    and "sint (outY (OnCredit dB dY l)) = max 0 (sint (outY l) - sint dY)"
proof -
  have "sint (outB (OnCredit dB dY l)) = max 0 (sint (outB l) - sint dB) \<and>
      sint (outY (OnCredit dB dY l)) = max 0 (sint (outY l) - sint dY)"
  proof (cases "dB = 0 \<and> dY = 0")
    case True
    with assms(1) show ?thesis by (auto simp: ledger_inv_def OnCredit_def)
  next
    case False
    with assms out_OnCredit [OF assms(2,3), of l] out_return [of "outB l" dB] out_return [of "outY l" dY]
    show ?thesis by (auto simp: ledger_inv_def)
  qed
  then show "sint (outB (OnCredit dB dY l)) = max 0 (sint (outB l) - sint dB)"
    and "sint (outY (OnCredit dB dY l)) = max 0 (sint (outY l) - sint dY)" by auto
qed

lemma OnCredit_negative:
  assumes "sint dB < 0 \<or> sint dY < 0"
  shows "OnCredit dB dY l = l\<lparr>violations := violations l + 1\<rparr>"
  using assms by (auto simp: OnCredit_def)

lemma violations_irrelevant [simp]:
  "ledger_inv (l\<lparr>violations := v\<rparr>) = ledger_inv l" "abs_ledger (l\<lparr>violations := v\<rparr>) = abs_ledger l"
  by (simp_all add: ledger_inv_def outB_def outY_def abs_ledger_def Available_def)

lemma ledger_inv_OnCredit:
  assumes "ledger_inv l"
  shows "ledger_inv (OnCredit dB dY l)"
proof (cases "sint dB < 0 \<or> sint dY < 0")
  case True
  with assms show ?thesis by (simp add: OnCredit_negative)
next
  case False
  with assms out_OnCredit_sint [OF assms, of dB dY] show ?thesis
    by (auto simp: ledger_inv_def)
qed

lemma Rollback_Some:
  assumes "map_of (slots l) seq = Some s" "Rollback seq l = (r, l')"
  shows "r = Some s" "slots l' = AList.delete seq (slots l)"
    "outB l' = outB l - (if sint (outB l) < 1 then outB l else 1)"
    "outY l' = outY l - (if sint (os_Bytes s) > sint (outY l) then outY l else os_Bytes s)"
    "grantedB l' = grantedB l" "grantedY l' = grantedY l" "clampB l' = clampB l" "clampY l' = clampY l"
  using assms by (auto simp: Rollback_def Let_def outB_def outY_def algebra_simps)

lemma Rollback_None [simp]: "map_of (slots l) seq = None \<Longrightarrow> Rollback seq l = (None, l)"
  by (simp add: Rollback_def)

lemma out_Rollback_sint:
  assumes "ledger_inv l" "map_of (slots l) seq = Some s" "Rollback seq l = (r, l')"
  shows "sint (outB l') = max 0 (sint (outB l) - 1)"
    and "sint (outY l') = max 0 (sint (outY l) - sint (os_Bytes s))"
proof -
  note r = Rollback_Some [OF assms(2,3)]
  have "0 \<le> sint (os_Bytes s)"
    using assms(1,2) by (auto simp: ledger_inv_def dest!: map_of_SomeD)
  then show "sint (outY l') = max 0 (sint (outY l) - sint (os_Bytes s))"
    using assms(1) out_return [of "outY l" "os_Bytes s"] by (auto simp: r ledger_inv_def)
  show "sint (outB l') = max 0 (sint (outB l) - 1)"
    using assms(1) out_return [of "outB l" 1] by (auto simp: r ledger_inv_def)
qed

lemma ledger_inv_Rollback:
  assumes "ledger_inv l" "Rollback seq l = (r, l')"
  shows "ledger_inv l'"
proof (cases "map_of (slots l) seq")
  case (Some s)
  note rb = Rollback_Some [OF Some assms(2)] and sg = out_Rollback_sint [OF assms(1) Some assms(2)]
  have "\<forall>(k, s) \<in> set (slots l'). os_Seq s = k \<and> 0 \<le> sint (os_Bytes s) \<and> \<not> os_Failed s"
    unfolding rb(2) using assms(1) by (intro alist_delete_all) (simp add: ledger_inv_def)
  with assms(1) Some sg rb show ?thesis
    by (auto simp: ledger_inv_def dest!: map_of_SomeD)
qed (use assms in simp)

lemma ledger_inv_Terminal:
  assumes "ledger_inv l"
  shows "ledger_inv (snd (Terminal seq l))"
proof (cases "map_of (slots l) seq")
  case (Some s)
  have "\<forall>(k, s) \<in> set (AList.delete seq (slots l)). os_Seq s = k \<and> 0 \<le> sint (os_Bytes s) \<and> \<not> os_Failed s"
    using assms by (intro alist_delete_all) (simp add: ledger_inv_def)
  with assms Some show ?thesis by (simp add: Terminal_def ledger_inv_def outB_def outY_def)
qed (use assms in \<open>simp add: Terminal_def\<close>)

lemma ledger_inv_ReapExpired: "ledger_inv l \<Longrightarrow> ledger_inv (snd (ReapExpired now l))"
  by (auto simp: ledger_inv_def ReapExpired_def outB_def outY_def)

lemma ledger_inv_Reset: "ledger_inv l \<Longrightarrow> ledger_inv (Reset l)"
  by (simp add: ledger_inv_def Reset_def outB_def outY_def)

lemma ledger_inv_step: "ledger_inv l \<Longrightarrow> op_size_ok x \<Longrightarrow> ledger_inv (ledger_step l x)"
proof (cases x)
  case (LConsume seq n corr dl now)
  then show "ledger_inv l \<Longrightarrow> op_size_ok x \<Longrightarrow> ledger_inv (ledger_step l x)"
    by (auto split: sum.splits intro: ledger_inv_Consume)
next
  case (LRollback seq)
  then show "ledger_inv l \<Longrightarrow> op_size_ok x \<Longrightarrow> ledger_inv (ledger_step l x)"
    by (cases "Rollback seq l") (auto intro: ledger_inv_Rollback)
qed (auto intro: ledger_inv_OnCredit ledger_inv_Terminal ledger_inv_ReapExpired ledger_inv_Reset)

lemma ledger_inv_run: "ledger_inv l \<Longrightarrow> list_all op_size_ok xs \<Longrightarrow> ledger_inv (foldl ledger_step l xs)"
  by (induction xs arbitrary: l) (auto intro: ledger_inv_step)

lemma grant_step [simp]:
  "grantedB (ledger_step l x) = grantedB l" "grantedY (ledger_step l x) = grantedY l"
  "clampB (ledger_step l x) = clampB l" "clampY (ledger_step l x) = clampY l"
  by (cases x; auto simp: Terminal_def Rollback_def Let_def ReapExpired_def Reset_def Consume_Inr
        split: sum.splits option.splits)+

lemma grant_run [simp]:
  "grantedB (foldl ledger_step l xs) = grantedB l" "grantedY (foldl ledger_step l xs) = grantedY l"
  "clampB (foldl ledger_step l xs) = clampB l" "clampY (foldl ledger_step l xs) = clampY l"
  by (induction xs arbitrary: l) simp_all

section \<open>The ledger implements the abstract account\<close>

lemma abs_Consume:
  assumes "ledger_inv l" "0 \<le> sint n" "Consume seq n corr dl now l = Inr l'"
  shows "acc_spend seq n (abs_ledger l) = Some (abs_ledger l')"
proof -
  note c = Consume_Inr [OF assms(3)] and inv' = ledger_inv_Consume [OF assms]
  have "sint (outB l') = sint (outB l) + 1" "sint (outY l') = sint (outY l) + sint n"
    using assms(1,2) c(1,2) out_spend [of "outB l" "grantedB l" 1] out_spend [of "outY l" "grantedY l" n]
    by (auto simp: c avail_out ledger_inv_def)
  with c inv' assms(1) show ?thesis
    by (auto simp: abs_ledger_def acc_spend_def account_simps map_of_alist_update fun_eq_iff)
qed

lemma abs_OnCredit:
  assumes "ledger_inv l" "0 \<le> sint dB" "0 \<le> sint dY"
  shows "abs_ledger (OnCredit dB dY l) = acc_credit (sint dB) (sint dY) (abs_ledger l)"
  using assms ledger_inv_OnCredit [OF assms(1), of dB dY] out_OnCredit_sint [OF assms]
  by (auto simp: abs_ledger_def acc_credit_def account_simps)

lemma abs_Rollback:
  assumes "ledger_inv l" "Rollback seq l = (r, l')"
  shows "abs_ledger l' = acc_rollback seq (abs_ledger l)"
proof (cases "map_of (slots l) seq")
  case (Some s)
  note rb = Rollback_Some [OF Some assms(2)] and sg = out_Rollback_sint [OF assms(1) Some assms(2)]
  from Some rb sg assms(1) ledger_inv_Rollback [OF assms] show ?thesis
    by (auto simp: abs_ledger_def acc_rollback_def acc_credit_def acc_settle_def account_simps
        map_of_alist_delete fun_eq_iff)
qed (use assms in \<open>simp add: acc_rollback_def abs_ledger_def\<close>)

lemma abs_Terminal: "abs_ledger (snd (Terminal seq l)) = acc_settle seq (abs_ledger l)"
  by (cases "map_of (slots l) seq")
    (auto simp: Terminal_def abs_ledger_def acc_settle_def Available_def map_of_alist_delete fun_eq_iff)

text \<open>The ledger as a credit account: the client's half of the flow-control contract.\<close>

definition ledger_avail :: "CreditLedger \<Rightarrow> int \<times> int" where
  "ledger_avail l = (sint (fst (Available l)), sint (snd (Available l)))"

definition ledger_spend :: "u64 \<Rightarrow> i64 \<Rightarrow> CreditLedger \<Rightarrow> CreditLedger option" where
  "ledger_spend seq n l = (case Consume seq n [] 0 0 l of Inl _ \<Rightarrow> None | Inr l' \<Rightarrow> Some l')"

interpretation client_account: credit_account ledger_avail ledger_inv ledger_spend
proof
  fix l l' :: CreditLedger and n :: i64 and s :: u64
  assume "ledger_inv l" "0 \<le> sint n" "ledger_spend s n l = Some l'"
  then have c: "Consume s n [] 0 0 l = Inr l'" by (simp add: ledger_spend_def split: sum.splits)
  with abs_Consume [OF \<open>ledger_inv l\<close> \<open>0 \<le> sint n\<close>] ledger_inv_Consume [OF \<open>ledger_inv l\<close> \<open>0 \<le> sint n\<close>]
  show "ledger_inv l' \<and> ledger_avail l' = (fst (ledger_avail l) - 1, snd (ledger_avail l) - sint n)"
    by (force simp: ledger_avail_def acc_spend_def abs_ledger_def split: if_splits)
next
  fix l :: CreditLedger and n :: i64 and s :: u64
  show "(ledger_spend s n l = None) = (fst (ledger_avail l) < 1 \<or> snd (ledger_avail l) < sint n)"
    using Consume_Inl [of s n "[]" 0 0 l] by (auto simp: ledger_spend_def ledger_avail_def split: sum.splits)
qed

section \<open>Properties\<close>


text \<open>A ledger with a grant of 2 batches and 10 bytes, used by the witnesses.\<close>

definition demo_ledger :: CreditLedger where
  "demo_ledger = NewCreditLedger 2 10 0 0"

lemma demo_ledger_inv: "ledger_inv demo_ledger"
  by (simp add: demo_ledger_def ledger_inv_New)


text \<open>
  Whatever sequence of sends, credits, results, roll-backs, reaps and resets the client runs
  from a fresh ledger, and whatever deltas a faulty server sends, the availability of each dimension
  never exceeds the initial grant, the grant never exceeds the local clamp, what is out is never
  negative, and the counters satisfy \<open>available = granted - (consumed - returned)\<close> as signed
  numbers, so no counter overflow can mint credit.
\<close>

theorem ledger_never_exceeds_grant:
  assumes "list_all op_size_ok xs" and "l = foldl ledger_step (NewCreditLedger iB iY cB cY) xs"
  shows "sint (fst (Available l)) = sint (grantedB l) - sint (outB l)
    \<and> sint (snd (Available l)) = sint (grantedY l) - sint (outY l)
    \<and> 0 \<le> sint (outB l) \<and> 0 \<le> sint (outY l)
    \<and> sint (fst (Available l)) \<le> sint iB \<and> sint (snd (Available l)) \<le> sint iY
    \<and> sint (fst (Available l)) \<le> sint (clampB l) \<and> sint (snd (Available l)) \<le> sint (clampY l)"
proof -
  have inv: "ledger_inv l"
    using assms ledger_inv_run [OF ledger_inv_New] by blast
  moreover have "sint (grantedB l) \<le> sint iB" "sint (grantedY l) \<le> sint iY"
    unfolding assms(2) grant_run by (simp_all add: NewCreditLedger_def Let_def)
  ultimately show ?thesis
    by (auto simp: account_simps ledger_inv_def)
qed

theorem ledger_never_exceeds_grant_witness:
  "sint (fst (Available (foldl ledger_step (NewCreditLedger 2 10 0 0)
      [LConsume 1 4 [] 9 0, LCredit 7 (-1), LCredit 5 5, LRollback 1]))) \<le> 2"
  using ledger_never_exceeds_grant [of "[LConsume 1 4 [] 9 0, LCredit 7 (-1), LCredit 5 5, LRollback 1]"
      _ 2 10 0 0, OF _ refl] by simp

text \<open>
  Rolling back a send whose write failed restores the account exactly: availability, grant and
  pending slots are those before the send (the sequence number was fresh), so a failed write leaks
  neither credit nor a slot.
\<close>

theorem Rollback_undoes_Consume:
  assumes "ledger_inv l" and "0 \<le> sint n" and "map_of (slots l) seq = None"
    and "Consume seq n corr dl now l = Inr l'"
  shows "abs_ledger (snd (Rollback seq l')) = abs_ledger l \<and> slots (snd (Rollback seq l')) = slots l
    \<and> Available (snd (Rollback seq l')) = Available l \<and> fst (Rollback seq l') \<noteq> None"
proof -
  note c = Consume_Inr [OF assms(4)] and inv' = ledger_inv_Consume [OF assms(1,2,4)]
  obtain r l'' where rb: "Rollback seq l' = (r, l'')" by (cases "Rollback seq l'")
  have slot: "map_of (slots l') seq = Some \<lparr>os_Seq = seq, os_Bytes = n, os_Correlation = corr,
       os_SentAt = now, os_Deadline = dl, os_Failed = False\<rparr>"
    by (simp add: c map_of_alist_update)
  have "sint (outB l') = sint (outB l) + 1" "sint (outY l') = sint (outY l) + sint n"
    using assms(1,2) c(1,2) out_spend [of "outB l" "grantedB l" 1] out_spend [of "outY l" "grantedY l" n]
    by (auto simp: c avail_out ledger_inv_def)
  then have le: "1 \<le> sint (outB l')" "sint n \<le> sint (outY l')"
    using assms(1) by (auto simp: ledger_inv_def)
  note b = Rollback_Some [OF slot rb]
  have av: "Available l'' = Available l" using le b c by (simp add: avail_out)
  have sl: "slots l'' = slots l" using b c assms(3) by (simp add: delete_update_fresh)
  show ?thesis
    using av sl b(1,5,6) c(5,6) by (simp add: rb abs_ledger_def)
qed

theorem Rollback_undoes_Consume_witness:
  "\<exists>l'. Consume 1 4 [] 9 0 demo_ledger = Inr l' \<and> Available (snd (Rollback 1 l')) = (2, 10)"
proof -
  obtain l' where c: "Consume 1 4 [] 9 0 demo_ledger = Inr l'"
    by (auto simp: Consume_def demo_ledger_def NewCreditLedger_def DefaultCreditClampBatches_def
        DefaultCreditClampBytes_def Let_def)
  have "map_of (slots demo_ledger) 1 = None" by (simp add: demo_ledger_def NewCreditLedger_def Let_def)
  from Rollback_undoes_Consume [OF demo_ledger_inv _ this c]
  have "Available (snd (Rollback 1 l')) = Available demo_ledger" by simp
  then show ?thesis
    using c by (auto simp: demo_ledger_def NewCreditLedger_def Available_def
        DefaultCreditClampBatches_def DefaultCreditClampBytes_def Let_def)
qed

lemma next_many_upt:
  "next_many n g = (map (\<lambda>i. sg_seq g + of_nat (Suc i)) [0..<n], g\<lparr>sg_seq := sg_seq g + of_nat n\<rparr>)"
proof (induction n arbitrary: g)
  case (Suc n)
  show ?case
    by (simp add: Next_def Let_def Suc.IH map_upt_Suc add.assoc del: upt_Suc)
qed simp

text \<open>
  The shared counter of \<open>BATCH\<close> and \<open>DGRAM\<close> starts at 1, hands out strictly increasing
  numbers and never the illegal 0: the first \<open>n\<close> numbers are exactly 1 to \<open>n\<close>, as long as fewer
  than \<open>2 ^ 64\<close> are drawn. Since the nonce is built from the number, none is ever used twice.
\<close>

theorem seq_numbers_unique:
  assumes "n < 2 ^ 64"
  shows "map unat (fst (next_many n NewSeqGenerator)) = [1..<Suc n]
    \<and> distinct (fst (next_many n NewSeqGenerator)) \<and> 0 \<notin> set (fst (next_many n NewSeqGenerator))"
proof -
  have *: "map unat (fst (next_many n NewSeqGenerator)) = [1..<Suc n]"
    unfolding next_many_upt
    using assms by (auto simp: NewSeqGenerator_def unat_word_ariths unat_of_nat list_eq_iff_nth_eq
        simp del: upt_Suc simp flip: of_nat_Suc)
  moreover have "distinct (fst (next_many n NewSeqGenerator))"
    by (rule distinct_map [THEN iffD1, THEN conjunct1, of unat]) (simp only: * distinct_upt)
  moreover have "0 \<notin> set (fst (next_many n NewSeqGenerator))"
  proof
    assume "0 \<in> set (fst (next_many n NewSeqGenerator))"
    then have "unat (0 :: u64) \<in> set (map unat (fst (next_many n NewSeqGenerator)))"
      unfolding set_map by (rule imageI)
    then show False by (auto simp: *)
  qed
  ultimately show ?thesis by blast
qed

theorem seq_numbers_unique_witness: "map unat (fst (next_many 3 NewSeqGenerator)) = [1, 2, 3]"
  using seq_numbers_unique [of 3] by (simp add: upt_rec)

text \<open>
  A burst of sends without any returned credit is bounded by the announced grant: if every send
  of the burst is admitted, there are at most as many as the granted batches, and their envelope
  bytes together are at most the granted bytes.
\<close>

theorem burst_within_grant:
  assumes "spend_all ledger_spend xs (NewCreditLedger iB iY cB cY) = Some l" and "xs \<noteq> []"
    and "\<forall>x \<in> set xs. 0 \<le> sint (snd x)"
  shows "int (length xs) \<le> sint iB \<and> (\<Sum>x\<leftarrow>xs. sint (snd x)) \<le> sint iY"
proof -
  have "fst (ledger_avail (NewCreditLedger iB iY cB cY)) \<le> sint iB"
    "snd (ledger_avail (NewCreditLedger iB iY cB cY)) \<le> sint iY"
    by (simp_all add: ledger_avail_def Available_def NewCreditLedger_def Let_def)
  with client_account.spend_all_bounded [OF ledger_inv_New assms(3,1,2)] show ?thesis by linarith
qed

theorem burst_within_grant_witness:
  "\<exists>l. spend_all ledger_spend [(1, 4), (2, 6)] (NewCreditLedger 2 10 0 0) = Some l
    \<and> int (length [(1 :: u64, 4 :: i64), (2, 6)]) \<le> 2"
proof -
  have "spend_all ledger_spend [(1, 4), (2, 6)] (NewCreditLedger 2 10 0 0) \<noteq> None"
    by (simp add: ledger_spend_def Consume_def NewCreditLedger_def DefaultCreditClampBatches_def
        DefaultCreditClampBytes_def Let_def)
  then obtain l where l: "spend_all ledger_spend [(1, 4), (2, 6)] (NewCreditLedger 2 10 0 0) = Some l"
    by blast
  with burst_within_grant [OF l] show ?thesis by simp
qed

end
