(* ===== verification/Client.thy ===== *)
theory Client
  imports Handshake Ledger
begin

text \<open>
  The client side of the protocol: \<open>internal/protocol/client.go\<close> and \<open>internal/protocol/client_control.go\<close>. One record holds what
  a \<open>CoreClient\<close> keeps, one definition is one call or one iteration of a background loop. The transport, the protobuf library and
  the application's callbacks are parameters: fields of the record \<open>cenv\<close>, the frames read, and the answers of the command handler.
\<close>

section \<open>State\<close>

record CoreClientConfig =
  cg_AgentID :: string
  cg_Meta :: "(string \<times> string) list"
  cg_Token :: string
  cg_Capabilities :: "string list"
  cg_Profile :: Profile
  cg_DrainTimeout :: time
  cg_AckTimeout :: time

record resultNotify =
  rn_seq :: u64
  rn_level :: string
  rn_code :: u32
  rn_correlation :: string

text \<open>What a client writes, before encoding.\<close>

datatype cmsg =
    CHello Hello
  | CBatch Batch
  | CEnvelope Envelope
  | CClose Close
  | CPing Ping
  | CPong Pong
  | CCommandAck ControlCommandAck

text \<open>
  The parameters. \<open>k_write n ty p\<close> is the transport's answer to the \<open>n\<close>-th write, \<open>k_datagram\<close> the datagram sender of a transport that
  supports it, the two flags say whether the transport implements \<open>FrameLimitSetter\<close> and \<open>AuthMarker\<close>.
\<close>

record cenv =
  k_crypto :: crypto
  k_codecs :: codecs
  k_signal_codecs :: codec_registry
  k_mkdec :: "u32 \<Rightarrow> bytes \<Rightarrow> go_err option"
  k_encode :: "cmsg \<Rightarrow> bytes res"
  k_dec_nak :: "bytes \<Rightarrow> HelloNak res"
  k_dec_ack :: "bytes \<Rightarrow> HelloAck res"
  k_dec_result :: "bytes \<Rightarrow> Result res"
  k_dec_credit :: "bytes \<Rightarrow> Credits res"
  k_dec_dict :: "bytes \<Rightarrow> (u32 \<times> bytes) res"
  k_dec_ping :: "bytes \<Rightarrow> Ping res"
  k_dec_command :: "bytes \<Rightarrow> ControlCommand res"
  k_level_name :: "u32 \<Rightarrow> string"
  k_write :: "nat \<Rightarrow> byte \<Rightarrow> bytes \<Rightarrow> go_err option"
  k_datagram :: "(nat \<Rightarrow> bytes \<Rightarrow> go_err option) option"
  k_close :: "go_err option"
  k_limitSetter :: bool
  k_authMarker :: bool

record CoreClient =
  ct_transport :: bool
  ct_cfg :: CoreClientConfig
  ct_sm :: StateMachine
  ct_sessionID :: "bytes option"
  ct_expiry :: i64
  ct_closed :: bool
  ct_seq :: SeqGenerator
  ct_ledger :: "CreditLedger option"
  ct_keys :: "SessionKeys option"
  ct_negCaps :: "string list option"
  ct_codec :: "Codec option"
  ct_limits :: "Limits option"
  ct_zdict :: "ZstdDictCodec option"
  ct_resultHandler :: bool
  ct_redirectHandler :: bool
  ct_redirectInflight :: bool
  ct_commandHandler :: "(ControlCommand \<Rightarrow> (u32 \<times> string) option) option"
  ct_seenCommands :: "string set"
  ct_commands :: "(ControlCommand \<times> (u32 \<times> string) option) list" \<comment> \<open>handlers running, with what they will return\<close>
  ct_running :: bool \<comment> \<open>the lifecycle context is alive\<close>
  ct_ackQueue :: "resultNotify list option"
  ct_drainCh :: bool
  ct_closeOnce :: bool
  ct_connErr :: "go_err option"
  ct_connClosed :: bool
  ct_frameLimit :: "u64 option"
  ct_authMarked :: bool
  ct_writes :: nat
  ct_sent :: "(byte \<times> bytes) list"
  ct_datagrams :: "bytes list"
  ct_notified :: "resultNotify list" \<comment> \<open>calls of the result handler\<close>
  ct_redirects :: "bytes list" \<comment> \<open>calls of the redirect handler\<close>

definition ackQueueSize :: nat where "ackQueueSize = 1024"

definition NewCoreClient :: "bool \<Rightarrow> CoreClientConfig \<Rightarrow> CoreClient" where
  "NewCoreClient tr cfg =
    \<lparr>ct_transport = tr, ct_cfg = cfg\<lparr>cg_AckTimeout := (if cg_AckTimeout cfg = 0 then 5 * 60 * 10 ^ 9 else cg_AckTimeout cfg)\<rparr>,
     ct_sm = NewStateMachine, ct_sessionID = None, ct_expiry = 0, ct_closed = False, ct_seq = NewSeqGenerator, ct_ledger = None,
     ct_keys = None, ct_negCaps = None, ct_codec = None, ct_limits = None, ct_zdict = None, ct_resultHandler = False,
     ct_redirectHandler = False, ct_redirectInflight = False, ct_commandHandler = None, ct_seenCommands = {}, ct_commands = [],
     ct_running = False, ct_ackQueue = None, ct_drainCh = False, ct_closeOnce = False, ct_connErr = None, ct_connClosed = False,
     ct_frameLimit = None, ct_authMarked = False, ct_writes = 0, ct_sent = [], ct_datagrams = [], ct_notified = [], ct_redirects = []\<rparr>"

definition SetTransport :: "CoreClient \<Rightarrow> CoreClient" where
  "SetTransport c = c\<lparr>ct_transport := True\<rparr>"

definition WriteFrame :: "cenv \<Rightarrow> byte \<Rightarrow> bytes \<Rightarrow> CoreClient \<Rightarrow> go_err option \<times> CoreClient" where
  "WriteFrame E ty p c =
    (let c' = c\<lparr>ct_writes := Suc (ct_writes c)\<rparr>
     in case k_write E (ct_writes c) ty p of
          Some e \<Rightarrow> (Some e, c')
        | None \<Rightarrow> (None, c'\<lparr>ct_sent := ct_sent c @ [(ty, p)]\<rparr>))"

definition SelectedCapabilities :: "CoreClient \<Rightarrow> string list" where
  "SelectedCapabilities c = (case ct_negCaps c of Some caps \<Rightarrow> caps | None \<Rightarrow> [])"

definition getSessionID :: "CoreClient \<Rightarrow> bytes" where
  "getSessionID c = (case ct_sessionID c of Some s \<Rightarrow> s | None \<Rightarrow> [])"

section \<open>Handshake\<close>

text \<open>The comparison runs over all bytes whatever it finds.\<close>

definition hmacEqual :: "bytes \<Rightarrow> bytes \<Rightarrow> bool" where
  "hmacEqual a b = (if length a \<noteq> length b then False else foldl (\<lambda>v (x, y). v OR (x XOR y)) 0 (zip a b) = 0)"

definition deriveKeys :: "cenv \<Rightarrow> EphemeralKey \<Rightarrow> HelloAck \<Rightarrow> bytes \<Rightarrow> bytes \<Rightarrow> CoreClient \<Rightarrow> SessionKeys res" where
  "deriveKeys E priv ack thHello tokenProof c =
    (let p = cg_Profile (ct_cfg c) in
     case DeriveZZ (k_crypto E) p priv (ha_ServerEph ack) of
       Inl e \<Rightarrow> Inl e
     | Inr zz \<Rightarrow> DeriveSessionKeysWithCaps (k_crypto E) p zz thHello tokenProof (ha_SelectedCapabilities ack))"

definition boolStr :: "bool \<Rightarrow> string" where
  "boolStr b = (if b then ''true'' else ''false'')"

text \<open>What a confirmed acknowledgement does to the client.\<close>

definition establish :: "cenv \<Rightarrow> HelloAck \<Rightarrow> SessionKeys \<Rightarrow> CoreClient \<Rightarrow> go_err option \<times> CoreClient" where
  "establish E ack keys c =
    (let c = c\<lparr>ct_keys := Some keys, ct_sessionID := Some (ha_SessionId ack), ct_negCaps := Some (ha_SelectedCapabilities ack),
           ct_codec := Some (CodecFor (ha_SelectedCapabilities ack)), ct_limits := ha_Limits ack,
           ct_ledger := Some (NewCreditLedger (cr_Batches (GetCredits ack)) (cr_Bytes (GetCredits ack)) 0 0),
           ct_expiry := ha_ExpiryUnix ack\<rparr>;
         c = (if k_limitSetter E \<and> 0 < lim_MaxFrameBytes (GetLimits ack)
              then c\<lparr>ct_frameLimit := Some (min (lim_MaxFrameBytes (GetLimits ack)) MaxFrameBytes)\<rparr> else c)
     in case Transition StateReady (ct_sm c) of
          (Some e, sm) \<Rightarrow> (Some (WrapError LocalSession ''transition ready'' e), c\<lparr>ct_sm := sm\<rparr>)
        | (None, sm) \<Rightarrow> (None, c\<lparr>ct_sm := sm, ct_authMarked := ct_authMarked c \<or> k_authMarker E\<rparr>))"

definition handleHelloAck :: "cenv \<Rightarrow> EphemeralKey \<Rightarrow> Hello \<Rightarrow> bytes \<Rightarrow> bytes \<Rightarrow> CoreClient \<Rightarrow> go_err option \<times> CoreClient" where
  "handleHelloAck E priv hello thHello payload c =
    (case k_dec_ack E payload of
       Inl e \<Rightarrow> (Some (WrapError LocalHandshake ''decode hello_ack'' e), c)
     | Inr ack \<Rightarrow>
     case ValidateHelloAck (Some ack) of
       Some e \<Rightarrow> (Some e, c)
     | None \<Rightarrow>
     case deriveKeys E priv ack thHello (h_TokenProof hello) c of
       Inl e \<Rightarrow> (Some e, c)
     | Inr keys \<Rightarrow>
     case TranscriptFull (k_crypto E) (cg_Profile (ct_cfg c)) hello ack of
       Inl e \<Rightarrow> (Some e, c)
     | Inr thFull \<Rightarrow>
     if \<not> hmacEqual (FinishedMAC (k_crypto E) keys thFull) (ha_Finished ack) then
       (Some (NewError ErrCodeAuthFailed ''server finished MAC mismatch''), c)
     else establish E ack keys c)"

definition clientHello :: "CoreClientConfig \<Rightarrow> bytes \<Rightarrow> Hello" where
  "clientHello cfg pub = \<lparr>h_Profile = cg_Profile cfg, h_AgentId = cg_AgentID cfg, h_Meta = cg_Meta cfg,
     h_Capabilities = cg_Capabilities cfg, h_ClientEph = pub, h_TokenProof = []\<rparr>"

text \<open>The first half sends the HELLO, the second waits for the answer.\<close>

definition sendHello :: "cenv \<Rightarrow> bytes res \<Rightarrow> CoreClient \<Rightarrow> (EphemeralKey \<times> Hello \<times> bytes) res \<times> CoreClient" where
  "sendHello E rnd c =
    (if \<not> ct_transport c then (Inl (NewError LocalConfig ''transport not injected''), c)
     else
     let cfg = ct_cfg c; cr = k_crypto E; p = cg_Profile cfg in
     case GenerateEphemeral cr p rnd of
       Inl e \<Rightarrow> (Inl e, c)
     | Inr (priv, pub) \<Rightarrow>
     let hello = clientHello cfg pub in
     case TranscriptHello cr p hello of
       Inl e \<Rightarrow> (Inl e, c)
     | Inr thHello \<Rightarrow>
     let hello = hello\<lparr>h_TokenProof := TokenProof cr p (cg_Token cfg) thHello\<rparr> in
     case k_encode E (CHello hello) of
       Inl e \<Rightarrow> (Inl (WrapError LocalHandshake ''marshal hello'' e), c)
     | Inr payload \<Rightarrow>
     (case WriteFrame E TypeHello payload c of
        (Some e, c) \<Rightarrow> (Inl (WrapError LocalHandshake ''write hello'' e), c)
      | (None, c) \<Rightarrow> (Inr (priv, hello, thHello), c)))"

definition handshakeReply :: "cenv \<Rightarrow> EphemeralKey \<Rightarrow> Hello \<Rightarrow> bytes \<Rightarrow> (byte \<times> bytes) res \<Rightarrow> CoreClient \<Rightarrow> go_err option \<times> CoreClient" where
  "handshakeReply E priv hello thHello reply c =
    (case reply of
       Inl e \<Rightarrow> (Some (WrapError LocalHandshake ''read hello_ack'' e), c)
     | Inr (ty, payload) \<Rightarrow>
         if ty = TypeHelloNak then
           (case k_dec_nak E payload of
              Inl e \<Rightarrow> (Some (WrapError LocalHandshake ''decode nak'' e), c)
            | Inr nak \<Rightarrow> (Some (NewError ErrCodeAuthFailed (''handshake rejected: '' @ CodeName (hn_Code nak) @ '' (retryable='' @
                boolStr (hn_Retryable nak) @ '')'')), c))
         else if ty = TypeHelloAck then handleHelloAck E priv hello thHello payload c
         else (Some (NewError LocalHandshake ''unexpected frame during handshake''), c))"

definition Client_Handshake :: "cenv \<Rightarrow> bytes res \<Rightarrow> (byte \<times> bytes) res \<Rightarrow> CoreClient \<Rightarrow> go_err option \<times> CoreClient" where
  "Client_Handshake E rnd reply c =
    (case sendHello E rnd c of
       (Inl e, c) \<Rightarrow> (Some e, c)
     | (Inr (priv, hello, thHello), c) \<Rightarrow> handshakeReply E priv hello thHello reply c)"

section \<open>Sending\<close>

definition dictCompressMinBytes :: nat where "dictCompressMinBytes = 512"
definition zstdCompressMinBytes :: nat where "zstdCompressMinBytes = 4096"

definition pickCompression :: "CoreClient \<Rightarrow> nat \<Rightarrow> Compression" where
  "pickCompression c batchWireLen =
    (if dictCompressMinBytes < batchWireLen \<and> ct_zdict c \<noteq> None \<and> CapZstdDict \<in> set (SelectedCapabilities c) then COMPRESSION_ZSTD_DICT
     else if zstdCompressMinBytes \<le> batchWireLen then COMPRESSION_ZSTD
     else COMPRESSION_NONE)"

record SendConfig =
  sc_TraceContext :: "TraceContext option"

type_synonym SendOption = "SendConfig \<Rightarrow> SendConfig"

definition WithTraceContext :: "TraceContext option \<Rightarrow> SendOption" where
  "WithTraceContext tc sc = sc\<lparr>sc_TraceContext := tc\<rparr>"

definition ApplySendOptions :: "SendOption list \<Rightarrow> SendConfig" where
  "ApplySendOptions opts = foldl (\<lambda>sc opt. opt sc) \<lparr>sc_TraceContext = None\<rparr> opts"

definition encodeAndSeal :: "cenv \<Rightarrow> time \<Rightarrow> SignalBatch \<Rightarrow> SendConfig \<Rightarrow> byte \<Rightarrow> CoreClient \<Rightarrow> (bytes \<times> u64) res \<times> CoreClient" where
  "encodeAndSeal E now sb sc frameType c =
    (if sm_state (ct_sm c) \<noteq> StateReady then (Inl (NewError LocalSession ''not ready''), c)
     else if 0 < sint (ct_expiry c) \<and> sint (ct_expiry c) < sint (Unix now) then
       (Inl (NewError ErrCodeServerDraining ''session expired, reconnect required''), c)
     else
     let codec = (case ct_codec c of Some v \<Rightarrow> v | None \<Rightarrow> CODEC_PROTO) in
     case MarshalSignalBatchCodec (k_signal_codecs E) codec (Some sb) of
       Inl e \<Rightarrow> (Inl (WrapError LocalBatch ''marshal signal batch'' e), c)
     | Inr batchWire \<Rightarrow>
     let (seq, sg) = Next (ct_seq c);
         c = c\<lparr>ct_seq := sg\<rparr>;
         batch = \<lparr>b_Seq = seq, b_Correlation = [], b_Trace = sc_TraceContext sc,
           b_EventsCount = word_of_nat (length (sb_Signals sb)), b_Payload = batchWire\<rparr>
     in case k_encode E (CBatch batch) of
          Inl e \<Rightarrow> (Inl (WrapError LocalBatch ''encode batch'' e), c)
        | Inr bw \<Rightarrow>
        case ct_keys c of
          None \<Rightarrow> (Inl (NewError LocalSession ''handshake incomplete''), c)
        | Some keys \<Rightarrow>
        case SealEnvelope (k_crypto E) (k_codecs E) (\<lambda>e. k_encode E (CEnvelope e))
            \<lparr>sl_FrameType = frameType, sl_SessionID = getSessionID c, sl_Seq = seq, sl_KeyEpoch = 0,
             sl_Compression = pickCompression c (length bw), sl_Keys = Some keys, sl_Dict = ct_zdict c, sl_BatchWire = bw,
             sl_DualMACKey = sk_DualMACKey keys\<rparr> of
          Inl e \<Rightarrow> (Inl e, c)
        | Inr envPayload \<Rightarrow> (Inr (envPayload, seq), c))"

text \<open>\<open>SendBatch\<close>: the part under the send lock, and the write after it.\<close>

definition reserve :: "cenv \<Rightarrow> time \<Rightarrow> SignalBatch \<Rightarrow> SendConfig \<Rightarrow> CoreClient \<Rightarrow> (bytes \<times> u64) res \<times> CoreClient" where
  "reserve E now sb sc c =
    (case encodeAndSeal E now sb sc TypeBatch c of
       (Inl e, c) \<Rightarrow> (Inl e, c)
     | (Inr (envPayload, seq), c) \<Rightarrow>
         (case ct_ledger c of
            None \<Rightarrow> (Inl (NewError LocalSession ''handshake incomplete''), c)
          | Some l \<Rightarrow>
              (case Consume seq (len64 envPayload) [] (now + cg_AckTimeout (ct_cfg c)) now l of
                 Inl e \<Rightarrow> (Inl e, c)
               | Inr l' \<Rightarrow> (Inr (envPayload, seq), c\<lparr>ct_ledger := Some l'\<rparr>))))"

definition write_batch :: "cenv \<Rightarrow> bytes \<Rightarrow> u64 \<Rightarrow> CoreClient \<Rightarrow> u64 res \<times> CoreClient" where
  "write_batch E envPayload seq c =
    (case WriteFrame E TypeBatch envPayload c of
       (Some e, c) \<Rightarrow> (Inl (WrapError LocalBatch ''write batch'' e), c\<lparr>ct_ledger := map_option (\<lambda>l. snd (Rollback seq l)) (ct_ledger c)\<rparr>)
     | (None, c) \<Rightarrow> (Inr seq, c))"

definition SendBatch :: "cenv \<Rightarrow> time \<Rightarrow> SignalBatch option \<Rightarrow> SendOption list \<Rightarrow> CoreClient \<Rightarrow> u64 res \<times> CoreClient" where
  "SendBatch E now sb' opts c =
    (case sb' of None \<Rightarrow> (Inl (NewError LocalBatch ''batch must not be nil''), c)
     | Some sb \<Rightarrow>
         (case reserve E now sb (ApplySendOptions opts) c of
            (Inl e, c) \<Rightarrow> (Inl e, c)
          | (Inr (envPayload, seq), c) \<Rightarrow> write_batch E envPayload seq c))"

definition SendDatagram :: "cenv \<Rightarrow> time \<Rightarrow> SignalBatch option \<Rightarrow> SendOption list \<Rightarrow> CoreClient \<Rightarrow> u64 res \<times> CoreClient" where
  "SendDatagram E now sb' opts c =
    (case sb' of None \<Rightarrow> (Inl (NewError LocalBatch ''batch must not be nil''), c)
     | Some sb \<Rightarrow>
         (case k_datagram E of
            None \<Rightarrow> SendBatch E now sb' opts c
          | Some send \<Rightarrow>
              if CapDatagram \<notin> set (SelectedCapabilities c) then SendBatch E now sb' opts c
              else
                (case encodeAndSeal E now sb (ApplySendOptions opts) TypeDgram c of
                   (Inl e, c) \<Rightarrow> (Inl e, c)
                 | (Inr (envPayload, seq), c) \<Rightarrow>
                     (case send (length (ct_datagrams c)) envPayload of
                        Some e \<Rightarrow> (Inl (WrapError LocalBatch ''send datagram'' e), c)
                      | None \<Rightarrow> (Inr seq, c\<lparr>ct_datagrams := ct_datagrams c @ [envPayload]\<rparr>)))))"

section \<open>Lifecycle\<close>

definition SetResultHandler :: "CoreClient \<Rightarrow> CoreClient" where
  "SetResultHandler c = c\<lparr>ct_resultHandler := True\<rparr>"

definition SetRedirectHandler :: "CoreClient \<Rightarrow> CoreClient" where
  "SetRedirectHandler c = c\<lparr>ct_redirectHandler := True\<rparr>"

definition SetCommandHandler :: "(ControlCommand \<Rightarrow> (u32 \<times> string) option) option \<Rightarrow> CoreClient \<Rightarrow> CoreClient" where
  "SetCommandHandler h c = c\<lparr>ct_commandHandler := h\<rparr>"

definition StartLifecycle :: "CoreClient \<Rightarrow> CoreClient" where
  "StartLifecycle c = (if ct_closed c then c else c\<lparr>ct_running := True, ct_ackQueue := Some []\<rparr>)"

definition teardownPhase :: "CoreClient \<Rightarrow> CoreClient" where
  "teardownPhase c = c\<lparr>ct_running := False, ct_sm := ForceClosed (ct_sm c), ct_ledger := map_option Reset (ct_ledger c), ct_drainCh := True\<rparr>"

definition CloseConn :: "cenv \<Rightarrow> CoreClient \<Rightarrow> go_err option \<times> CoreClient" where
  "CloseConn E c = (if ct_transport c then (k_close E, c\<lparr>ct_connClosed := True\<rparr>) else (None, c))"

definition fatalTeardown :: "cenv \<Rightarrow> CoreClient \<Rightarrow> CoreClient" where
  "fatalTeardown E c = snd (CloseConn E (teardownPhase (c\<lparr>ct_closed := True\<rparr>)))"

text \<open>
  \<open>Close\<close>, once: the CLOSE frame and the change to draining; then the wait, which other steps fill; then the rest.
\<close>

definition close_begin :: "cenv \<Rightarrow> CoreClient \<Rightarrow> bool \<times> CoreClient" where
  "close_begin E c =
    (if ct_closeOnce c then (False, c)
     else
     let c = c\<lparr>ct_closeOnce := True, ct_closed := True\<rparr>;
         c = (case k_encode E (CClose \<lparr>cl_Reason = ''client closing'', cl_DrainTimeoutMs = 0\<rparr>) of
                Inl _ \<Rightarrow> c
              | Inr payload \<Rightarrow> if ct_transport c then snd (WriteFrame E TypeClose payload c) else c)
     in case Transition StateDraining (ct_sm c) of (e, sm) \<Rightarrow> (e = None, c\<lparr>ct_sm := sm\<rparr>))"

definition drain_over :: "bool \<Rightarrow> CoreClient \<Rightarrow> bool" where
  "drain_over timedOut c = (case ct_ledger c of None \<Rightarrow> True | Some l \<Rightarrow> Drained l \<or> timedOut)"

definition close_end :: "cenv \<Rightarrow> CoreClient \<Rightarrow> CoreClient" where
  "close_end E c = (case CloseConn E (teardownPhase c) of (e, c) \<Rightarrow> c\<lparr>ct_connErr := e\<rparr>)"

definition notifyDrainIfEmpty :: "CoreClient \<Rightarrow> CoreClient" where
  "notifyDrainIfEmpty c = (case ct_ledger c of Some l \<Rightarrow> if Drained l then c\<lparr>ct_drainCh := True\<rparr> else c | None \<Rightarrow> c)"

section \<open>Control frames\<close>

definition dispatchResult :: "resultNotify \<Rightarrow> CoreClient \<Rightarrow> CoreClient" where
  "dispatchResult n c = (case ct_ackQueue c of None \<Rightarrow> c
     | Some q \<Rightarrow> if length q < ackQueueSize then c\<lparr>ct_ackQueue := Some (q @ [n])\<rparr> else c)"

definition handleResult :: "cenv \<Rightarrow> bytes \<Rightarrow> CoreClient \<Rightarrow> CoreClient" where
  "handleResult E payload c =
    (case k_dec_result E payload of Inl _ \<Rightarrow> c | Inr r \<Rightarrow>
     if ValidateResultLevel (r_Level r) \<noteq> None then c
     else case ct_ledger c of None \<Rightarrow> c | Some l \<Rightarrow>
       dispatchResult \<lparr>rn_seq = r_RefSeq r, rn_level = k_level_name E (r_Level r), rn_code = r_Code r, rn_correlation = r_Correlation r\<rparr>
         (notifyDrainIfEmpty (c\<lparr>ct_ledger := Some (snd (Terminal (r_RefSeq r) l))\<rparr>)))"

definition handleCredit :: "cenv \<Rightarrow> bytes \<Rightarrow> CoreClient \<Rightarrow> CoreClient" where
  "handleCredit E payload c =
    (case k_dec_credit E payload of Inl _ \<Rightarrow> c | Inr cr \<Rightarrow>
     if cr_Batches cr = 0 \<or> cr_Bytes cr = 0 then fatalTeardown E c
     else case ct_ledger c of None \<Rightarrow> c | Some l \<Rightarrow> c\<lparr>ct_ledger := Some (OnCredit (cr_Batches cr) (cr_Bytes cr) l)\<rparr>)"

text \<open>The registry of dictionaries is shared by the process.\<close>

definition handleDict :: "cenv \<Rightarrow> bytes \<Rightarrow> CoreClient \<times> zstdDictRegistry \<Rightarrow> CoreClient \<times> zstdDictRegistry" where
  "handleDict E payload = (\<lambda>(c, reg).
    if CapZstdDict \<notin> set (SelectedCapabilities c) then (c, reg)
    else case k_dec_dict E payload of Inl _ \<Rightarrow> (c, reg) | Inr (did, dict) \<Rightarrow>
      if MaxZstdDictBytes < length dict then (c, reg)
      else (case RegisterZstdDict (k_crypto E) (k_mkdec E) did dict reg of
              (Inl _, reg) \<Rightarrow> (c, reg)
            | (Inr codec, reg) \<Rightarrow> (c\<lparr>ct_zdict := Some codec\<rparr>, reg)))"

definition Client_handlePing :: "cenv \<Rightarrow> bytes \<Rightarrow> CoreClient \<Rightarrow> CoreClient" where
  "Client_handlePing E payload c =
    (case k_dec_ping E payload of Inl _ \<Rightarrow> c | Inr ping \<Rightarrow>
     case k_encode E (CPong \<lparr>po_TimeUnixNs = pi_TimeUnixNs ping, po_Nonce = pi_Nonce ping, po_Status = ''ok''\<rparr>) of
       Inl _ \<Rightarrow> c | Inr p \<Rightarrow> snd (WriteFrame E TypePong p c))"

text \<open>One tick of the heartbeat; it says whether the loop goes on.\<close>

definition heartbeat :: "cenv \<Rightarrow> time \<Rightarrow> CoreClient \<Rightarrow> bool \<times> CoreClient" where
  "heartbeat E now c =
    (case k_encode E (CPing \<lparr>pi_TimeUnixNs = word_of_int now, pi_Nonce = []\<rparr>) of
       Inl _ \<Rightarrow> (True, c)
     | Inr p \<Rightarrow> (case WriteFrame E TypePing p c of (e, c) \<Rightarrow> (e = None, c)))"

text \<open>The redirect handler runs at most once at a time; the second definition is its return.\<close>

definition dispatchRedirect :: "bytes \<Rightarrow> CoreClient \<Rightarrow> CoreClient" where
  "dispatchRedirect payload c =
    (if \<not> ct_redirectHandler c then c
     else if ct_redirectInflight c then c
     else c\<lparr>ct_redirectInflight := True, ct_redirects := ct_redirects c @ [payload]\<rparr>)"

definition redirect_return :: "CoreClient \<Rightarrow> CoreClient" where
  "redirect_return c = c\<lparr>ct_redirectInflight := False\<rparr>"

text \<open>One tick of the result timeout.\<close>

definition ack_reap :: "time \<Rightarrow> CoreClient \<Rightarrow> CoreClient" where
  "ack_reap now c =
    (case ct_ledger c of None \<Rightarrow> c | Some l \<Rightarrow>
     case ReapExpired now l of (ss, l') \<Rightarrow>
       notifyDrainIfEmpty (foldl (\<lambda>c s. dispatchResult \<lparr>rn_seq = os_Seq s, rn_level = ''timeout'', rn_code = CodeInternal,
         rn_correlation = []\<rparr> c) (c\<lparr>ct_ledger := Some l'\<rparr>) ss))"

text \<open>The worker hands the next result to the application; a panic there is contained.\<close>

definition result_next :: "CoreClient \<Rightarrow> CoreClient" where
  "result_next c = (case ct_ackQueue c of
     Some (n # q) \<Rightarrow> c\<lparr>ct_ackQueue := Some q, ct_notified := (if ct_resultHandler c then ct_notified c @ [n] else ct_notified c)\<rparr>
   | _ \<Rightarrow> c)"

section \<open>Commands\<close>

definition sendCommandAck :: "cenv \<Rightarrow> string \<Rightarrow> u32 \<Rightarrow> string \<Rightarrow> CoreClient \<Rightarrow> CoreClient" where
  "sendCommandAck E commandId code m c =
    (case k_encode E (CCommandAck \<lparr>ca_CommandId = commandId, ca_Code = code, ca_Message = m\<rparr>) of
       Inl _ \<Rightarrow> c | Inr p \<Rightarrow> snd (WriteFrame E TypeCommandAck p c))"

definition dispatchCommand :: "cenv \<Rightarrow> bytes \<Rightarrow> CoreClient \<Rightarrow> CoreClient" where
  "dispatchCommand E payload c =
    (case ct_commandHandler c of None \<Rightarrow> c | Some f \<Rightarrow>
     case k_dec_command E payload of Inl _ \<Rightarrow> c | Inr cmd \<Rightarrow>
       if cc_CommandId cmd = [] then c
       else if cc_CommandId cmd \<in> ct_seenCommands c then c
       else
         let seen' = insert (cc_CommandId cmd) (ct_seenCommands c) in
         c\<lparr>ct_seenCommands := (if 256 < card seen' then {} else seen'), ct_commands := ct_commands c @ [(cmd, f cmd)]\<rparr>)"

text \<open>The \<open>i\<close>-th running handler ends; \<open>None\<close> is a panic.\<close>

definition command_return :: "cenv \<Rightarrow> nat \<Rightarrow> CoreClient \<Rightarrow> CoreClient" where
  "command_return E i c =
    (if i < length (ct_commands c) then
       let (cmd, answer) = ct_commands c ! i; c' = c\<lparr>ct_commands := take i (ct_commands c) @ drop (Suc i) (ct_commands c)\<rparr> in
       (case answer of
          None \<Rightarrow> sendCommandAck E (cc_CommandId cmd) COMMAND_ACK_CODE_FAILED ''handler panicked'' c'
        | Some (code, m) \<Rightarrow> sendCommandAck E (cc_CommandId cmd) code m c')
     else c)"

section \<open>The control loop\<close>

text \<open>What \<open>ReadFrame\<close> returns: a frame, or an error that is temporary or not.\<close>

datatype read_result = ReadFrame_ok byte bytes | ReadFrame_err bool

text \<open>One iteration; the first component says whether the loop goes on.\<close>

definition read_control :: "cenv \<Rightarrow> read_result \<Rightarrow> CoreClient \<times> zstdDictRegistry \<Rightarrow> bool \<times> CoreClient \<times> zstdDictRegistry" where
  "read_control E r = (\<lambda>(c, reg).
    if \<not> ct_running c then (False, c, reg)
    else case r of
      ReadFrame_err temporary \<Rightarrow> if temporary then (True, c, reg) else (False, fatalTeardown E c, reg)
    | ReadFrame_ok ty payload \<Rightarrow>
        if ty = TypeResult then (True, handleResult E payload c, reg)
        else if ty = TypeCredit then (True, handleCredit E payload c, reg)
        else if ty = TypeClose then (False, fatalTeardown E c, reg)
        else if ty = TypeAbort then (False, fatalTeardown E c, reg)
        else if ty = TypePing then (True, Client_handlePing E payload c, reg)
        else if ty = TypePong then (True, c, reg)
        else if ty = TypeRedirect then (True, dispatchRedirect payload c, reg)
        else if ty = TypeCommand then (True, dispatchCommand E payload c, reg)
        else if ty = TypeDict then (case handleDict E payload (c, reg) of (c, reg) \<Rightarrow> (True, c, reg))
        else (True, c, reg))"

fun ReadControlLoop :: "cenv \<Rightarrow> read_result list \<Rightarrow> CoreClient \<times> zstdDictRegistry \<Rightarrow> CoreClient \<times> zstdDictRegistry" where
  "ReadControlLoop E [] s = s"
| "ReadControlLoop E (r # rs) s = (case read_control E r s of (True, s) \<Rightarrow> ReadControlLoop E rs s | (False, s) \<Rightarrow> s)"


section \<open>The handshake, seen from the client\<close>

lemma xor_zero_iff: "x XOR y = 0 \<longleftrightarrow> x = y" for x y :: byte
  by (metis xor.assoc xor.left_neutral xor_self_eq)

lemma hmacEqual_eq: "hmacEqual a b \<longleftrightarrow> a = b"
proof -
  have "foldl (\<lambda>v (x, y). v OR (x XOR y)) v ps = 0 \<longleftrightarrow> v = 0 \<and> (\<forall>(x, y) \<in> set ps. x = y)" for v :: byte and ps
    by (induction ps arbitrary: v) (auto simp: or_eq_0_iff xor_zero_iff)
  then show ?thesis by (auto simp: hmacEqual_def list_eq_iff_zip_eq)
qed

lemma WriteFrame_sel:
  "ct_keys (snd (WriteFrame E ty p c)) = ct_keys c" "ct_sm (snd (WriteFrame E ty p c)) = ct_sm c" "ct_cfg (snd (WriteFrame E ty p c)) = ct_cfg c"
  "ct_ledger (snd (WriteFrame E ty p c)) = ct_ledger c" "ct_seq (snd (WriteFrame E ty p c)) = ct_seq c"
  "ct_closed (snd (WriteFrame E ty p c)) = ct_closed c"
  by (simp_all add: WriteFrame_def Let_def split: option.splits)

lemma sendHello_sel:
  assumes "sendHello E rnd c = (r, c')"
  shows "ct_keys c' = ct_keys c" "ct_sm c' = ct_sm c" "ct_cfg c' = ct_cfg c" "ct_ledger c' = ct_ledger c"
  using assms WriteFrame_sel [of E TypeHello _ c]
  by (auto simp: sendHello_def Let_def split: if_splits sum.splits prod.splits option.splits) (metis snd_conv)+

lemma establish_idle:
  assumes "sm_state (ct_sm c) = StateIdle"
  shows "fst (establish E ack keys c) = None" "sm_state (ct_sm (snd (establish E ack keys c))) = StateReady"
    "ct_keys (snd (establish E ack keys c)) = Some keys" "ct_sessionID (snd (establish E ack keys c)) = Some (ha_SessionId ack)"
    "ct_negCaps (snd (establish E ack keys c)) = Some (ha_SelectedCapabilities ack)"
    "ct_codec (snd (establish E ack keys c)) = Some (CodecFor (ha_SelectedCapabilities ack))"
    "ct_ledger (snd (establish E ack keys c)) = Some (NewCreditLedger (cr_Batches (GetCredits ack)) (cr_Bytes (GetCredits ack)) 0 0)"
    "ct_expiry (snd (establish E ack keys c)) = ha_ExpiryUnix ack"
  using assms by (simp_all add: establish_def Let_def Transition_def)

text \<open>The condition under which a client accepts a reply.\<close>

definition confirmed :: "cenv \<Rightarrow> EphemeralKey \<Rightarrow> Hello \<Rightarrow> bytes \<Rightarrow> (byte \<times> bytes) res \<Rightarrow> CoreClient \<Rightarrow> HelloAck \<Rightarrow> SessionKeys \<Rightarrow> bool" where
  "confirmed E priv hello th reply c ack keys \<longleftrightarrow> (\<exists>payload thFull. reply = Inr (TypeHelloAck, payload) \<and> k_dec_ack E payload = Inr ack \<and>
     ValidateHelloAck (Some ack) = None \<and> deriveKeys E priv ack th (h_TokenProof hello) c = Inr keys \<and>
     TranscriptFull (k_crypto E) (cg_Profile (ct_cfg c)) hello ack = Inr thFull \<and> ha_Finished ack = FinishedMAC (k_crypto E) keys thFull)"

lemma handshakeReply_confirmed: "confirmed E priv hello th reply c ack keys \<Longrightarrow> handshakeReply E priv hello th reply c = establish E ack keys c"
  by (auto simp: confirmed_def handshakeReply_def handleHelloAck_def hmacEqual_eq)

lemma handshakeReply_other:
  "\<nexists>ack keys. confirmed E priv hello th reply c ack keys \<Longrightarrow> fst (handshakeReply E priv hello th reply c) \<noteq> None \<and>
    snd (handshakeReply E priv hello th reply c) = c"
  by (auto simp: confirmed_def handshakeReply_def handleHelloAck_def hmacEqual_eq split: sum.splits option.splits)

lemma confirmed_cong: "ct_cfg c' = ct_cfg c \<Longrightarrow> confirmed E priv hello th reply c' = confirmed E priv hello th reply c"
  by (intro ext) (simp add: confirmed_def deriveKeys_def)

text \<open>
  C8. The client trusts a server only after key confirmation. From an idle client, \<open>Handshake\<close> succeeds exactly when the HELLO went out and the
  reply is a valid HELLO_ACK whose finished MAC is the one computed, with the keys the client derived itself, over the full transcript of its
  own HELLO and that acknowledgement; then the client is ready and holds exactly those keys. In every other case it stays idle, without keys
  and without ledger.
\<close>

theorem client_accepts_only_confirmed:
  assumes "sm_state (ct_sm c) = StateIdle" "ct_keys c = None" "ct_ledger c = None" "Client_Handshake E rnd reply c = (r, c')"
  shows "(r = None \<longleftrightarrow> (\<exists>priv hello th c1 ack keys. sendHello E rnd c = (Inr (priv, hello, th), c1) \<and>
       confirmed E priv hello th reply c ack keys \<and> sm_state (ct_sm c') = StateReady \<and> ct_keys c' = Some keys)) \<and>
    (r \<noteq> None \<longrightarrow> sm_state (ct_sm c') = StateIdle \<and> ct_keys c' = None \<and> ct_ledger c' = None)"
proof (cases "sendHello E rnd c")
  case (Pair sh c1)
  note s = sendHello_sel [OF Pair]
  show ?thesis
  proof (cases sh)
    case (Inl e)
    then have "r = Some e" "c' = c1" using assms(4) Pair by (simp_all add: Client_Handshake_def)
    then show ?thesis using assms(1-3) s Inl Pair by auto
  next
    case (Inr x)
    obtain priv hello th where x: "x = (priv, hello, th)" by (cases x)
    have h: "(r, c') = handshakeReply E priv hello th reply c1" using assms(4) Pair Inr x by (simp add: Client_Handshake_def)
    have cg: "confirmed E priv hello th reply c1 = confirmed E priv hello th reply c" by (rule confirmed_cong [OF s(3)])
    show ?thesis
    proof (cases "\<exists>ack keys. confirmed E priv hello th reply c ack keys")
      case True
      then obtain ack keys where ak: "confirmed E priv hello th reply c ack keys" by blast
      have "(r, c') = establish E ack keys c1" using h handshakeReply_confirmed [of E priv hello th reply c1] ak cg by simp
      then show ?thesis
        using establish_idle [of c1 E ack keys] s(2) assms(1) ak Pair Inr x by (metis fst_conv snd_conv)
    next
      case False
      then show ?thesis
        using handshakeReply_other [of E priv hello th reply c1] cg h s assms(1-3) Pair Inr x by (auto simp: prod_eq_iff)
    qed
  qed
qed

text \<open>A client on which the theorems apply.\<close>

definition demo_cenv :: cenv where
  "demo_cenv = \<lparr>k_crypto = demo_crypto, k_codecs = demo_codecs, k_signal_codecs = Map.empty, k_mkdec = (\<lambda>_ _. None), k_encode = (\<lambda>_. Inr [1]),
     k_dec_nak = (\<lambda>_. Inr \<lparr>hn_Code = CodeAuthFailed, hn_Retryable = True, hn_RetryHintMs = 1000\<rparr>), k_dec_ack = (\<lambda>_. Inl gopanic),
     k_dec_result = (\<lambda>_. Inl gopanic), k_dec_credit = (\<lambda>_. Inr \<lparr>cr_Batches = 9, cr_Bytes = -1\<rparr>), k_dec_dict = (\<lambda>_. Inl gopanic),
     k_dec_ping = (\<lambda>_. Inl gopanic), k_dec_command = (\<lambda>_. Inl gopanic), k_level_name = (\<lambda>_. []), k_write = (\<lambda>_ _ _. None),
     k_datagram = None, k_close = None, k_limitSetter = True, k_authMarker = True\<rparr>"

definition demo_client :: CoreClient where
  "demo_client = NewCoreClient True \<lparr>cg_AgentID = ''a'', cg_Meta = [], cg_Token = ''t'', cg_Capabilities = [], cg_Profile = PROFILE_INTL,
     cg_DrainTimeout = 0, cg_AckTimeout = 0\<rparr>"

lemma demo_client_simps [simp]:
  "sm_state (ct_sm demo_client) = StateIdle" "ct_keys demo_client = None" "ct_ledger demo_client = None" "ct_seq demo_client = NewSeqGenerator"
  by (simp_all add: demo_client_def NewCoreClient_def NewStateMachine_def)

theorem client_accepts_only_confirmed_witness:
  "sm_state (ct_sm (snd (Client_Handshake demo_cenv (Inr [5]) (Inr (TypeHelloNak, [])) demo_client))) = StateIdle"
proof -
  obtain r c' where h: "Client_Handshake demo_cenv (Inr [5]) (Inr (TypeHelloNak, [])) demo_client = (r, c')" by force
  have "r \<noteq> None"
    using h by (auto simp: Client_Handshake_def handshakeReply_def demo_cenv_def split: prod.splits sum.splits)
  with client_accepts_only_confirmed [OF _ _ _ h] h show ?thesis by simp
qed

end
