(* ===== verification/ClientRuns.thy ===== *)
theory ClientRuns
  imports Client
begin

text \<open>
  The life of a client: every call of the application and every iteration of its background loops, in any order, over the definitions of the
  theory \<open>Client\<close>. Shown are the bounds of its credit, that it never uses a nonce twice, and that the end of a session is final.
\<close>

section \<open>Everything a client does\<close>

text \<open>
  The calls of the application and the iterations of the background loops, in any order. A send is split at its lock: other steps
  may come between the reservation and the write. Each step also says which envelope it sealed.
\<close>

datatype client_op =
    CoReserve time SignalBatch SendConfig
  | CoWrite bytes u64
  | CoDatagram time "SignalBatch option" "SendOption list"
  | CoRead read_result
  | CoReap time
  | CoWorker
  | CoHeartbeat time
  | CoCommand nat
  | CoRedirected
  | CoCloseBegin
  | CoCloseEnd

type_synonym client_state = "CoreClient \<times> zstdDictRegistry"

fun client_step :: "cenv \<Rightarrow> client_state \<Rightarrow> client_op \<Rightarrow> client_state" where
  "client_step E (c, reg) (CoReserve now sb sc) = (snd (reserve E now sb sc c), reg)"
| "client_step E (c, reg) (CoWrite p seq) = (snd (write_batch E p seq c), reg)"
| "client_step E (c, reg) (CoDatagram now sb opts) = (snd (SendDatagram E now sb opts c), reg)"
| "client_step E (c, reg) (CoRead r) = snd (read_control E r (c, reg))"
| "client_step E (c, reg) (CoReap now) = (ack_reap now c, reg)"
| "client_step E (c, reg) CoWorker = (result_next c, reg)"
| "client_step E (c, reg) (CoHeartbeat now) = (snd (heartbeat E now c), reg)"
| "client_step E (c, reg) (CoCommand i) = (command_return E i c, reg)"
| "client_step E (c, reg) CoRedirected = (redirect_return c, reg)"
| "client_step E (c, reg) CoCloseBegin = (snd (close_begin E c), reg)"
| "client_step E (c, reg) CoCloseEnd = (close_end E c, reg)"

text \<open>How a step moves the ledger: by ledger operations with proper sizes.\<close>

definition ledger_moves :: "CoreClient \<Rightarrow> CoreClient \<Rightarrow> bool" where
  "ledger_moves c c' \<longleftrightarrow> (\<forall>l. ct_ledger c = Some l \<longrightarrow> (\<exists>xs. list_all op_size_ok xs \<and> ct_ledger c' = Some (foldl ledger_step l xs)))"

lemma ledger_moves_same: "ct_ledger c' = ct_ledger c \<Longrightarrow> ledger_moves c c'"
  unfolding ledger_moves_def by (intro allI impI exI [of _ "[]"]) simp

lemma ledger_moves_trans: "ledger_moves a b \<Longrightarrow> ledger_moves b c \<Longrightarrow> ledger_moves a c"
  unfolding ledger_moves_def by (metis foldl_append list_all_append)

lemma ledger_moves_one: "op_size_ok x \<Longrightarrow> ct_ledger c' = map_option (\<lambda>l. ledger_step l x) (ct_ledger c) \<Longrightarrow> ledger_moves c c'"
  unfolding ledger_moves_def by (intro allI impI exI [of _ "[x]"]) simp

text \<open>The length of a Go slice is an \<open>int\<close>.\<close>

definition slices_ok :: "cenv \<Rightarrow> bool" where
  "slices_ok E \<longleftrightarrow> (\<forall>m p. k_encode E m = Inr p \<longrightarrow> length p < 2 ^ 63)"

lemma encodeAndSeal_sel:
  assumes "encodeAndSeal E now sb sc ty c = (r, c')"
  shows "ct_ledger c' = ct_ledger c" "ct_cfg c' = ct_cfg c" "ct_closed c' = ct_closed c" "ct_sm c' = ct_sm c"
  using assms by (auto simp: encodeAndSeal_def Let_def split: if_splits sum.splits prod.splits option.splits)

lemma SealEnvelope_size: "slices_ok E \<Longrightarrow> SealEnvelope cr zl (\<lambda>e. k_encode E (CEnvelope e)) p = Inr b \<Longrightarrow> length b < 2 ^ 63"
  by (auto simp: SealEnvelope_def slices_ok_def Let_def split: option.splits if_splits sum.splits)

lemma encodeAndSeal_size:
  assumes "slices_ok E" "encodeAndSeal E now sb sc ty c = (Inr (p, seq), c')"
  shows "0 \<le> sint (len64 p)"
proof -
  have "length p < 2 ^ 63"
    using assms by (auto simp: encodeAndSeal_def Let_def split: if_splits sum.splits prod.splits option.splits dest: SealEnvelope_size)
  then show ?thesis by (simp add: sint_len64)
qed

lemma reserve_moves: "slices_ok E \<Longrightarrow> ledger_moves c (snd (reserve E now sb sc c))"
proof -
  assume E: "slices_ok E"
  obtain r c1 where e: "encodeAndSeal E now sb sc TypeBatch c = (r, c1)" by force
  note s = encodeAndSeal_sel [OF e]
  show ?thesis
  proof (cases r)
    case (Inl x)
    then show ?thesis using e s by (intro ledger_moves_same) (simp add: reserve_def)
  next
    case (Inr x)
    obtain p seq where x: "x = (p, seq)" by force
    show ?thesis
      using e s Inr x encodeAndSeal_size [OF E] 
      by (intro ledger_moves_one [of "LConsume seq (len64 p) [] (now + cg_AckTimeout (ct_cfg c)) now"])
        (auto simp: reserve_def split: option.splits sum.splits)
  qed
qed

lemma write_batch_moves: "ledger_moves c (snd (write_batch E p seq c))"
proof (cases "fst (WriteFrame E TypeBatch p c)")
  case None
  then show ?thesis
    using WriteFrame_sel(4) [of E TypeBatch p c] by (intro ledger_moves_same) (simp add: write_batch_def case_prod_beta)
next
  case (Some e)
  then show ?thesis
    using WriteFrame_sel(4) [of E TypeBatch p c]
    by (intro ledger_moves_one [of "LRollback seq"]) (simp_all add: write_batch_def case_prod_beta)
qed

lemma SendBatch_moves:
  assumes "slices_ok E"
  shows "ledger_moves c (snd (SendBatch E now sb opts c))"
proof (cases sb)
  case None
  then show ?thesis by (intro ledger_moves_same) (simp add: SendBatch_def)
next
  case (Some b)
  obtain r c1 where r: "reserve E now b (ApplySendOptions opts) c = (r, c1)" by force
  have m: "ledger_moves c c1" using reserve_moves [OF assms, of c now b "ApplySendOptions opts"] r by simp
  show ?thesis
    using m ledger_moves_trans [OF m write_batch_moves] Some r by (cases r) (auto simp: SendBatch_def split: prod.splits)
qed

lemma teardown_moves: "ledger_moves c (fatalTeardown E c)" "ledger_moves c (close_end E c)"
  by (intro ledger_moves_one [of LReset]; simp add: fatalTeardown_def close_end_def CloseConn_def teardownPhase_def split: prod.splits; fastforce)+

lemma dispatchResult_ledger [simp]: "ct_ledger (dispatchResult n c) = ct_ledger c"
  by (simp add: dispatchResult_def split: option.splits)

lemma notify_ledger [simp]: "ct_ledger (notifyDrainIfEmpty c) = ct_ledger c"
  by (simp add: notifyDrainIfEmpty_def split: option.splits)

lemma dispatch_all_ledger: "ct_ledger (foldl (\<lambda>c s. dispatchResult (f s) c) c ss) = ct_ledger c"
  by (induction ss arbitrary: c) simp_all

lemma handleResult_moves: "ledger_moves c (handleResult E payload c)"
proof (cases "\<exists>r l. k_dec_result E payload = Inr r \<and> ValidateResultLevel (r_Level r) = None \<and> ct_ledger c = Some l")
  case True
  then obtain r where "k_dec_result E payload = Inr r" "ValidateResultLevel (r_Level r) = None" by blast
  then show ?thesis
    using True by (intro ledger_moves_one [of "LTerminal (r_RefSeq r)"]) (auto simp: handleResult_def)
next
  case False
  then show ?thesis by (intro ledger_moves_same) (auto simp: handleResult_def split: sum.splits option.splits)
qed

lemma handleCredit_moves: "ledger_moves c (handleCredit E payload c)"
proof (cases "k_dec_credit E payload")
  case (Inl e)
  then show ?thesis by (intro ledger_moves_same) (simp add: handleCredit_def)
next
  case (Inr cr)
  then show ?thesis
    using teardown_moves(1) [of c E]
    by (cases "cr_Batches cr = 0 \<or> cr_Bytes cr = 0")
      (auto simp: handleCredit_def intro!: ledger_moves_one [of "LCredit (cr_Batches cr) (cr_Bytes cr)"] split: option.splits)
qed

lemma reap_moves: "ledger_moves c (ack_reap now c)"
  by (rule ledger_moves_one [of "LReap now"])
    (auto simp: ack_reap_def dispatch_all_ledger case_prod_beta split: option.splits)

lemma other_ledger:
  "ct_ledger (Client_handlePing E p c) = ct_ledger c" "ct_ledger (dispatchRedirect p c) = ct_ledger c"
  "ct_ledger (dispatchCommand E p c) = ct_ledger c" "ct_ledger (fst (handleDict E p (c, reg))) = ct_ledger c"
  "ct_ledger (result_next c) = ct_ledger c" "ct_ledger (snd (heartbeat E now c)) = ct_ledger c"
  "ct_ledger (command_return E i c) = ct_ledger c" "ct_ledger (redirect_return c) = ct_ledger c" "ct_ledger (snd (close_begin E c)) = ct_ledger c"
  by (auto simp: Client_handlePing_def dispatchRedirect_def dispatchCommand_def handleDict_def result_next_def heartbeat_def command_return_def
      redirect_return_def close_begin_def sendCommandAck_def WriteFrame_sel Let_def case_prod_beta split: sum.splits option.splits list.splits prod.splits)

lemma read_moves: "ledger_moves c (fst (snd (read_control E r (c, reg))))"
proof (cases r)
  case (ReadFrame_ok ty p)
  then show ?thesis
    using ledger_moves_same [of c c] teardown_moves(1) [of c E] handleResult_moves [of c E p] handleCredit_moves [of c E p]
      ledger_moves_same [OF other_ledger(1)] ledger_moves_same [OF other_ledger(2)] ledger_moves_same [OF other_ledger(3)]
      ledger_moves_same [OF other_ledger(4)]
    by (simp add: read_control_def case_prod_beta)
next
  case (ReadFrame_err t)
  then show ?thesis using ledger_moves_same [of c c] teardown_moves(1) [of c E] by (simp add: read_control_def)
qed

lemma SendDatagram_moves: "slices_ok E \<Longrightarrow> ledger_moves c (snd (SendDatagram E now sb opts c))"
  using SendBatch_moves [of E c now sb opts] ledger_moves_same [of c c]
  by (auto simp: SendDatagram_def intro!: ledger_moves_same split: option.splits prod.splits sum.splits dest: encodeAndSeal_sel(1))

lemma client_step_moves: "slices_ok E \<Longrightarrow> ledger_moves (fst s) (fst (client_step E s op))"
  using reserve_moves write_batch_moves SendDatagram_moves read_moves reap_moves teardown_moves ledger_moves_same [OF other_ledger(5)]
    ledger_moves_same [OF other_ledger(6)] ledger_moves_same [OF other_ledger(7)] ledger_moves_same [OF other_ledger(8)]
    ledger_moves_same [OF other_ledger(9)]
  by (cases s; cases op) simp_all


text \<open>
  C9. A client never spends more credit than it was granted. From the ledger of the HELLO_ACK, whatever the application sends and whatever frames the
  server answers with (hostile CREDIT amounts included), in any order with timeouts, rollbacks and teardown, the ledger stays well formed
  and the credit available stays between nothing and the initial grant.
\<close>

theorem client_credit_bounded:
  assumes "slices_ok E" "ct_ledger (fst s) = Some (NewCreditLedger b y 0 0)" "0 \<le> sint b" "0 \<le> sint y"
  shows "\<exists>l. ct_ledger (fst (foldl (client_step E) s ops)) = Some l \<and> ledger_inv l \<and>
    0 \<le> sint (fst (Available l)) \<and> sint (fst (Available l)) \<le> sint b \<and> 0 \<le> sint (snd (Available l)) \<and> sint (snd (Available l)) \<le> sint y"
proof -
  have "ledger_moves (fst s) (fst (foldl (client_step E) s ops))"
  proof (induction ops arbitrary: s)
    case Nil
    then show ?case by (simp add: ledger_moves_same)
  next
    case (Cons op ops)
    show ?case using ledger_moves_trans [OF client_step_moves [OF assms(1)] Cons.IH] by simp
  qed
  then obtain xs where xs: "list_all op_size_ok xs" "ct_ledger (fst (foldl (client_step E) s ops)) = Some (foldl ledger_step (NewCreditLedger b y 0 0) xs)"
    using assms(2) by (auto simp: ledger_moves_def)
  let ?l = "foldl ledger_step (NewCreditLedger b y 0 0) xs"
  have i: "ledger_inv ?l" by (rule ledger_inv_run [OF ledger_inv_New xs(1)])
  have g: "grantedB ?l = grantedB (NewCreditLedger b y 0 0)" "grantedY ?l = grantedY (NewCreditLedger b y 0 0)" by simp_all
  have c: "0 \<le> sint (grantedB ?l)" "sint (grantedB ?l) \<le> sint b" "0 \<le> sint (grantedY ?l)" "sint (grantedY ?l) \<le> sint y"
    unfolding g using assms(3,4) by (simp_all add: NewCreditLedger_def Let_def DefaultCreditClampBatches_def DefaultCreditClampBytes_def push_bit_eq_mult)
  have "sint (fst (Available ?l)) = sint (grantedB ?l) - sint (outB ?l)" "sint (snd (Available ?l)) = sint (grantedY ?l) - sint (outY ?l)"
    using i sint_avail [of ?l] by (simp_all add: ledger_inv_def)
  then show ?thesis using i c xs(2) by (auto simp: ledger_inv_def)
qed

section \<open>Nonces\<close>

text \<open>The numbers under which a step sealed an envelope.\<close>

definition seal_seq :: "cenv \<Rightarrow> time \<Rightarrow> SignalBatch \<Rightarrow> SendConfig \<Rightarrow> byte \<Rightarrow> CoreClient \<Rightarrow> u64 list" where
  "seal_seq E now sb sc ty c = (case fst (encodeAndSeal E now sb sc ty c) of Inl _ \<Rightarrow> [] | Inr (p, seq) \<Rightarrow> [seq])"

fun sealed_by :: "cenv \<Rightarrow> CoreClient \<Rightarrow> client_op \<Rightarrow> u64 list" where
  "sealed_by E c (CoReserve now sb sc) = seal_seq E now sb sc TypeBatch c"
| "sealed_by E c (CoDatagram now (Some sb) opts) = seal_seq E now sb (ApplySendOptions opts)
     (if k_datagram E \<noteq> None \<and> CapDatagram \<in> set (SelectedCapabilities c) then TypeDgram else TypeBatch) c"
| "sealed_by E c _ = []"

fun sealed_run :: "cenv \<Rightarrow> client_state \<Rightarrow> client_op list \<Rightarrow> u64 list" where
  "sealed_run E s [] = []"
| "sealed_run E s (op # ops) = sealed_by E (fst s) op @ sealed_run E (client_step E s op) ops"

text \<open>A step leaves the counter alone or takes the next number, and only that number is sealed.\<close>

definition counter_step :: "CoreClient \<Rightarrow> u64 list \<Rightarrow> CoreClient \<Rightarrow> bool" where
  "counter_step c ns c' \<longleftrightarrow> (ns = [] \<and> sg_seq (ct_seq c') = sg_seq (ct_seq c)) \<or>
     (sg_seq (ct_seq c') = sg_seq (ct_seq c) + 1 \<and> (ns = [] \<or> ns = [sg_seq (ct_seq c')]))"

lemma encodeAndSeal_counter: "counter_step c (seal_seq E now sb sc ty c) (snd (encodeAndSeal E now sb sc ty c))"
  by (auto simp: counter_step_def seal_seq_def encodeAndSeal_def Let_def Next_def split: sum.splits option.splits)

lemma reserve_seq: "ct_seq (snd (reserve E now sb sc c)) = ct_seq (snd (encodeAndSeal E now sb sc TypeBatch c))"
  by (auto simp: reserve_def split: prod.splits sum.splits option.splits)

lemma write_batch_seq [simp]: "ct_seq (snd (write_batch E p seq c)) = ct_seq c"
  by (simp add: write_batch_def case_prod_beta WriteFrame_sel split: option.splits)

lemma SendBatch_seq: "ct_seq (snd (SendBatch E now (Some sb) opts c)) = ct_seq (snd (encodeAndSeal E now sb (ApplySendOptions opts) TypeBatch c))"
proof -
  obtain r c1 where r: "reserve E now sb (ApplySendOptions opts) c = (r, c1)" by force
  then have "ct_seq c1 = ct_seq (snd (encodeAndSeal E now sb (ApplySendOptions opts) TypeBatch c))" using reserve_seq by (metis snd_conv)
  with r show ?thesis by (cases r) (auto simp: SendBatch_def)
qed

lemma dispatch_seq [simp]: "ct_seq (dispatchResult n c) = ct_seq c" "ct_seq (notifyDrainIfEmpty c) = ct_seq c"
  "ct_seq (fatalTeardown E c) = ct_seq c"
  by (simp_all add: dispatchResult_def notifyDrainIfEmpty_def fatalTeardown_def CloseConn_def teardownPhase_def split: option.splits)

lemma dispatch_all_seq: "ct_seq (foldl (\<lambda>c s. dispatchResult (f s) c) c ss) = ct_seq c"
  by (induction ss arbitrary: c) simp_all

lemma other_seq:
  "ct_seq (handleResult E p c) = ct_seq c" "ct_seq (handleCredit E p c) = ct_seq c"
  "ct_seq (Client_handlePing E p c) = ct_seq c" "ct_seq (dispatchRedirect p c) = ct_seq c"
  "ct_seq (dispatchCommand E p c) = ct_seq c" "ct_seq (fst (handleDict E p (c, reg))) = ct_seq c"
  "ct_seq (result_next c) = ct_seq c" "ct_seq (snd (heartbeat E now c)) = ct_seq c"
  "ct_seq (command_return E i c) = ct_seq c" "ct_seq (redirect_return c) = ct_seq c" "ct_seq (snd (close_begin E c)) = ct_seq c"
  "ct_seq (close_end E c) = ct_seq c" "ct_seq (ack_reap now c) = ct_seq c"
  by (auto simp: handleResult_def handleCredit_def Client_handlePing_def dispatchRedirect_def dispatchCommand_def handleDict_def result_next_def
      heartbeat_def command_return_def redirect_return_def close_begin_def close_end_def CloseConn_def teardownPhase_def sendCommandAck_def ack_reap_def
      dispatch_all_seq WriteFrame_sel Let_def case_prod_beta split: sum.splits option.splits list.splits prod.splits)

lemma read_seq: "ct_seq (fst (snd (read_control E r (c, reg)))) = ct_seq c"
  by (cases r) (simp_all add: read_control_def case_prod_beta other_seq)

lemma datagram_counter: "counter_step c (sealed_by E c (CoDatagram now sb opts)) (snd (SendDatagram E now sb opts c))"
proof (cases sb)
  case None
  then show ?thesis by (simp add: SendDatagram_def counter_step_def)
next
  case (Some b)
  let ?sc = "ApplySendOptions opts"
  have 1: "counter_step c (seal_seq E now b ?sc TypeBatch c) (snd (SendBatch E now sb opts c))"
    using encodeAndSeal_counter [of c E now b ?sc TypeBatch] by (simp add: counter_step_def SendBatch_seq Some)
  have 2: "ct_seq (snd (SendDatagram E now sb opts c)) = ct_seq (snd (encodeAndSeal E now b ?sc TypeDgram c))"
    if "k_datagram E \<noteq> None" "CapDatagram \<in> set (SelectedCapabilities c)"
    using that Some by (auto simp: SendDatagram_def split: prod.splits sum.splits option.splits)
  show ?thesis
  proof (cases "k_datagram E \<noteq> None \<and> CapDatagram \<in> set (SelectedCapabilities c)")
    case True
    then show ?thesis using 2 encodeAndSeal_counter [of c E now b ?sc TypeDgram] Some by (simp add: counter_step_def)
  next
    case False
    then have "SendDatagram E now sb opts c = SendBatch E now sb opts c" using Some by (auto simp: SendDatagram_def split: option.splits)
    with 1 False Some show ?thesis by auto
  qed
qed

lemma client_step_counter: "counter_step (fst s) (sealed_by E (fst s) op) (fst (client_step E s op))"
proof (cases s)
  case (Pair c reg)
  have same: "ct_seq c' = ct_seq c \<Longrightarrow> counter_step c [] c'" for c' by (simp add: counter_step_def)
  have "counter_step c (seal_seq E now sb sc TypeBatch c) (snd (reserve E now sb sc c))" for now sb sc
    using encodeAndSeal_counter [of c E now sb sc TypeBatch] by (simp add: counter_step_def reserve_seq)
  then show ?thesis
    using Pair datagram_counter same other_seq read_seq by (cases op) simp_all
qed

lemma sealed_increasing:
  assumes "unat (sg_seq (ct_seq (fst s))) + length ops < 2 ^ 64"
  shows "sorted_wrt (<) (map unat (sealed_run E s ops)) \<and> (\<forall>n \<in> set (sealed_run E s ops). unat (sg_seq (ct_seq (fst s))) < unat n)"
  using assms
proof (induction ops arbitrary: s)
  case (Cons op ops)
  let ?c = "fst s" let ?s' = "client_step E s op" let ?m = "unat (sg_seq (ct_seq (fst s)))" let ?m' = "unat (sg_seq (ct_seq (fst ?s')))"
  note st = client_step_counter [of s E op]
  have u: "unat (sg_seq (ct_seq ?c) + 1) = Suc ?m" using Cons.prems by (simp add: unat_word_ariths)
  have m': "?m \<le> ?m'" "?m' \<le> Suc ?m" using st u by (auto simp: counter_step_def)
  then have IH: "sorted_wrt (<) (map unat (sealed_run E ?s' ops))" "\<forall>n \<in> set (sealed_run E ?s' ops). ?m' < unat n"
    using Cons.IH [of ?s'] Cons.prems by auto
  have "sealed_by E ?c op = [] \<or> (sealed_by E ?c op = [sg_seq (ct_seq (fst ?s'))] \<and> ?m < ?m')"
    using st u by (auto simp: counter_step_def)
  then show ?case using IH m' by auto
qed simp


section \<open>After the end\<close>

definition finished :: "CoreClient \<Rightarrow> bool" where
  "finished c \<longleftrightarrow> sm_state (ct_sm c) = StateClosed"

lemma finished_seal: "finished c \<Longrightarrow> encodeAndSeal E now sb sc ty c = (Inl (NewError LocalSession ''not ready''), c)"
  by (simp add: finished_def encodeAndSeal_def)

lemma finished_write [simp]: "finished (snd (WriteFrame E ty p c)) = finished c"
  by (simp add: finished_def WriteFrame_sel)

lemma finished_send:
  assumes "finished c"
  shows "finished (snd (reserve E now sb sc c))" "finished (snd (SendDatagram E now osb opts c))"
    "fst (SendBatch E now (Some sb) opts c) = Inl (NewError LocalSession ''not ready'')"
  using assms finished_seal [OF assms]
  by (auto simp: reserve_def SendDatagram_def SendBatch_def split: option.splits prod.splits sum.splits)

lemma finished_upd [simp]:
  "finished (c\<lparr>ct_ledger := l\<rparr>) = finished c" "finished (c\<lparr>ct_ackQueue := q\<rparr>) = finished c" "finished (c\<lparr>ct_drainCh := d\<rparr>) = finished c"
  "finished (dispatchResult n c) = finished c" "finished (notifyDrainIfEmpty c) = finished c"
  by (simp_all add: finished_def dispatchResult_def notifyDrainIfEmpty_def split: option.splits)

lemma finished_teardown: "finished (fatalTeardown E c)" "finished (close_end E c)"
  by (simp_all add: finished_def fatalTeardown_def close_end_def CloseConn_def teardownPhase_def ForceClosed_def split: prod.splits)

lemma finished_all: "finished (foldl (\<lambda>c s. dispatchResult (f s) c) c ss) = finished c"
  by (induction ss arbitrary: c) simp_all

lemma finished_other:
  assumes "finished c"
  shows "finished (handleResult E p c)" "finished (handleCredit E p c)" "finished (Client_handlePing E p c)" "finished (dispatchRedirect p c)"
    "finished (dispatchCommand E p c)" "finished (fst (handleDict E p (c, reg)))" "finished (result_next c)" "finished (snd (heartbeat E now c))"
    "finished (command_return E i c)" "finished (redirect_return c)" "finished (snd (close_begin E c))" "finished (ack_reap now c)"
    "finished (snd (write_batch E q seq c))"
  using assms finished_teardown
  by (auto simp: handleResult_def handleCredit_def Client_handlePing_def dispatchRedirect_def dispatchCommand_def handleDict_def result_next_def
      heartbeat_def command_return_def redirect_return_def close_begin_def sendCommandAck_def ack_reap_def write_batch_def Transition_def
      finished_all Let_def case_prod_beta WriteFrame_sel split: sum.splits option.splits list.splits prod.splits)
    (auto simp: finished_def WriteFrame_sel)

lemma finished_step: "finished (fst s) \<Longrightarrow> finished (fst (client_step E s op)) \<and> sealed_by E (fst s) op = []"
proof -
  assume f: "finished (fst s)"
  have "finished (fst (snd (read_control E r (fst s, reg))))" for r reg
    using finished_other [OF f] finished_teardown f by (cases r) (simp_all add: read_control_def case_prod_beta)
  moreover have "sealed_by E (fst s) op = []"
    using finished_seal [OF f] by (cases "(E, fst s, op)" rule: sealed_by.cases) (simp_all add: seal_seq_def)
  ultimately show ?thesis using f finished_send [OF f] finished_other [OF f] finished_teardown by (cases s; cases op) auto
qed


lemma demo_slices: "slices_ok demo_cenv"
  by (simp add: slices_ok_def demo_cenv_def)

theorem client_credit_bounded_witness:
  "\<exists>l. ct_ledger (fst (foldl (client_step demo_cenv) (demo_client\<lparr>ct_ledger := Some (NewCreditLedger 4 100 0 0), ct_running := True\<rparr>,
      \<lparr>zr_reg = [], zr_ord = []\<rparr>) [CoRead (ReadFrame_ok TypeCredit []), CoReap 5])) = Some l \<and> sint (fst (Available l)) \<le> 4"
proof -
  let ?s = "(demo_client\<lparr>ct_ledger := Some (NewCreditLedger 4 100 0 0), ct_running := True\<rparr>, \<lparr>zr_reg = [], zr_ord = []\<rparr>)"
  have "ct_ledger (fst ?s) = Some (NewCreditLedger 4 100 0 0)" "0 \<le> sint (4 :: i64)" "0 \<le> sint (100 :: i64)" "sint (4 :: i64) = 4" by simp_all
  from client_credit_bounded [OF demo_slices this(1-3), of "[CoRead (ReadFrame_ok TypeCredit []), CoReap 5]"] this(4)
  show ?thesis by metis
qed



end
