(* ===== verification/Agreement.thy ===== *)
theory Agreement
  imports Client
begin

text \<open>
  The two ends of the handshake together: the client of \<open>internal/protocol/client.go\<close> against \<open>handleHello\<close> of
  \<open>internal/protocol/handler.go\<close>, over the key schedule of \<open>core/keyschedule.go\<close>. The curve and hash libraries enter through the laws
  \<open>ecdh_laws\<close>; the agreement itself is stated in the root theory.
\<close>

section \<open>What the handshake relies on\<close>

text \<open>Documented behaviour of the elliptic-curve and HMAC libraries.\<close>

definition ecdh_laws :: "crypto \<Rightarrow> bool" where
  "ecdh_laws cr \<longleftrightarrow> (\<forall>p a b. c_ecdh cr p a (c_pub cr p b) = c_ecdh cr p b (c_pub cr p a)) \<and> (\<forall>p k. c_newpub cr p (c_pub cr p k) = None) \<and>
     (\<forall>k. length (c_pub cr PROFILE_INTL k) = 32) \<and> (\<forall>k. length (c_pub cr PROFILE_GM k) = 65 \<and> c_pub cr PROFILE_GM k ! 0 = 0x04)"

definition private_key :: "EphemeralKey \<Rightarrow> bytes" where
  "private_key k = (case ek_x25519 k of Some b \<Rightarrow> b | None \<Rightarrow> (case ek_sm2 k of Some b \<Rightarrow> b | None \<Rightarrow> []))"

lemma GenerateEphemeral_Inr:
  assumes "GenerateEphemeral cr p rnd = Inr (k, pub)"
  shows "p \<in> {PROFILE_INTL, PROFILE_GM}" "rnd = Inr (private_key k)" "pub = c_pub cr p (private_key k)" "PubBytes cr k = Inr pub"
  using assms by (auto simp: GenerateEphemeral_def private_key_def PubBytes_def split: if_splits sum.splits)

lemma DeriveZZ_generated:
  assumes "ecdh_laws cr" "GenerateEphemeral cr p rnd = Inr (k, pub)"
  shows "DeriveZZ cr p k (c_pub cr p b) = Inr zz \<longleftrightarrow> c_ecdh cr p (private_key k) (c_pub cr p b) = Inr zz"
  using assms by (auto simp: GenerateEphemeral_def DeriveZZ_def ecdh_laws_def private_key_def split: if_splits sum.splits)

text \<open>Two key pairs derive the same secret.\<close>

lemma shared_secret:
  assumes "ecdh_laws cr" "GenerateEphemeral cr p r1 = Inr (k1, pub1)" "GenerateEphemeral cr p r2 = Inr (k2, pub2)"
  shows "DeriveZZ cr p k1 pub2 = Inr zz \<longleftrightarrow> DeriveZZ cr p k2 pub1 = Inr zz"
proof -
  have "c_ecdh cr p (private_key k1) pub2 = c_ecdh cr p (private_key k2) pub1"
    using assms(1) GenerateEphemeral_Inr(3) [OF assms(2)] GenerateEphemeral_Inr(3) [OF assms(3)] by (simp add: ecdh_laws_def)
  then show ?thesis
    using DeriveZZ_generated [OF assms(1,2)] DeriveZZ_generated [OF assms(1,3)] GenerateEphemeral_Inr(3) [OF assms(2)]
      GenerateEphemeral_Inr(3) [OF assms(3)] by simp
qed

lemma sendHello_Inr:
  assumes "sendHello K rnd c = (Inr (priv, hello, th), c1)"
  shows "\<exists>pub. GenerateEphemeral (k_crypto K) (cg_Profile (ct_cfg c)) rnd = Inr (priv, pub) \<and> h_ClientEph hello = pub \<and>
    h_Profile hello = cg_Profile (ct_cfg c) \<and> h_AgentId hello = cg_AgentID (ct_cfg c) \<and>
    TranscriptHello (k_crypto K) (cg_Profile (ct_cfg c)) hello = Inr th \<and>
    h_TokenProof hello = TokenProof (k_crypto K) (cg_Profile (ct_cfg c)) (cg_Token (ct_cfg c)) th"
  using assms
  by (auto simp: sendHello_def Let_def clientHello_def TranscriptHello_def CanonicalHello_def split: if_splits sum.splits prod.splits option.splits)

lemma verify_loop_mem: "t \<in> set toks \<Longrightarrow> verify_loop cr p th (TokenProof cr p t th) toks = None"
  by (induction toks) auto

lemma TranscriptFull_finished [simp]: "TranscriptFull cr p hello (a\<lparr>ha_Finished := f\<rparr>) = TranscriptFull cr p hello a"
proof -
  have "CanonicalHelloAck cr (a\<lparr>ha_Finished := f\<rparr>) = CanonicalHelloAck cr a" by (simp add: CanonicalHelloAck_def)
  then show ?thesis unfolding TranscriptFull_def by (simp only:)
qed

text \<open>The client derives the keys the server derived.\<close>

lemma deriveKeys_agree:
  assumes "ecdh_laws (k_crypto K)" "e_crypto E = k_crypto K" "sendHello K rnd c = (Inr (priv, hello, th), c1)"
    and "fst (deriveServerKeys E tk (h_Profile hello) (h_ClientEph hello) th (h_TokenProof hello) sel h) = Inr (keys, eph)"
    and "ha_ServerEph ack = eph" "ha_SelectedCapabilities ack = sel"
  shows "deriveKeys K priv ack th (h_TokenProof hello) c1 = Inr keys"
proof -
  obtain pub where s: "GenerateEphemeral (k_crypto K) (cg_Profile (ct_cfg c)) rnd = Inr (priv, pub)" "h_ClientEph hello = pub"
    "h_Profile hello = cg_Profile (ct_cfg c)"
    using sendHello_Inr [OF assms(3)] by blast
  obtain privS pubS zz where d: "GenerateEphemeral (k_crypto K) (h_Profile hello) (tk_rnd tk) = Inr (privS, pubS)"
    "DeriveZZ (k_crypto K) (h_Profile hello) privS (h_ClientEph hello) = Inr zz"
    "DeriveSessionKeysWithCaps (k_crypto K) (h_Profile hello) zz th (h_TokenProof hello) sel = Inr keys" "eph = ephPub (k_crypto K) privS"
    using assms(2,4) by (auto simp: deriveServerKeys_def split: sum.splits prod.splits)
  have "eph = pubS" using GenerateEphemeral_Inr(4) [OF d(1)] d(4) by (simp add: ephPub_def)
  then have "DeriveZZ (k_crypto K) (h_Profile hello) priv (ha_ServerEph ack) = Inr zz"
    using shared_secret [OF assms(1) s(1) d(1) [unfolded s(3)]] d(2) s(2,3) assms(5) by simp
  then show ?thesis using d(3) assms(6) s(3) sendHello_sel(3) [OF assms(3)] by (simp add: deriveKeys_def)
qed

text \<open>The acknowledgement of a valid policy passes the client's validation.\<close>

lemma helloAck_valid:
  assumes "Policy_Validate (hc_Policy (ch_config h)) = None" "0 < sint (ch_expiresAt h)" "f \<noteq> []"
  shows "ValidateHelloAck (Some ((helloAck eph sel h)\<lparr>ha_Finished := f\<rparr>)) = None"
  using assms by (auto simp: ValidateHelloAck_def helloAck_def Let_def GetCredits_def GetLimits_def Policy_Validate_def split: if_splits)

lemma handshake_agreement_eq:
  fixes K E c h hello rnd tk sh
  defines "sel \<equiv> selectedCaps (hc_Policy (ch_config h)) hello"
  assumes "ecdh_laws (k_crypto K)" "e_crypto E = k_crypto K" "\<forall>a. \<exists>b. c_marshal_ack (k_crypto K) a = Inr b"
    and "\<forall>h k m. c_hmac (k_crypto K) h k m \<noteq> []"
    and "sm_state (ct_sm c) = StateIdle" "sendHello K rnd c = (Inr (priv, hello, th), c1)" "ValidateHello (Some hello) = None"
    and "e_dec_hello E payload = Inr hello"
    and "cg_Profile (ct_cfg c) = sp_Profile (hc_Policy (ch_config h))" "Policy_Validate (hc_Policy (ch_config h)) = None"
    and "hc_ResolveToken (ch_config h) (cg_AgentID (ct_cfg c)) = Inr toks" "cg_Token (ct_cfg c) \<in> set toks"
    and "ssm_state (ch_sm h) = ServerStateHandshaking" "hc_RedirectChecker (ch_config h) = None" "wire_ok E"
    and "fst (deriveServerKeys E tk (h_Profile hello) (h_ClientEph hello) th (h_TokenProof hello) sel h) = Inr (keys, eph)"
    and "0 < sint (Unix (tk_now tk + DefaultSessionTTL))"
  shows "\<exists>h' sh' ack. handleHello E tk me payload (h, sh) = (None, h', sh') \<and>
    ch_sent h' = ch_sent h @ MHelloAck ack # dict_frames (hc_Policy (ch_config h)) sel \<and>
    ssm_state (ch_sm h') = ServerStateReady \<and> ch_authed h' \<and> ch_agentID h' = cg_AgentID (ct_cfg c) \<and> ch_keys h' = Some keys \<and>
    (\<forall>ackp. k_dec_ack K ackp = Inr ack \<longrightarrow> (\<exists>c2. handshakeReply K priv hello th (Inr (TypeHelloAck, ackp)) c1 = (None, c2) \<and>
      sm_state (ct_sm c2) = StateReady \<and> ct_keys c2 = Some keys \<and> ct_sessionID c2 = Some (ch_sessionID h') \<and>
      ct_negCaps c2 = ch_negCaps h' \<and> ct_codec c2 = ch_codec h' \<and> ct_expiry c2 = ch_expiresAt h' \<and>
      ct_ledger c2 = Some (NewCreditLedger (sp_InitialCreditBatches (hc_Policy (ch_config h))) (sp_InitialCreditBytes (hc_Policy (ch_config h))) 0 0)))"
proof -
  let ?cr = "k_crypto K" let ?p = "h_Profile hello" let ?pol = "hc_Policy (ch_config h)"
  let ?h1 = "h\<lparr>ch_negCaps := Some sel, ch_codec := Some (CodecFor sel), ch_keys := Some keys, ch_agentID := h_AgentId hello,
     ch_sessionID := tk_sid tk, ch_epoch := sh_epochs sh (h_AgentId hello) + 1, ch_expiresAt := Unix (tk_now tk + DefaultSessionTTL)\<rparr>"
  let ?ack0 = "helloAck eph sel ?h1"
  have s: "h_Profile hello = cg_Profile (ct_cfg c)" "h_AgentId hello = cg_AgentID (ct_cfg c)" "TranscriptHello ?cr ?p hello = Inr th"
    "h_TokenProof hello = TokenProof ?cr ?p (cg_Token (ct_cfg c)) th"
    using sendHello_Inr [OF assms(7)] by auto
  have v: "verified E (ch_config h) hello"
    using assms(3,8,10,12,13) s verify_loop_mem [OF assms(13), of ?cr ?p th] by (simp add: verified_def VerifyTokenProof_def)
  obtain thFull where tf: "TranscriptFull ?cr ?p hello ?ack0 = Inr thFull"
  proof -
    have "\<exists>b. CanonicalHello ?cr hello = Inr b" using s(3) by (auto simp: TranscriptHello_def split: sum.splits)
    moreover have "\<exists>b. CanonicalHelloAck ?cr ?ack0 = Inr b"
      using assms(4) by (metis CanonicalHelloAck_def sum.case(2))
    ultimately show ?thesis using that by (auto simp: TranscriptFull_def)
  qed
  let ?ack = "?ack0\<lparr>ha_Finished := FinishedMAC ?cr keys thFull\<rparr>"
  obtain sh' where srv: "handleHello E tk me payload (h, sh) =
     (None, notify SessionConnected (h_AgentId hello) (?h1\<lparr>ch_sm := \<lparr>ssm_state = ServerStateReady\<rparr>, ch_authed := True,
        ch_sent := ch_sent h @ [MHelloAck ?ack] @ dict_frames ?pol sel\<rparr>), sh')"
    using handshake_completes_eq [OF assms(9) v assms(14) s(3) [folded assms(3)] assms(17) [unfolded sel_def]
      tf [folded assms(3), unfolded sel_def] assms(16,15), of me]
    unfolding sel_def assms(3) by blast
  have "ValidateHelloAck (Some ?ack) = None"
    using assms(5,11,18) by (intro helloAck_valid) (simp_all add: FinishedMAC_def)
  moreover have "deriveKeys K priv ?ack th (h_TokenProof hello) c1 = Inr keys"
    by (rule deriveKeys_agree [OF assms(2,3,7,17)]) (simp_all add: helloAck_def Let_def)
  moreover have "cg_Profile (ct_cfg c1) = ?p" using s(1) sendHello_sel(3) [OF assms(7)] by simp
  ultimately have conf: "confirmed K priv hello th (Inr (TypeHelloAck, ackp)) c1 ?ack keys" if "k_dec_ack K ackp = Inr ?ack" for ackp
    unfolding confirmed_def using that tf by (intro exI [of _ ackp] exI [of _ thFull]) simp
  have idle: "sm_state (ct_sm c1) = StateIdle" using assms(6) sendHello_sel(2) [OF assms(7)] by simp
  note e = establish_idle [OF idle, of K ?ack keys]
  obtain c2 where c2: "establish K ?ack keys c1 = (None, c2)" using e(1) by (metis prod.collapse)
  have cl: "\<exists>c2. handshakeReply K priv hello th (Inr (TypeHelloAck, ackp)) c1 = (None, c2) \<and>
      sm_state (ct_sm c2) = StateReady \<and> ct_keys c2 = Some keys \<and> ct_sessionID c2 = Some (tk_sid tk) \<and>
      ct_negCaps c2 = Some sel \<and> ct_codec c2 = Some (CodecFor sel) \<and> ct_expiry c2 = Unix (tk_now tk + DefaultSessionTTL) \<and>
      ct_ledger c2 = Some (NewCreditLedger (sp_InitialCreditBatches ?pol) (sp_InitialCreditBytes ?pol) 0 0)" if "k_dec_ack K ackp = Inr ?ack" for ackp
    using handshakeReply_confirmed [OF conf [OF that]] e c2 by (simp add: helloAck_def Let_def GetCredits_def)
  show ?thesis
    by (intro exI conjI, rule srv, simp add: notify_def) (use cl s in \<open>simp_all add: notify_def\<close>)
qed

text \<open>Libraries that satisfy the laws, and both ends of a handshake over them.\<close>

definition agree_crypto :: crypto where
  "agree_crypto = demo_crypto\<lparr>c_hmac := (\<lambda>_ k m. 1 # k @ m),
     c_pub := (\<lambda>p k. if p = PROFILE_GM then 4 # replicate 64 (sum_list k) else replicate 32 (sum_list k)),
     c_ecdh := (\<lambda>_ a b. Inr [sum_list a + last b])\<rparr>"

lemma agree_laws: "ecdh_laws agree_crypto" "\<forall>h k m. c_hmac agree_crypto h k m \<noteq> []" "\<forall>a. \<exists>b. c_marshal_ack agree_crypto a = Inr b"
  by (auto simp: ecdh_laws_def agree_crypto_def demo_crypto_def add.commute)

lemma agree_derives: "DeriveSessionKeysWithCaps agree_crypto = DeriveSessionKeysWithCaps demo_crypto"
proof -
  have eq: "c_expand agree_crypto = c_expand demo_crypto" "c_extract agree_crypto = c_extract demo_crypto" by (simp_all add: agree_crypto_def)
  show ?thesis
    by (intro ext) (unfold DeriveSessionKeysWithCaps_def DeriveSessionKeys_def DeriveDualMACKey_def pskCK_def eq, rule refl)
qed

definition agree_client :: cenv where
  "agree_client = demo_cenv\<lparr>k_crypto := agree_crypto\<rparr>"

definition agree_hello :: Hello where
  "agree_hello = (let h = clientHello (ct_cfg demo_client) (replicate 32 5); th = transcriptHash agree_crypto PROFILE_INTL
       [bytes_of (ProfileName PROFILE_INTL), bytes_of ''a''] in h\<lparr>h_TokenProof := TokenProof agree_crypto PROFILE_INTL ''t'' th\<rparr>)"

definition agree_server :: env where
  "agree_server = demo_env\<lparr>e_crypto := agree_crypto, e_dec_hello := (\<lambda>_. Inr agree_hello)\<rparr>"


lemma agree_sends:
  "\<exists>c1. sendHello agree_client (Inr [5]) demo_client =
     (Inr (\<lparr>ek_profile = PROFILE_INTL, ek_x25519 = Some [5], ek_sm2 = None\<rparr>, agree_hello,
        transcriptHash agree_crypto PROFILE_INTL [bytes_of (ProfileName PROFILE_INTL), bytes_of ''a'']), c1)"
  by (simp add: sendHello_def agree_client_def demo_cenv_def demo_client_def NewCoreClient_def GenerateEphemeral_def Let_def agree_hello_def
      TranscriptHello_def CanonicalHello_def clientHello_def WriteFrame_def agree_crypto_def demo_crypto_def)

lemma agree_hello_valid: "ValidateHello (Some agree_hello) = None"
  by (simp add: ValidateHello_def agree_hello_def Let_def clientHello_def demo_client_def NewCoreClient_def validateAgentID_def MaxAgentIDLen_def
      hasStrictControlChars_bytes plain_char_def EphemeralPubLen_def TokenProof_def agree_crypto_def bytes_of_def)

lemma agree_server_keys:
  "\<exists>keys eph. fst (deriveServerKeys agree_server demo_tick (h_Profile agree_hello) (h_ClientEph agree_hello) th prf sel h) = Inr (keys, eph)"
proof -
  obtain keys where k: "DeriveSessionKeysWithCaps agree_crypto PROFILE_INTL [37] th prf sel = Inr keys"
    using demo_derives [of PROFILE_INTL] unfolding agree_derives by blast
  have h: "h_Profile agree_hello = PROFILE_INTL" "h_ClientEph agree_hello = replicate 32 5"
    by (simp_all add: agree_hello_def Let_def clientHello_def demo_client_def NewCoreClient_def)
  have g: "GenerateEphemeral agree_crypto PROFILE_INTL (tk_rnd demo_tick) =
      Inr (\<lparr>ek_profile = PROFILE_INTL, ek_x25519 = Some (replicate 32 1), ek_sm2 = None\<rparr>, c_pub agree_crypto PROFILE_INTL (replicate 32 1))"
    by (simp add: GenerateEphemeral_def demo_tick_def)
  have "DeriveZZ agree_crypto PROFILE_INTL \<lparr>ek_profile = PROFILE_INTL, ek_x25519 = Some (replicate 32 1), ek_sm2 = None\<rparr> (replicate 32 5) = Inr [37]"
    by (simp add: DeriveZZ_def agree_crypto_def demo_crypto_def) (simp add: numeral_eq_Suc)
  then show ?thesis unfolding deriveServerKeys_def h using g k by (simp add: agree_server_def)
qed

end
