(* ===== verification/FlowControl.thy ===== *)
theory FlowControl
  imports Ledger Conservation
begin

text \<open>
  Flow control across the wire: the client's \<open>CreditLedger\<close> and the server's \<open>CreditManager\<close> of \<open>core/credit.go\<close>, joined by the BATCH
  and CREDIT frames between them, as a step relation with an invariant.
\<close>

section \<open>Both ends of the flow control\<close>

text \<open>
  The client's ledger, the server's pool, the BATCH frames the client has charged and that have not reached the server, and the CREDIT frames
  on their way back. Both directions may reorder.
\<close>

record flow =
  fl_ledger :: CreditLedger
  fl_pool :: pool
  fl_up :: "(u64 \<times> i64) list"
  fl_down :: "(i64 \<times> i64) list"

text \<open>A BATCH frame arrives: admission, and the charge when it is accepted.\<close>

definition deliver_frame :: "u64 \<Rightarrow> i64 \<Rightarrow> time \<Rightarrow> pool \<Rightarrow> pool" where
  "deliver_frame seq n now p =
    (let p1 = mop_step p (MAdmit seq now) in
     if ar_Decision (fst (Admit seq now (mgr p))) = AdmitAccept then mop_step p1 (MConsume (length (grants p)) n) else p1)"

fun server_op :: "mop \<Rightarrow> bool" where
  "server_op (MAdmit _ _) = False"
| "server_op (MConsume _ _) = False"
| "server_op MTake = False"
| "server_op _ = True"

inductive flow_step :: "flow \<Rightarrow> flow \<Rightarrow> bool" where
  send: "Consume seq n corr dl now (fl_ledger f) = Inr l \<Longrightarrow> 0 < sint n \<Longrightarrow> seq \<noteq> -1 \<Longrightarrow> seq \<notin> fst ` set (fl_up f) \<Longrightarrow>
    map_of (slots (fl_ledger f)) seq = None \<Longrightarrow> flow_step f (f\<lparr>fl_ledger := l, fl_up := fl_up f @ [(seq, n)]\<rparr>)"
| write_fails: "(seq, n) \<in> set (fl_up f) \<Longrightarrow>
    flow_step f (f\<lparr>fl_ledger := snd (Rollback seq (fl_ledger f)), fl_up := remove1 (seq, n) (fl_up f)\<rparr>)"
| arrive: "(seq, n) \<in> set (fl_up f) \<Longrightarrow>
    flow_step f (f\<lparr>fl_pool := deliver_frame seq n now (fl_pool f), fl_up := remove1 (seq, n) (fl_up f)\<rparr>)"
| server: "server_op op \<Longrightarrow> disciplined (fl_pool f) op \<Longrightarrow> flow_step f (f\<lparr>fl_pool := mop_step (fl_pool f) op\<rparr>)"
| flush: "TakeRecovered (mgr (fl_pool f)) = ((b, y), m) \<Longrightarrow>
    flow_step f (f\<lparr>fl_pool := mop_step (fl_pool f) MTake, fl_down := fl_down f @ [(b, y)]\<rparr>)"
| credit: "(b, y) \<in> set (fl_down f) \<Longrightarrow>
    flow_step f (f\<lparr>fl_ledger := OnCredit b y (fl_ledger f), fl_down := remove1 (b, y) (fl_down f)\<rparr>)"
| result: "flow_step f (f\<lparr>fl_ledger := snd (Terminal seq (fl_ledger f))\<rparr>)"
| timeout: "flow_step f (f\<lparr>fl_ledger := snd (ReapExpired now (fl_ledger f))\<rparr>)"

definition init_flow :: "i64 \<Rightarrow> i64 \<Rightarrow> int \<Rightarrow> flow" where
  "init_flow b y cap = \<lparr>fl_ledger = NewCreditLedger b y 0 0, fl_pool = init_pool b y cap, fl_up = [], fl_down = []\<rparr>"

section \<open>The invariant\<close>

definition sizes :: "(u64 \<times> i64) list \<Rightarrow> int" where "sizes up = sum_list (map (\<lambda>(_, n). sint n) up)"
definition creditsB :: "(i64 \<times> i64) list \<Rightarrow> int" where "creditsB down = sum_list (map (\<lambda>(b, _). sint b) down)"
definition creditsY :: "(i64 \<times> i64) list \<Rightarrow> int" where "creditsY down = sum_list (map (\<lambda>(_, y). sint y) down)"

text \<open>The window: what the client may still send, has sent and will get back never exceeds what the server has outstanding.\<close>

definition window_ok :: "flow \<Rightarrow> bool" where
  "window_ok f \<longleftrightarrow>
     sint (fst (Available (fl_ledger f))) + int (length (fl_up f)) + creditsB (fl_down f) \<le> sint (outstandingB (mgr (fl_pool f))) \<and>
     sint (snd (Available (fl_ledger f))) + sizes (fl_up f) + creditsY (fl_down f) \<le> sint (outstandingY (mgr (fl_pool f)))"

definition flow_inv :: "int \<Rightarrow> int \<Rightarrow> flow \<Rightarrow> bool" where
  "flow_inv b y f \<longleftrightarrow> ledger_inv (fl_ledger f) \<and> 0 \<le> sint (grantedB (fl_ledger f)) \<and> 0 \<le> sint (grantedY (fl_ledger f)) \<and>
     pool_inv (fl_pool f) \<and> balanced b y (mgr (fl_pool f)) \<and> window_ok f \<and> distinct (map fst (fl_up f)) \<and>
     (\<forall>(seq, n) \<in> set (fl_up f). 0 < sint n \<and> seq \<noteq> -1 \<and> (\<forall>s. map_of (slots (fl_ledger f)) seq = Some s \<longrightarrow> os_Bytes s = n)) \<and>
     (\<forall>(cb, cy) \<in> set (fl_down f). 0 \<le> sint cb \<and> 0 \<le> sint cy)"

lemma avail_nonneg:
  assumes "ledger_inv l" "0 \<le> sint (grantedB l)" "0 \<le> sint (grantedY l)"
  shows "0 \<le> sint (fst (Available l))" "0 \<le> sint (snd (Available l))"
  using assms sint_avail [OF assms(1)] by (simp_all add: ledger_inv_def)

lemma sum_remove1: "x \<in> set xs \<Longrightarrow> sum_list (map f (remove1 x xs)) = sum_list (map f xs) - (f x :: int)"
  by (induction xs) auto

lemma sum_ge_member: "x \<in> set xs \<Longrightarrow> \<forall>z \<in> set xs. (0::int) \<le> f z \<Longrightarrow> f x \<le> sum_list (map f xs)"
  using sum_remove1 [of x xs f] sum_list_nonneg [of "map f (remove1 x xs)"] set_remove1_subset [of x xs] by force

lemma distinct_map_remove1: "distinct (map f xs) \<Longrightarrow> distinct (map f (remove1 x xs))"
  by (induction xs) (auto dest: subsetD [OF set_remove1_subset])

lemma up_remove:
  assumes "(seq, n) \<in> set up"
  shows "int (length (remove1 (seq, n) up)) = int (length up) - 1" "sizes (remove1 (seq, n) up) = sizes up - sint n"
proof -
  have "0 < length up" using assms by (cases up) auto
  then show "int (length (remove1 (seq, n) up)) = int (length up) - 1" using assms by (simp only: length_remove1 if_True)
  show "sizes (remove1 (seq, n) up) = sizes up - sint n" using assms by (simp add: sizes_def sum_remove1)
qed

text \<open>Whatever is in flight fits what the server has outstanding.\<close>

lemma in_flight_fits:
  assumes "flow_inv b y f" "(seq, n) \<in> set (fl_up f)"
  shows "1 \<le> sint (outstandingB (mgr (fl_pool f)))" "sint n \<le> sint (outstandingY (mgr (fl_pool f)))"
proof -
  have d: "0 \<le> creditsB (fl_down f)" "0 \<le> creditsY (fl_down f)"
    using assms(1) by (auto simp: flow_inv_def creditsB_def creditsY_def intro!: sum_list_nonneg)
  have n: "sint n \<le> sizes (fl_up f)"
    using sum_ge_member [OF assms(2), of "\<lambda>(_, n). sint n"] assms(1) by (force simp: flow_inv_def sizes_def)
  have l: "1 \<le> int (length (fl_up f))" using assms(2) by (cases "fl_up f") auto
  show "1 \<le> sint (outstandingB (mgr (fl_pool f)))" "sint n \<le> sint (outstandingY (mgr (fl_pool f)))"
    using assms(1) d n l avail_nonneg [of "fl_ledger f"] by (auto simp: flow_inv_def window_ok_def)
qed

lemma server_op_keeps: "server_op op \<Longrightarrow> outstandingB (mgr (mop_step p op)) = outstandingB (mgr p) \<and> outstandingY (mgr (mop_step p op)) = outstandingY (mgr p)"
  by (cases op) (auto simp: Grant_Settle_def Grant_Release_def Grant_Backfill_def releaseLocked_def record_terminal_def advanceLowLocked_def Let_def
      split: prod.splits option.splits)

lemma Consume_avail:
  assumes "ledger_inv l" "0 \<le> sint n" "Consume seq n corr dl now l = Inr l'"
  shows "sint (fst (Available l')) = sint (fst (Available l)) - 1" "sint (snd (Available l')) = sint (snd (Available l)) - sint n"
proof -
  note c = Consume_Inr [OF assms(3)]
  have o: "sint (outB l') = sint (outB l) + 1" "sint (outY l') = sint (outY l) + sint n"
    using assms(1,2) c(1-4) out_spend [of "outB l" "grantedB l" 1] out_spend [of "outY l" "grantedY l" n]
    by (auto simp: avail_out ledger_inv_def)
  show "sint (fst (Available l')) = sint (fst (Available l)) - 1" "sint (snd (Available l')) = sint (snd (Available l)) - sint n"
    using sint_avail [OF assms(1)] sint_avail [OF ledger_inv_Consume [OF assms]] o c(5,6) by simp_all
qed

lemma Rollback_avail:
  assumes "ledger_inv l" "map_of (slots l) seq = Some s" "Rollback seq l = (r, l')"
  shows "sint (fst (Available l')) \<le> sint (fst (Available l)) + 1" "sint (snd (Available l')) \<le> sint (snd (Available l)) + sint (os_Bytes s)"
  using sint_avail [OF assms(1)] sint_avail [OF ledger_inv_Rollback [OF assms(1,3)]] out_Rollback_sint [OF assms] Rollback_Some(5,6) [OF assms(2,3)]
    assms(1) by simp_all

lemma OnCredit_avail:
  assumes "ledger_inv l" "0 \<le> sint b" "0 \<le> sint y"
  shows "sint (fst (Available (OnCredit b y l))) \<le> sint (fst (Available l)) + sint b"
    "sint (snd (Available (OnCredit b y l))) \<le> sint (snd (Available l)) + sint y"
  using sint_avail [OF assms(1)] sint_avail [OF ledger_inv_OnCredit [OF assms(1), of b y]] out_OnCredit_sint [OF assms] by simp_all

lemma settle_avail:
  "Available (snd (Terminal seq l)) = Available l" "Available (snd (ReapExpired now l)) = Available l"
  "grantedB (snd (Terminal seq l)) = grantedB l" "grantedY (snd (Terminal seq l)) = grantedY l"
  "grantedB (snd (ReapExpired now l)) = grantedB l" "grantedY (snd (ReapExpired now l)) = grantedY l"
  by (auto simp: Terminal_def ReapExpired_def Available_def split: option.splits)

text \<open>A slot that survives was there before.\<close>

lemma slot_kept:
  assumes "distinct_keys (slots l)"
  shows "map_of (slots (snd (Terminal seq l))) k = Some s \<Longrightarrow> map_of (slots l) k = Some s"
    "map_of (slots (snd (ReapExpired now l))) k = Some s \<Longrightarrow> map_of (slots l) k = Some s"
    "map_of (slots (snd (Rollback seq l))) k = Some s \<Longrightarrow> map_of (slots l) k = Some s"
proof -
  show "map_of (slots (snd (Terminal seq l))) k = Some s \<Longrightarrow> map_of (slots l) k = Some s"
    by (auto simp: Terminal_def map_of_alist_delete split: option.splits if_splits)
  show "map_of (slots (snd (Rollback seq l))) k = Some s \<Longrightarrow> map_of (slots l) k = Some s"
    by (auto simp: Rollback_def Let_def map_of_alist_delete split: option.splits if_splits)
  assume "map_of (slots (snd (ReapExpired now l))) k = Some s"
  then have "(k, s) \<in> set (slots l)" by (auto simp: ReapExpired_def dest!: map_of_SomeD)
  then show "map_of (slots l) k = Some s" using assms by (simp add: distinct_keys_def)
qed

lemma deliver_frame_inv:
  fixes p seq n now
  assumes "pool_inv p" "balanced b y (mgr p)" "seq \<noteq> -1" "0 < sint n"
    and "1 \<le> sint (outstandingB (mgr p))" "sint n \<le> sint (outstandingY (mgr p))"
  defines "p' \<equiv> deliver_frame seq n now p"
  shows "pool_inv p'" "balanced b y (mgr p')"
    "sint (outstandingB (mgr p)) - 1 \<le> sint (outstandingB (mgr p'))" "sint (outstandingY (mgr p)) - sint n \<le> sint (outstandingY (mgr p'))"
proof -
  let ?p1 = "mop_step p (MAdmit seq now)"
  have p1: "pool_inv ?p1" "balanced b y (mgr ?p1)"
    using pool_inv_step [OF assms(1), of "MAdmit seq now"] balanced_step [OF assms(1,2), of "MAdmit seq now"] assms(3) by simp_all
  have out: "outstandingB (mgr ?p1) = outstandingB (mgr p)" "outstandingY (mgr ?p1) = outstandingY (mgr p)"
    by (auto simp: Admit_def split: option.splits)
  let ?P = "\<lambda>q. pool_inv q \<and> balanced b y (mgr q) \<and> sint (outstandingB (mgr p)) - 1 \<le> sint (outstandingB (mgr q)) \<and>
    sint (outstandingY (mgr p)) - sint n \<le> sint (outstandingY (mgr q))"
  have "?P p'"
  proof (cases "ar_Decision (fst (Admit seq now (mgr p))) = AdmitAccept")
    case False
    then show ?thesis using p1 out assms(4) by (simp add: p'_def deliver_frame_def)
  next
    case True
    let ?g = "\<lparr>g_seq = seq, g_consumed = False, g_done = False, g_accepted = False\<rparr>"
    let ?v = "\<lparr>is_Seq = seq, is_Bytes = 0, is_Correlation = [], is_AddedAt = now\<rparr>"
    have a: "mgr ?p1 = (mgr p)\<lparr>seen := AList.update seq ?v (seen (mgr p))\<rparr>" "grants ?p1 = grants p @ [?g]"
      using True by (auto simp: Admit_def split: if_splits option.splits)
    have m: "map_of (seen (mgr ?p1)) seq = Some ?v" unfolding a(1) by (simp add: map_of_alist_update)
    have d: "disciplined ?p1 (MConsume (length (grants p)) n)" using assms(4) m by (simp del: mop_step.simps add: a(2))
    have q: "p' = mop_step ?p1 (MConsume (length (grants p)) n)" using True by (simp add: p'_def deliver_frame_def Let_def)
    have c: "Grant_Consume n ?g (mgr ?p1) = (None, ?g\<lparr>g_consumed := True\<rparr>,
        (mgr ?p1)\<lparr>outstandingB := outstandingB (mgr p) - 1, outstandingY := outstandingY (mgr p) - n,
          seen := AList.update seq (?v\<lparr>is_Bytes := n\<rparr>) (seen (mgr ?p1))\<rparr>)"
      using assms(5,6) m out by (simp del: mop_step.simps add: Grant_Consume_def)
    have "sint (outstandingB (mgr p) - 1) = sint (outstandingB (mgr p)) - 1" "sint (outstandingY (mgr p) - n) = sint (outstandingY (mgr p)) - sint n"
      using assms(4-6) sint_sub_le [of 1 "outstandingB (mgr p)"] sint_sub_le [of n "outstandingY (mgr p)"] by simp_all
    moreover have "mgr p' = (mgr ?p1)\<lparr>outstandingB := outstandingB (mgr p) - 1, outstandingY := outstandingY (mgr p) - n,
          seen := AList.update seq (?v\<lparr>is_Bytes := n\<rparr>) (seen (mgr ?p1))\<rparr>"
      unfolding q using c a(2) by (simp only: mop_step.simps(2)) simp
    ultimately show ?thesis
      using pool_inv_step [OF p1(1), of "MConsume (length (grants p)) n"] balanced_step [OF p1 d] unfolding q [symmetric] by simp
  qed
  then show "pool_inv p'" "balanced b y (mgr p')" "sint (outstandingB (mgr p)) - 1 \<le> sint (outstandingB (mgr p'))"
    "sint (outstandingY (mgr p)) - sint n \<le> sint (outstandingY (mgr p'))" by auto
qed

lemma flow_ledger_step:
  assumes "flow_inv b y f" "ledger_inv l" "grantedB l = grantedB (fl_ledger f)" "grantedY l = grantedY (fl_ledger f)"
    and "\<And>k s. map_of (slots l) k = Some s \<Longrightarrow> map_of (slots (fl_ledger f)) k = Some s"
    and "set up \<subseteq> set (fl_up f)" "distinct (map fst up)" "set down \<subseteq> set (fl_down f)"
    and "sint (fst (Available l)) + int (length up) + creditsB down \<le>
      sint (fst (Available (fl_ledger f))) + int (length (fl_up f)) + creditsB (fl_down f)"
    and "sint (snd (Available l)) + sizes up + creditsY down \<le> sint (snd (Available (fl_ledger f))) + sizes (fl_up f) + creditsY (fl_down f)"
  shows "flow_inv b y (f\<lparr>fl_ledger := l, fl_up := up, fl_down := down\<rparr>)"
  using assms by (fastforce simp: flow_inv_def window_ok_def)

lemma flow_send:
  assumes "Consume seq n corr dl now (fl_ledger f) = Inr l" "0 < sint n" "seq \<noteq> -1" "seq \<notin> fst ` set (fl_up f)"
    "map_of (slots (fl_ledger f)) seq = None" "flow_inv b y f"
  shows "flow_inv b y (f\<lparr>fl_ledger := l, fl_up := fl_up f @ [(seq, n)]\<rparr>)"
proof -
  have li: "ledger_inv (fl_ledger f)" using assms(6) by (simp add: flow_inv_def)
  note c = Consume_Inr [OF assms(1)] and av = Consume_avail [OF li _ assms(1)]
  have "\<forall>s. map_of (slots l) k = Some s \<longrightarrow> os_Bytes s = m" if "(k, m) \<in> set (fl_up f)" for k m
  proof -
    have "k \<noteq> seq" using that assms(4) by force
    then show ?thesis using that assms(6) unfolding c(9) by (auto simp: map_of_alist_update flow_inv_def)
  qed
  then show ?thesis
    using assms ledger_inv_Consume [OF li _ assms(1)] c av
    by (auto simp: flow_inv_def window_ok_def sizes_def map_of_alist_update)
qed

lemma flow_write_fails:
  assumes "(seq, n) \<in> set (fl_up f)" "flow_inv b y f"
  shows "flow_inv b y (f\<lparr>fl_ledger := snd (Rollback seq (fl_ledger f)), fl_up := remove1 (seq, n) (fl_up f)\<rparr>)"
proof -
  let ?l = "fl_ledger f" let ?l' = "snd (Rollback seq ?l)"
  obtain r where r: "Rollback seq ?l = (r, ?l')" by (metis prod.collapse)
  have li: "ledger_inv ?l" and dk: "distinct_keys (slots ?l)" and n: "0 < sint n" and dd: "distinct (map fst (fl_up f))"
    using assms by (auto simp: flow_inv_def ledger_inv_def)
  have g: "grantedB ?l' = grantedB ?l" "grantedY ?l' = grantedY ?l" by (auto simp: Rollback_def Let_def split: option.splits)
  have av: "sint (fst (Available ?l')) \<le> sint (fst (Available ?l)) + 1" "sint (snd (Available ?l')) \<le> sint (snd (Available ?l)) + sint n"
  proof -
    have "sint (fst (Available ?l')) \<le> sint (fst (Available ?l)) + 1 \<and> sint (snd (Available ?l')) \<le> sint (snd (Available ?l)) + sint n"
    proof (cases "map_of (slots ?l) seq")
      case None
      then show ?thesis using n by simp
    next
      case (Some s)
      then have "os_Bytes s = n" using assms by (auto simp: flow_inv_def)
      then show ?thesis using Rollback_avail [OF li Some r] by simp
    qed
    then show "sint (fst (Available ?l')) \<le> sint (fst (Available ?l)) + 1" "sint (snd (Available ?l')) \<le> sint (snd (Available ?l)) + sint n" by auto
  qed
  have up: "int (length (remove1 (seq, n) (fl_up f))) = int (length (fl_up f)) - 1" "sizes (remove1 (seq, n) (fl_up f)) = sizes (fl_up f) - sint n"
    using up_remove [OF assms(1)] by simp_all
  have "flow_inv b y (f\<lparr>fl_ledger := ?l', fl_up := remove1 (seq, n) (fl_up f), fl_down := fl_down f\<rparr>)"
  proof (rule flow_ledger_step [OF assms(2) ledger_inv_Rollback [OF li r] g slot_kept(3) [OF dk] set_remove1_subset distinct_map_remove1 [OF dd]
      order_refl])
    show "sint (fst (Available ?l')) + int (length (remove1 (seq, n) (fl_up f))) + creditsB (fl_down f) \<le>
      sint (fst (Available ?l)) + int (length (fl_up f)) + creditsB (fl_down f)" using av(1) up(1) by linarith
    show "sint (snd (Available ?l')) + sizes (remove1 (seq, n) (fl_up f)) + creditsY (fl_down f) \<le>
      sint (snd (Available ?l)) + sizes (fl_up f) + creditsY (fl_down f)" using av(2) up(2) by linarith
  qed
  then show ?thesis by simp
qed

lemma flow_arrive:
  assumes "(seq, n) \<in> set (fl_up f)" "flow_inv b y f"
  shows "flow_inv b y (f\<lparr>fl_pool := deliver_frame seq n now (fl_pool f), fl_up := remove1 (seq, n) (fl_up f)\<rparr>)"
proof -
  note fit = in_flight_fits [OF assms(2,1)]
  have n: "0 < sint n" "seq \<noteq> -1" "pool_inv (fl_pool f)" "balanced b y (mgr (fl_pool f))" using assms by (auto simp: flow_inv_def)
  note d = deliver_frame_inv [OF n(3,4,2,1) fit, of now]
  have up: "int (length (remove1 (seq, n) (fl_up f))) = int (length (fl_up f)) - 1" "sizes (remove1 (seq, n) (fl_up f)) = sizes (fl_up f) - sint n"
    using up_remove [OF assms(1)] by simp_all
  have "distinct (map fst (remove1 (seq, n) (fl_up f)))" by (rule distinct_map_remove1) (use assms(2) in \<open>simp add: flow_inv_def\<close>)
  moreover have "\<forall>x \<in> set (remove1 (seq, n) (fl_up f)). x \<in> set (fl_up f)" using set_remove1_subset by fast
  ultimately show ?thesis using assms(2) d up by (simp add: flow_inv_def window_ok_def)
qed

lemma flow_flush:
  assumes "TakeRecovered (mgr (fl_pool f)) = ((cb, cy), m)" "flow_inv b y f"
  shows "flow_inv b y (f\<lparr>fl_pool := mop_step (fl_pool f) MTake, fl_down := fl_down f @ [(cb, cy)]\<rparr>)"
proof -
  let ?m = "mgr (fl_pool f)"
  have bal: "balanced b y ?m" "pool_inv (fl_pool f)" using assms(2) by (simp_all add: flow_inv_def)
  have co: "counters_ok ?m" using bal(1) by (simp add: balanced_def)
  have nw: "sint (outstandingB ?m + recoveredB ?m) = sint (outstandingB ?m) + sint (recoveredB ?m)"
    "sint (outstandingY ?m + recoveredY ?m) = sint (outstandingY ?m) + sint (recoveredY ?m)"
    using co held_nonneg [OF co] by (subst sint_add_64; simp add: counters_ok_def totalB_def totalY_def)+
  have t: "sint (outstandingB m) = sint (outstandingB ?m) + sint cb" "sint (outstandingY m) = sint (outstandingY ?m) + sint cy"
    "0 \<le> sint cb" "0 \<le> sint cy"
    using assms(1) nw co by (auto simp: TakeRecovered_def counters_ok_def split: if_splits)
  have "mgr (mop_step (fl_pool f) MTake) = m" using assms(1) by simp
  then show ?thesis
    using assms(2) t pool_inv_step [OF bal(2), of MTake] balanced_step [OF bal(2,1), of MTake]
    by (auto simp: flow_inv_def window_ok_def creditsB_def creditsY_def)
qed

lemma flow_credit:
  assumes "(cb, cy) \<in> set (fl_down f)" "flow_inv b y f"
  shows "flow_inv b y (f\<lparr>fl_ledger := OnCredit cb cy (fl_ledger f), fl_down := remove1 (cb, cy) (fl_down f)\<rparr>)"
proof -
  let ?l = "fl_ledger f"
  have li: "ledger_inv ?l" and c: "0 \<le> sint cb" "0 \<le> sint cy" and dd: "distinct (map fst (fl_up f))" using assms by (auto simp: flow_inv_def)
  have dn: "creditsB (remove1 (cb, cy) (fl_down f)) = creditsB (fl_down f) - sint cb" "creditsY (remove1 (cb, cy) (fl_down f)) = creditsY (fl_down f) - sint cy"
    using assms(1) by (simp_all add: creditsB_def creditsY_def sum_remove1)
  have "flow_inv b y (f\<lparr>fl_ledger := OnCredit cb cy ?l, fl_up := fl_up f, fl_down := remove1 (cb, cy) (fl_down f)\<rparr>)"
    by (rule flow_ledger_step [OF assms(2) ledger_inv_OnCredit [OF li] _ _ _ order_refl dd set_remove1_subset])
      (use OnCredit_avail [OF li c] dn in simp_all)
  then show ?thesis by simp
qed

lemma flow_inv_step: "flow_step f f' \<Longrightarrow> flow_inv b y f \<Longrightarrow> flow_inv b y f'"
proof (induction rule: flow_step.induct)
  case (server op f)
  have ok: "mop_ok op" using server(1) by (cases op) simp_all
  then show ?case
    using server pool_inv_step [OF _ ok, of "fl_pool f"] balanced_step [of "fl_pool f" b y op] server_op_keeps [OF server(1), of "fl_pool f"]
    by (auto simp: flow_inv_def window_ok_def)
next
  case (result f seq)
  have li: "ledger_inv (fl_ledger f)" and dk: "distinct_keys (slots (fl_ledger f))" and dd: "distinct (map fst (fl_up f))"
    using result by (auto simp: flow_inv_def ledger_inv_def)
  have "flow_inv b y (f\<lparr>fl_ledger := snd (Terminal seq (fl_ledger f)), fl_up := fl_up f, fl_down := fl_down f\<rparr>)"
    by (rule flow_ledger_step [OF result ledger_inv_Terminal [OF li] settle_avail(3,4) slot_kept(1) [OF dk] order_refl dd order_refl]) (simp_all only: settle_avail order_refl)
  then show ?case by simp
next
  case (timeout f now)
  have li: "ledger_inv (fl_ledger f)" and dk: "distinct_keys (slots (fl_ledger f))" and dd: "distinct (map fst (fl_up f))"
    using timeout by (auto simp: flow_inv_def ledger_inv_def)
  have "flow_inv b y (f\<lparr>fl_ledger := snd (ReapExpired now (fl_ledger f)), fl_up := fl_up f, fl_down := fl_down f\<rparr>)"
    by (rule flow_ledger_step [OF timeout ledger_inv_ReapExpired [OF li] settle_avail(5,6) slot_kept(2) [OF dk] order_refl dd order_refl]) (simp_all only: settle_avail order_refl)
  then show ?case by simp
qed (rule flow_send flow_write_fails flow_arrive flow_flush flow_credit; assumption)+




end
