(* ===== verification/EndToEnd.thy ===== *)
theory EndToEnd
  imports Client BatchPath
begin

text \<open>
  The path of a batch from the client's call to the server's sink: \<open>encodeAndSeal\<close> of \<open>internal/protocol/client.go\<close>, then \<open>processBatch\<close> of
  \<open>internal/protocol/handler_batch.go\<close>, through the envelope, the message codec and the sink queue.
\<close>

section \<open>What the sender and the receiver share\<close>

text \<open>The agreement of the two ends of a session, as the handshake leaves it.\<close>

definition same_session :: "cenv \<Rightarrow> env \<Rightarrow> CoreClient \<Rightarrow> CoreHandler \<Rightarrow> bool" where
  "same_session K E c h \<longleftrightarrow> e_crypto E = k_crypto K \<and> e_codecs E = k_codecs K \<and> e_signal_codecs E = k_signal_codecs K \<and>
     ct_keys c \<noteq> None \<and> ch_keys h = ct_keys c \<and> ch_sessionID h = getSessionID c \<and> ch_codec h = ct_codec c \<and> hc_Zdict (ch_config h) = ct_zdict c"

text \<open>The message \<open>encodeAndSeal\<close> builds for a batch.\<close>

definition batch_message :: "u64 \<Rightarrow> SendConfig \<Rightarrow> SignalBatch \<Rightarrow> bytes \<Rightarrow> Batch" where
  "batch_message seq sc sb wire = \<lparr>b_Seq = seq, b_Correlation = [], b_Trace = sc_TraceContext sc,
     b_EventsCount = word_of_nat (length (sb_Signals sb)), b_Payload = wire\<rparr>"

text \<open>Drawing a number changes nothing the seal depends on.\<close>

lemma getSessionID_seq: "getSessionID (c\<lparr>ct_seq := s\<rparr>) = getSessionID c"
  by (simp add: getSessionID_def)

lemma pickCompression_seq: "pickCompression (c\<lparr>ct_seq := s\<rparr>) n = pickCompression c n"
  by (simp add: pickCompression_def SelectedCapabilities_def)

lemma encodeAndSeal_Inr:
  assumes "encodeAndSeal K now sb sc ty c = (Inr (payload, seq), c')"
  obtains wire bw keys where 
    "MarshalSignalBatchCodec (k_signal_codecs K) (case ct_codec c of Some v \<Rightarrow> v | None \<Rightarrow> CODEC_PROTO) (Some sb) = Inr wire"
    "k_encode K (CBatch (batch_message seq sc sb wire)) = Inr bw" "ct_keys c = Some keys"
    "SealEnvelope (k_crypto K) (k_codecs K) (\<lambda>e. k_encode K (CEnvelope e))
      \<lparr>sl_FrameType = ty, sl_SessionID = getSessionID c, sl_Seq = seq, sl_KeyEpoch = 0, sl_Compression = pickCompression c (length bw),
       sl_Keys = Some keys, sl_Dict = ct_zdict c, sl_BatchWire = bw, sl_DualMACKey = sk_DualMACKey keys\<rparr> = Inr payload"
proof -
  let ?codec = "case ct_codec c of Some v \<Rightarrow> v | None \<Rightarrow> CODEC_PROTO"
  have "sm_state (ct_sm c) = StateReady" and x: "\<not> (0 < sint (ct_expiry c) \<and> sint (ct_expiry c) < sint (Unix now))"
    using assms by (auto simp only: encodeAndSeal_def split: if_splits)
  note u = assms [unfolded encodeAndSeal_def if_not_P [OF x] Let_def this(1) simp_thms if_False]
  obtain q sg where q: "Next (ct_seq c) = (q, sg)" by fastforce
  obtain wire where w: "MarshalSignalBatchCodec (k_signal_codecs K) ?codec (Some sb) = Inr wire"
    using u by (cases "MarshalSignalBatchCodec (k_signal_codecs K) ?codec (Some sb)") simp_all
  note u = u [unfolded w q sum.case prod.case]
  obtain bw where b: "k_encode K (CBatch (batch_message q sc sb wire)) = Inr bw"
    using u by (cases "k_encode K (CBatch (batch_message q sc sb wire))") (simp_all add: batch_message_def)
  note u = u [folded batch_message_def, unfolded b sum.case]
  obtain keys where k: "ct_keys c = Some keys" using u by (cases "ct_keys c") simp_all
  show thesis
    using u that [OF w _ k, of bw] b
    by (simp add: k getSessionID_seq pickCompression_seq split: sum.splits)
qed

section \<open>Wire and back\<close>

lemma builtin_proto: "builtin_codecs pm pu cm cu CODEC_PROTO = Some (protoCodec pm pu)"
  by (simp add: builtin_codecs_def RegisterCodec_def protoCodec_def)

lemma proto_wire:
  assumes "toProtoSignalBatch sb = Some p" "pm p = Inr wire"
  shows "MarshalSignalBatchCodec (builtin_codecs pm pu cm cu) CODEC_PROTO (Some sb) = Inr wire"
  using assms by (simp add: MarshalSignalBatchCodec_def LookupCodec_def builtin_proto [simplified] protoCodec_def)

lemma proto_unwire:
  assumes "SignalBatch_Validate sb = None" "toProtoSignalBatch sb = Some p" "pu wire = Inr p" "wire \<noteq> []"
  shows "UnmarshalSignalBatchCodec (builtin_codecs pm pu cm cu) CODEC_PROTO wire = Inr (canonical_batch sb)"
  using assms batch_roundtrip [OF assms(1)] by (simp add: UnmarshalSignalBatchCodec_def LookupCodec_def builtin_proto [simplified] protoCodec_def)

text \<open>The limits the server checks after opening: expiry, sizes, number of events and trace context.\<close>

definition acceptable :: "time \<Rightarrow> CoreHandler \<Rightarrow> Batch \<Rightarrow> bytes \<Rightarrow> bool" where
  "acceptable now h bt bw \<longleftrightarrow> \<not> (0 < sint (ch_expiresAt h) \<and> sint (ch_expiresAt h) < sint (Unix now)) \<and>
     length bw \<le> MaxDecompressedSize \<and> sint (len64 bw) \<le> sint (sp_MaxBatchBytes (hc_Policy (ch_config h))) \<and>
     unat (b_EventsCount bt) \<le> maxBatchEvents \<and> ValidateBatchTraceContext (b_Trace bt) = None"

lemma sealed_batch_opens:
  assumes "encodeAndSeal K now sb sc TypeBatch c = (Inr (payload, seq), c')" "same_session K E c h"
    and "aead_roundtrip (k_crypto K)" "codecs_roundtrip (k_codecs K)"
    and "\<And>e b. k_encode K (CEnvelope e) = Inr b \<Longrightarrow> e_dec_envelope E b = Inr e"
    and "MarshalSignalBatchCodec (k_signal_codecs K) (case ct_codec c of Some v \<Rightarrow> v | None \<Rightarrow> CODEC_PROTO) (Some sb) = Inr wire"
    and "k_encode K (CBatch (batch_message seq sc sb wire)) = Inr bw" "e_dec_batch E bw = Inr (batch_message seq sc sb wire)"
    and "acceptable now' h (batch_message seq sc sb wire) bw"
  shows "\<exists>en. e_dec_envelope E payload = Inr en \<and> en_Seq en = seq \<and>
    decodeAndValidate E now' en TypeBatch h = Inr (batch_message seq sc sb wire, bw)"
proof -
  obtain keys where k: "ct_keys c = Some keys" and s: "SealEnvelope (k_crypto K) (k_codecs K) (\<lambda>e. k_encode K (CEnvelope e))
      \<lparr>sl_FrameType = TypeBatch, sl_SessionID = getSessionID c, sl_Seq = seq, sl_KeyEpoch = 0, sl_Compression = pickCompression c (length bw),
       sl_Keys = Some keys, sl_Dict = ct_zdict c, sl_BatchWire = bw, sl_DualMACKey = sk_DualMACKey keys\<rparr> = Inr payload"
    using encodeAndSeal_Inr [OF assms(1)] assms(6,7) by (metis sum.inject(2))
  have l: "length bw \<le> MaxDecompressedSize" using assms(9) by (simp add: acceptable_def)
  obtain en where "k_encode K (CEnvelope en) = Inr payload" "en_Seq en = seq"
    "OpenEnvelope (k_crypto K) (k_codecs K) TypeBatch (getSessionID c) (Some keys) (ct_zdict c) en = Inr bw"
    using seal_open [OF assms(3,4) _ _ _ s, of keys] l by auto
  then show ?thesis
    using assms(2,5,8,9) k
    by (auto simp: same_session_def decodeAndValidate_def acceptable_def batch_message_def)
qed

section \<open>Into the sink\<close>

text \<open>The state a batch is delivered in: the admission and the charge change nothing but the credit and the grants.\<close>

lemma h_consume_kept:
  assumes "h_admit seq now h0 = (ar, i, h)" "ar_Decision ar = AdmitAccept" "h_consume i n h = (None, h')"
  shows "h' = h0\<lparr>ch_credit := ch_credit h', ch_grants := ch_grants h'\<rparr>"
  using h_admit_accept(2) [OF assms(1,2)] assms(3) by (auto simp: h_consume_def split: prod.splits)

lemma sink_room:
  assumes "hc_SinkHandler (ch_config h) \<noteq> None" "ch_sinkQueue h = Some q" "\<not> ch_sinkDone h" "length q < ch_sinkCap h"
    and "sint (ch_sinkQueuedBytes h + n) \<le> sint (ch_sinkMaxBytes h)"
  shows "\<exists>t. ch_sinkQueue (deliver E now False i b w n h) = Some (q @ [t]) \<and> st_ev t = makeEvent E now b w h"
  using assms
  by (auto simp: deliver_def enqueueSink_def makeDone_def Let_def h_accept_def h_settle_def maybeScheduleFlush_def split: prod.splits)

text \<open>A sink that decodes, with a free place and enough bytes left in its queue.\<close>

definition room :: "CoreHandler \<Rightarrow> i64 \<Rightarrow> bool" where
  "room h n \<longleftrightarrow> hc_SinkHandler (ch_config h) \<noteq> None \<and> \<not> hc_SinkRaw (ch_config h) \<and> \<not> ch_sinkDone h \<and>
     (\<exists>q. ch_sinkQueue h = Some q \<and> length q < ch_sinkCap h) \<and> sint (ch_sinkQueuedBytes h + n) \<le> sint (ch_sinkMaxBytes h)"

lemma batch_delivered_eq:
  assumes "encodeAndSeal K now sb sc TypeBatch c = (Inr (payload, seq), c')" "same_session K E c h" "ct_codec c \<in> {None, Some CODEC_PROTO}"
    and "aead_roundtrip (k_crypto K)" "codecs_roundtrip (k_codecs K)"
    and "\<And>e b. k_encode K (CEnvelope e) = Inr b \<Longrightarrow> e_dec_envelope E b = Inr e"
    and "k_signal_codecs K = builtin_codecs pm pu cm cu" "SignalBatch_Validate sb = None"
    and "toProtoSignalBatch sb = Some p" "pm p = Inr wire" "pu wire = Inr p" "wire \<noteq> []"
    and "k_encode K (CBatch (batch_message seq sc sb wire)) = Inr bw" "e_dec_batch E bw = Inr (batch_message seq sc sb wire)"
    and "acceptable now' h (batch_message seq sc sb wire) bw" "room h (len64 payload)" 
    and "h_admit seq now' h = (ar, i, h1)" "ar_Decision ar = AdmitAccept" "h_consume i (len64 payload) h1 = (None, h2)"
  shows "\<exists>t. ch_sinkQueue (processBatch E now' False payload h) = map_option (\<lambda>q. q @ [t]) (ch_sinkQueue h) \<and>
    ev_Agent (st_ev t) = ch_agentID h \<and> ev_Seq (st_ev t) = seq \<and> ev_Trace (st_ev t) = sc_TraceContext sc \<and>
    ev_Decoded (st_ev t) = Some (canonical_batch sb)"
proof -
  let ?b = "batch_message seq sc sb wire"
  note kept = h_consume_kept [OF assms(17-19)]
  have codec: "(case ct_codec c of Some v \<Rightarrow> v | None \<Rightarrow> CODEC_PROTO) = CODEC_PROTO" using assms(3) by auto
  have s2: "same_session K E c h2" and a2: "acceptable now' h2 ?b bw" and room: "room h2 (len64 payload)"
    and q2: "ch_sinkQueue h2 = ch_sinkQueue h" and g2: "ch_agentID h2 = ch_agentID h"
    using assms(2,15,16) by (subst kept; simp add: same_session_def acceptable_def room_def)+
  have m: "MarshalSignalBatchCodec (k_signal_codecs K) (case ct_codec c of Some v \<Rightarrow> v | None \<Rightarrow> CODEC_PROTO) (Some sb) = Inr wire"
    unfolding codec assms(7) by (rule proto_wire [where pm = pm, OF assms(9,10)])
  obtain en where en: "e_dec_envelope E payload = Inr en" "en_Seq en = seq" "decodeAndValidate E now' en TypeBatch h2 = Inr (?b, bw)"
    using sealed_batch_opens [OF assms(1) s2 assms(4-6) m assms(13,14) a2] by blast
  let ?h = "h_backfill i (b_Correlation ?b) h2"
  have pb: "processBatch E now' False payload h = deliver E now' False i ?b bw (len64 payload) ?h"
    using en assms(17-19) by (simp add: processBatch_def process_admitted_def)
  obtain q where q: "ch_sinkQueue h2 = Some q" "length q < ch_sinkCap h2" using room by (auto simp: room_def)
  obtain t where t: "ch_sinkQueue (processBatch E now' False payload h) = Some (q @ [t])" "st_ev t = makeEvent E now' ?b bw ?h"
    using sink_room [of ?h q "len64 payload" E now' i ?b bw] q room unfolding pb by (auto simp: room_def h_backfill_def)
  have "decodeSignalBatch E wire ?h = Inr (canonical_batch sb)"
    using s2 codec proto_unwire [OF assms(8,9) , of pu wire pm cm cu] assms(7,11,12)
    by (simp add: decodeSignalBatch_def same_session_def h_backfill_def)
  then show ?thesis using t q q2 g2 room by (intro exI [of _ t]) (simp add: makeEvent_def room_def batch_message_def h_backfill_def)
qed

section \<open>An instance\<close>

text \<open>Two ends of one session on which the theorem applies.\<close>

definition e2e_client :: CoreClient where
  "e2e_client = demo_client\<lparr>ct_sm := \<lparr>sm_state = StateReady\<rparr>, ct_keys := Some demo_keys, ct_sessionID := Some [1]\<rparr>"

definition e2e_wire :: codec_registry where
  "e2e_wire = builtin_codecs (\<lambda>_. Inr [3]) (\<lambda>_. Inr (the (toProtoSignalBatch demo_batch))) (\<lambda>_. Inr []) (\<lambda>_. Inl codec_panic)"

definition e2e_batch :: Batch where
  "e2e_batch = batch_message 1 \<lparr>sc_TraceContext = None\<rparr> demo_batch [3]"

definition e2e_cenv :: cenv where
  "e2e_cenv = demo_cenv\<lparr>k_crypto := mac_crypto, k_signal_codecs := e2e_wire,
     k_encode := (\<lambda>m. case m of CEnvelope e \<Rightarrow> demo_marshal e | _ \<Rightarrow> Inr [1])\<rparr>"

definition e2e_env :: env where
  "e2e_env = demo_env\<lparr>e_crypto := mac_crypto, e_signal_codecs := e2e_wire, e_dec_envelope := demo_unmarshal, e_dec_batch := (\<lambda>_. Inr e2e_batch)\<rparr>"

definition e2e_server :: CoreHandler where
  "e2e_server = demo_conn\<lparr>ch_agentID := ''a'', ch_sessionID := [1],
     ch_config := demo_config\<lparr>hc_SinkRaw := False, hc_SinkHandler := Some (\<lambda>_. \<lparr>run_early = [], run_late = None, run_panic = False\<rparr>)\<rparr>,
     ch_sinkQueue := Some [], ch_sinkCap := 4, ch_sinkMaxBytes := 100\<rparr>"

lemma e2e_kept [simp]:
  "ch_expiresAt demo_conn = 0" "ch_codec demo_conn = None" "\<not> ch_sinkDone demo_conn" "ct_expiry demo_client = 0" "ct_codec demo_client = None"
  "ct_zdict demo_client = None"
  by (simp_all add: demo_conn_def demo_handler_def NewCoreHandler_def initSinkQueue_def demo_config_def DefaultServerPolicy_def
      demo_client_def NewCoreClient_def)

lemma e2e_proto: "\<exists>p. toProtoSignalBatch demo_batch = Some p"
  using batch_roundtrip [OF demo_batch_valid] by blast

lemma e2e_sealed:
  "\<exists>payload c'. encodeAndSeal e2e_cenv 0 demo_batch \<lparr>sc_TraceContext = None\<rparr> TypeBatch e2e_client = (Inr (payload, 1), c') \<and>
     length payload = 22"
proof -
  obtain p where p: "toProtoSignalBatch demo_batch = Some p" using e2e_proto by blast
  have m: "MarshalSignalBatchCodec e2e_wire CODEC_PROTO (Some demo_batch) = Inr [3]"
    unfolding e2e_wire_def by (rule proto_wire [OF p]) simp
  have x: "pickCompression (e2e_client\<lparr>ct_seq := sg\<rparr>) 1 = COMPRESSION_NONE" for sg
    by (simp add: pickCompression_def dictCompressMinBytes_def zstdCompressMinBytes_def)
  show ?thesis
    using m x
    by (simp add: encodeAndSeal_def e2e_cenv_def demo_cenv_def e2e_client_def Next_def NewSeqGenerator_def Let_def SealEnvelope_def
        NewAEAD_def mac_crypto_def demo_crypto_def demo_keys_def HMACKeyLen_def demo_marshal_def dualMAC_def length_PutUint)
qed

lemma e2e_premises:
  "same_session e2e_cenv e2e_env e2e_client e2e_server" "k_crypto e2e_cenv = mac_crypto" "k_codecs e2e_cenv = demo_codecs"
  "k_encode e2e_cenv (CEnvelope e) = demo_marshal e" "e_dec_envelope e2e_env = demo_unmarshal" "acceptable 0 e2e_server e2e_batch [1]"
  "k_encode e2e_cenv (CBatch e2e_batch) = Inr [1]" "e_dec_batch e2e_env [1] = Inr e2e_batch" "room e2e_server 22"
  "ct_codec e2e_client = None"
  by (simp_all add: e2e_cenv_def e2e_env_def e2e_client_def e2e_server_def same_session_def demo_cenv_def demo_env_def getSessionID_def
      acceptable_def room_def demo_config_def DefaultServerPolicy_def e2e_batch_def batch_message_def maxBatchEvents_def demo_batch_def
      MaxDecompressedSize_def ValidateBatchTraceContext_def len64_def DefaultPolicyLimits_def)

lemma e2e_admitted:
  "\<exists>ar i h1 h2. h_admit 1 0 e2e_server = (ar, i, h1) \<and> ar_Decision ar = AdmitAccept \<and> h_consume i 22 h1 = (None, h2)"
  by (simp add: e2e_server_def h_admit_def Admit_def h_consume_def Grant_Consume_def NewCreditManager_def
     DefaultInitialCreditBatches_def DefaultInitialCreditBytes_def)

end
