(* ===== verification/Channels.thy ===== *)
theory Channels
  imports Frame
begin

text \<open>
  Channels of the Go runtime, as the transports use them: a bounded queue with a closed flag. A send on a full channel and a
  receive from an empty open one block; a send on a closed channel and a second close panic; receiving from a closed channel
  first drains it. A semaphore is a channel of units, a closed \<open>chan struct{}\<close> a signal.
\<close>

record 'a gochan =
  gc_cap :: nat
  gc_buf :: "'a list"
  gc_closed :: bool

definition make_chan :: "nat \<Rightarrow> 'a gochan" where
  "make_chan n = \<lparr>gc_cap = n, gc_buf = [], gc_closed = False\<rparr>"

datatype 'a send_result = Sent "'a gochan" | SendBlocks | SendPanics
datatype 'a recv_result = Got 'a "'a gochan" | GotClosed | RecvBlocks

definition chan_send :: "'a \<Rightarrow> 'a gochan \<Rightarrow> 'a send_result" where
  "chan_send x c =
    (if gc_closed c then SendPanics
     else if length (gc_buf c) < gc_cap c then Sent (c\<lparr>gc_buf := gc_buf c @ [x]\<rparr>)
     else SendBlocks)"

definition chan_recv :: "'a gochan \<Rightarrow> 'a recv_result" where
  "chan_recv c =
    (case gc_buf c of
       x # xs \<Rightarrow> Got x (c\<lparr>gc_buf := xs\<rparr>)
     | [] \<Rightarrow> if gc_closed c then GotClosed else RecvBlocks)"

text \<open>
  A \<open>select\<close> over a receive and the end of a context, whose error is \<open>ctxErr\<close> once it has ended. The runtime may take either
  case when both are ready: with \<open>preferCtx\<close> it takes the context, and the receive is as if it blocked.
\<close>

definition select_recv :: "bool \<Rightarrow> go_err option \<Rightarrow> 'a gochan \<Rightarrow> 'a recv_result" where
  "select_recv preferCtx ctxErr c = (if preferCtx \<and> ctxErr \<noteq> None then RecvBlocks else chan_recv c)"

definition chan_close :: "'a gochan \<Rightarrow> 'a gochan option" where
  "chan_close c = (if gc_closed c then None else Some (c\<lparr>gc_closed := True\<rparr>))"

lemma make_chan_simps [simp]: "gc_cap (make_chan n) = n" "gc_buf (make_chan n) = []" "\<not> gc_closed (make_chan n)"
  by (simp_all add: make_chan_def)

lemma chan_send_Sent: "chan_send x c = Sent c' \<longleftrightarrow> \<not> gc_closed c \<and> length (gc_buf c) < gc_cap c \<and> c' = c\<lparr>gc_buf := gc_buf c @ [x]\<rparr>"
  by (auto simp: chan_send_def)

lemma chan_send_Panics: "chan_send x c = SendPanics \<longleftrightarrow> gc_closed c"
  by (simp add: chan_send_def)

lemma chan_recv_Got: "chan_recv c = Got x c' \<longleftrightarrow> gc_buf c = x # gc_buf c' \<and> c' = c\<lparr>gc_buf := gc_buf c'\<rparr>"
  by (cases c) (auto simp: chan_recv_def split: list.splits)

lemma chan_close_Some: "chan_close c = Some c' \<longleftrightarrow> \<not> gc_closed c \<and> c' = c\<lparr>gc_closed := True\<rparr>"
  by (auto simp: chan_close_def)

text \<open>How a change of one goroutine changes the number of those that hold something.\<close>

lemma sum_list_map_update:
  fixes f :: "'a \<Rightarrow> nat"
  assumes "i < length xs"
  shows "sum_list (map f (xs[i := x])) + f (xs ! i) = sum_list (map f xs) + f x"
  using assms by (induction xs arbitrary: i) (auto simp: nth_Cons' less_Suc_eq_0_disj split: nat.splits)

lemma holds_pos:
  assumes "i < length xs" "0 < f (xs ! i)"
  shows "(0 :: nat) < sum_list (map f xs)"
  using assms by (metis elem_le_sum_list le_zero_eq length_map not_gr_zero nth_map)

section \<open>What a receiver promises\<close>

fun receive_all :: "(bool \<Rightarrow> go_err option \<Rightarrow> 's \<Rightarrow> Frame res option \<times> 's) \<Rightarrow> (bool \<times> go_err option) list \<Rightarrow> 's \<Rightarrow> Frame list \<times> 's" where
  "receive_all recv [] s = ([], s)"
| "receive_all recv ((b, e) # calls) s =
    (case recv b e s of
       (Some (Inr f), s) \<Rightarrow> (case receive_all recv calls s of (fs, s) \<Rightarrow> (f # fs, s))
     | (_, s) \<Rightarrow> receive_all recv calls s)"

text \<open>
  The protocol loops rely on this of the receiving operations of a transport: \<open>recv preferCtx ctxErr\<close> waits, which is \<open>None\<close>, or returns a frame
  or an error. Frames come in the order in which they were queued; an error takes none of them; without a context that ends there is no error before the queue
  is empty and closed.
\<close>

locale receiver =
  fixes recv :: "bool \<Rightarrow> go_err option \<Rightarrow> 's \<Rightarrow> Frame res option \<times> 's"
    and queue :: "'s \<Rightarrow> Frame list"
    and ended :: "'s \<Rightarrow> bool"
  assumes recv_frame: "recv b e s = (Some (Inr f), s') \<Longrightarrow> queue s = f # queue s' \<and> ended s' = ended s"
    and recv_error: "recv b e s = (Some (Inl err), s') \<Longrightarrow> queue s' = queue s \<and> ended s' = ended s \<and> (e = None \<longrightarrow> queue s = [] \<and> ended s)"
    and recv_wait: "recv b e s = (None, s') \<Longrightarrow> s' = s \<and> queue s = [] \<and> \<not> ended s \<and> e = None"
begin

text \<open>Calls one after the other, with any contexts: what they return is the front of the queue, and the rest is still there.\<close>

lemma receive_in_order: "receive_all recv calls s = (got, s') \<Longrightarrow> queue s = got @ queue s' \<and> ended s' = ended s"
proof (induction calls arbitrary: s got s')
  case (Cons c calls)
  obtain b e where c: "c = (b, e)" by (cases c)
  obtain r s1 where r: "recv b e s = (r, s1)" by (cases "recv b e s")
  obtain got1 s2 where g: "receive_all recv calls s1 = (got1, s2)" by (cases "receive_all recv calls s1")
  note ih = Cons.IH [OF g]
  show ?case
  proof (cases r)
    case None
    then show ?thesis using Cons.prems c r g ih recv_wait [of b e s s1] by simp
  next
    case (Some x)
    then show ?thesis using Cons.prems c r g ih recv_error [of b e s _ s1] recv_frame [of b e s _ s1] by (cases x) auto
  qed
qed simp

text \<open>Calls that no context interrupts get everything.\<close>

lemma receive_everything: "receive_all recv (replicate (length (queue s)) (False, None)) s = (got, s') \<Longrightarrow> got = queue s \<and> queue s' = []"
proof (induction "length (queue s)" arbitrary: s got s')
  case (Suc n)
  obtain r s1 where r: "recv False None s = (r, s1)" by (cases "recv False None s")
  then obtain f where f: "r = Some (Inr f)" "queue s = f # queue s1"
    using recv_wait [of False None s s1] recv_error [of False None s _ s1] recv_frame [of False None s _ s1] Suc.hyps(2)
    by (cases r) (auto, metis length_0_conv nat.distinct(1) sum.exhaust)
  obtain got1 s2 where g: "receive_all recv (replicate (length (queue s1)) (False, None)) s1 = (got1, s2)"
    by (cases "receive_all recv (replicate (length (queue s1)) (False, None)) s1")
  show ?case using Suc.hyps(1) [OF _ g] Suc.hyps(2) Suc.prems r f g by simp
qed simp

end

section \<open>A frame in the pieces it is written in\<close>

text \<open>
  \<open>Write\<close> hands its frame to the connection in two or three calls. A transport whose writes interleave would interleave these pieces,
  so its model writes them one at a time.
\<close>

definition frame_pieces :: "(u64 \<Rightarrow> byte list) \<Rightarrow> byte \<Rightarrow> byte list \<Rightarrow> byte list list" where
  "frame_pieces av ty p = [ty, 0] # av (len64 p) # (if p = [] then [] else [p])"

fun write_pieces :: "byte list list \<Rightarrow> Writer \<Rightarrow> bool \<times> Writer" where
  "write_pieces [] w = (True, w)"
| "write_pieces (p # ps) w = (case writeFull p w of (Some e, w') \<Rightarrow> (False, w') | (None, w') \<Rightarrow> write_pieces ps w')"

lemma concat_frame_pieces: "concat (frame_pieces av ty p) = encode_frame av ty p"
  by (simp add: frame_pieces_def encode_frame_def)

lemma Write_in_pieces:
  assumes "protowire av cv"
  shows "(fst (Write av ty 0 p w) = None, snd (Write av ty 0 p w)) =
    (if MaxFrameBytes < len64 p then (False, w) else write_pieces (frame_pieces av ty p) w)"
  using protowire.putVarint_take [OF assms, of "len64 p"]
  by (auto simp: Write_def frame_pieces_def Let_def case_prod_beta split: option.splits prod.splits)


lemma write_pieces_out: "write_pieces ps w = (True, w') \<Longrightarrow> w_out w' = w_out w @ concat ps"
proof (induction ps arbitrary: w)
  case (Cons p ps)
  obtain e w1 where w1: "writeFull p w = (e, w1)" by (cases "writeFull p w")
  then have "e = None" "write_pieces ps w1 = (True, w')" using Cons.prems by (auto split: option.splits)
  moreover have "w_out w1 = w_out w @ p" using writeFull_cases [OF w1] \<open>e = None\<close> by (metis append_Nil2)
  ultimately show ?case using Cons.IH by simp
qed simp

end
