(* ===== verification/QuicTransport.thy ===== *)
theory QuicTransport
  imports Channels
begin

text \<open>
  The server's transport over QUIC: the connection with its stream roles, \<open>Conn\<close> of \<open>v1/transport.go\<close>, and \<open>v1/quic_transport.go\<close>. The
  goroutine that accepts streams, one reader per data stream, the receiver of datagrams, the consumer and \<open>Close\<close> are program counters over
  one state; an operation of \<open>quic_op\<close> is a step of one of them, and \<open>None\<close> is a panic. What the QUIC library answers is part of the operation.
  Frames in the data channel carry the stream they came from (none for a datagram), which only the properties look at, like the fields
  \<open>qs_read\<close>, \<open>qs_dropped\<close> and \<open>qt_got\<close>.
\<close>

section \<open>Connections\<close>

datatype StreamRole = StreamRoleControl | StreamRoleData

record Conn =
  cn_controlClaimed :: bool
  cn_authed :: bool
  cn_closed :: bool \<comment> \<open>\<open>CloseWithError\<close> was called\<close>
  cn_udpConn :: "bool option" \<comment> \<open>the client's own socket: open or closed\<close>

definition Conn_Close :: "Conn \<Rightarrow> Conn" where
  "Conn_Close c = c\<lparr>cn_closed := True, cn_udpConn := map_option (\<lambda>_. False) (cn_udpConn c)\<rparr>"

definition CloseWithError :: "Conn \<Rightarrow> Conn" where
  "CloseWithError c = c\<lparr>cn_closed := True\<rparr>"

text \<open>The claim of the control stream, and what follows the library's answer.\<close>

definition OpenControlStream_claim :: "Conn \<Rightarrow> go_err option \<times> Conn" where
  "OpenControlStream_claim c =
    (if cn_controlClaimed c then (Some (NewError LocalStream ''control stream already opened''), c)
     else (None, c\<lparr>cn_controlClaimed := True\<rparr>))"

definition OpenControlStream :: "go_err option \<Rightarrow> Conn \<Rightarrow> go_err option \<times> Conn" where
  "OpenControlStream opened c =
    (case OpenControlStream_claim c of
       (Some e, c) \<Rightarrow> (Some e, c)
     | (None, c) \<Rightarrow>
         (case opened of
            Some e \<Rightarrow> (Some (WrapError LocalStream ''open control stream'' e), c\<lparr>cn_controlClaimed := False\<rparr>)
          | None \<Rightarrow> (None, c)))"

definition AcceptStream :: "'s res \<Rightarrow> Conn \<Rightarrow> ('s \<times> StreamRole) res \<times> Conn" where
  "AcceptStream accepted c =
    (case accepted of
       Inl e \<Rightarrow> (Inl e, c)
     | Inr s \<Rightarrow>
         if \<not> cn_controlClaimed c then (Inr (s, StreamRoleControl), c\<lparr>cn_controlClaimed := True\<rparr>)
         else (Inr (s, StreamRoleData), c))"

definition OpenDataStream :: "go_err option \<Rightarrow> Conn \<Rightarrow> go_err option" where
  "OpenDataStream opened c =
    (if \<not> cn_authed c then Some (NewError LocalStream ''cannot open data stream before auth'') else opened)"

definition SetAuthed :: "bool \<Rightarrow> Conn \<Rightarrow> Conn" where
  "SetAuthed b c = c\<lparr>cn_authed := b\<rparr>"

section \<open>State\<close>

datatype stream_pc = SRead | SPush Frame | SExit
datatype accept_pc = Accepting | Waiting go_err | AcceptExit
datatype dgram_pc = NoDatagrams | DgReceive | DgPush Frame | DgExit

record qstream =
  qs_input :: "rev list"
  qs_pc :: stream_pc
  qs_read :: "Frame list"
  qs_dropped :: "Frame list"

record quicTransport =
  qt_conn :: Conn
  qt_control :: Writer
  qt_maxFrame :: u64
  qt_dataCh :: "(nat option \<times> Frame) gochan"
  qt_dataErr :: "go_err gochan"
  qt_done :: bool
  qt_closed :: bool
  qt_wg :: int
  qt_streams :: "qstream list"
  qt_acceptor :: accept_pc
  qt_dgrams :: dgram_pc
  qt_got :: "(nat option \<times> Frame) list"

definition firstStreamTimeout :: time where "firstStreamTimeout = 30 * 10 ^ 9"

text \<open>\<open>newQuicTransport\<close>: the first stream the peer opens is the control stream, with the writer \<open>w\<close>.\<close>

definition newQuicTransport :: "Writer res \<Rightarrow> bool \<Rightarrow> u64 \<Rightarrow> Conn \<Rightarrow> quicTransport res \<times> Conn" where
  "newQuicTransport accepted datagrams maxFrame conn =
    (case AcceptStream accepted conn of
       (Inl e, c) \<Rightarrow> (Inl (WrapError LocalStream ''accept control stream'' e), Conn_Close c)
     | (Inr (w, role), c) \<Rightarrow>
         if role \<noteq> StreamRoleControl then (Inl (NewError ErrCodeProtocolError ''first stream must be control''), Conn_Close c)
         else (Inr \<lparr>qt_conn = c, qt_control = w, qt_maxFrame = maxFrame, qt_dataCh = make_chan 64, qt_dataErr = make_chan 1, qt_done = False,
                 qt_closed = False, qt_wg = (if datagrams then 1 else 0), qt_streams = [], qt_acceptor = Accepting,
                 qt_dgrams = (if datagrams then DgReceive else NoDatagrams), qt_got = []\<rparr>, c))"

definition quic_limits :: "quicTransport \<Rightarrow> FrameLimits" where
  "quic_limits t = (if qt_maxFrame t = 0 then DefaultLimits else \<lparr>fl_MaxFrameBytes = qt_maxFrame t\<rparr>)"

section \<open>Goroutines\<close>

text \<open>\<open>sync.WaitGroup\<close> panics when its counter becomes negative.\<close>

definition wg_done :: "quicTransport \<Rightarrow> quicTransport option" where
  "wg_done t = (if qt_wg t \<le> 0 then None else Some (t\<lparr>qt_wg := qt_wg t - 1\<rparr>))"

definition close_done :: "quicTransport \<Rightarrow> quicTransport option" where
  "close_done t = (if qt_done t then None else Some (t\<lparr>qt_done := True\<rparr>))"

definition acceptDataStreams :: "rev list res \<Rightarrow> quicTransport \<Rightarrow> quicTransport option" where
  "acceptDataStreams accepted t =
    (if qt_acceptor t \<noteq> Accepting then Some t
     else case AcceptStream accepted (qt_conn t) of
       (Inl e, c) \<Rightarrow>
         if qt_closed t then Some (t\<lparr>qt_conn := c, qt_acceptor := Waiting e\<rparr>)
         else close_done (t\<lparr>qt_conn := c, qt_closed := True, qt_acceptor := Waiting e\<rparr>)
     | (Inr (s, _), c) \<Rightarrow>
         Some (t\<lparr>qt_conn := c, qt_wg := qt_wg t + 1,
           qt_streams := qt_streams t @ [\<lparr>qs_input = s, qs_pc = SRead, qs_read = [], qs_dropped = []\<rparr>]\<rparr>))"

text \<open>The end of the accept loop, when all readers are gone.\<close>

definition accept_finish :: "quicTransport \<Rightarrow> quicTransport option" where
  "accept_finish t =
    (case qt_acceptor t of
       Waiting e \<Rightarrow>
         if qt_wg t \<noteq> 0 then Some t
         else
           let de = (case chan_send e (qt_dataErr t) of Sent c \<Rightarrow> c | _ \<Rightarrow> qt_dataErr t)
           in (case chan_close (qt_dataCh t) of None \<Rightarrow> None
               | Some c \<Rightarrow> Some (t\<lparr>qt_dataErr := de, qt_dataCh := c, qt_acceptor := AcceptExit\<rparr>))
     | _ \<Rightarrow> Some t)"

definition stream_exit :: "nat \<Rightarrow> Frame list \<Rightarrow> quicTransport \<Rightarrow> quicTransport option" where
  "stream_exit i dropped t =
    wg_done (t\<lparr>qt_streams := (qt_streams t)[i := (qt_streams t ! i)\<lparr>qs_pc := SExit, qs_dropped := dropped\<rparr>]\<rparr>)"

text \<open>\<open>readDataStream\<close>: \<open>broken\<close> is a read error of the connection.\<close>

definition stream_read :: "(byte list \<Rightarrow> u64 \<times> int) \<Rightarrow> bool \<Rightarrow> nat \<Rightarrow> quicTransport \<Rightarrow> quicTransport option" where
  "stream_read cv broken i t =
    (if length (qt_streams t) \<le> i then Some t
     else let s = qt_streams t ! i in
       if qs_pc s \<noteq> SRead then Some t
       else if broken then stream_exit i [] t
       else case Read cv (quic_limits t) (qs_input s) of
         (Inl _, _) \<Rightarrow> stream_exit i [] t
       | (Inr f, r) \<Rightarrow> Some (t\<lparr>qt_streams := (qt_streams t)[i := s\<lparr>qs_input := r, qs_pc := SPush f, qs_read := qs_read s @ [f]\<rparr>]\<rparr>))"

definition stream_push :: "bool \<Rightarrow> nat \<Rightarrow> quicTransport \<Rightarrow> quicTransport option" where
  "stream_push preferDone i t =
    (if length (qt_streams t) \<le> i then Some t
     else let s = qt_streams t ! i in
       case qs_pc s of
         SPush f \<Rightarrow>
           if preferDone \<and> qt_done t then stream_exit i [f] t
           else
             (case chan_send (Some i, f) (qt_dataCh t) of
                Sent c \<Rightarrow> Some (t\<lparr>qt_dataCh := c, qt_streams := (qt_streams t)[i := s\<lparr>qs_pc := SRead\<rparr>]\<rparr>)
              | SendPanics \<Rightarrow> None
              | SendBlocks \<Rightarrow> if qt_done t then stream_exit i [f] t else Some t)
       | _ \<Rightarrow> Some t)"

text \<open>\<open>receiveDatagrams\<close>: the payload of a datagram becomes a DGRAM frame.\<close>

definition dgram_receive :: "byte list res \<Rightarrow> quicTransport \<Rightarrow> quicTransport option" where
  "dgram_receive received t =
    (if qt_dgrams t \<noteq> DgReceive then Some t
     else case received of
       Inl _ \<Rightarrow> wg_done (t\<lparr>qt_dgrams := DgExit\<rparr>)
     | Inr p \<Rightarrow> Some (t\<lparr>qt_dgrams := DgPush \<lparr>Header_of = \<lparr>Flags = 0, Type = TypeDgram, Length = len64 p\<rparr>, Payload = p\<rparr>\<rparr>))"

definition dgram_push :: "bool \<Rightarrow> quicTransport \<Rightarrow> quicTransport option" where
  "dgram_push preferDone t =
    (case qt_dgrams t of
       DgPush f \<Rightarrow>
         if preferDone \<and> qt_done t then wg_done (t\<lparr>qt_dgrams := DgExit\<rparr>)
         else
           (case chan_send (None, f) (qt_dataCh t) of
              Sent c \<Rightarrow> Some (t\<lparr>qt_dataCh := c, qt_dgrams := DgReceive\<rparr>)
            | SendPanics \<Rightarrow> None
            | SendBlocks \<Rightarrow> if qt_done t then wg_done (t\<lparr>qt_dgrams := DgExit\<rparr>) else Some t)
     | _ \<Rightarrow> Some t)"

section \<open>Operations of the interface\<close>

definition Quic_RecvControlFrame :: "(byte list \<Rightarrow> u64 \<times> int) \<Rightarrow> Ctx \<Rightarrow> time \<Rightarrow> go_err option \<Rightarrow> time option \<Rightarrow> quicTransport \<Rightarrow> rev list
    \<Rightarrow> Frame res \<times> time option list \<times> rev list" where
  "Quic_RecvControlFrame cv ctx now setErr fired t s =
    (case ctx_err_before ctx of Some e \<Rightarrow> (Inl e, [], s)
     | None \<Rightarrow> ReadFrameCtxLimit cv ctx now setErr fired (quic_limits t) s)"

text \<open>The result is \<open>None\<close> while the call waits; \<open>ctxErr\<close> is the error of a cancelled context.\<close>

definition Quic_RecvDataFrame :: "bool \<Rightarrow> bool \<Rightarrow> go_err option \<Rightarrow> quicTransport \<Rightarrow> Frame res option \<times> quicTransport" where
  "Quic_RecvDataFrame preferCtx innerCtx ctxErr t =
    (case select_recv preferCtx ctxErr (qt_dataCh t) of
       Got (src, f) c \<Rightarrow> (Some (Inr f), t\<lparr>qt_dataCh := c, qt_got := qt_got t @ [(src, f)]\<rparr>)
     | GotClosed \<Rightarrow>
         (case select_recv innerCtx ctxErr (qt_dataErr t) of
            Got e c \<Rightarrow> (Some (Inl e), t\<lparr>qt_dataErr := c\<rparr>)
          | _ \<Rightarrow> (case ctxErr of Some e \<Rightarrow> (Some (Inl e), t) | None \<Rightarrow> (Some (Inl (OtherErr ''EOF'' None)), t)))
     | RecvBlocks \<Rightarrow> (map_option Inl ctxErr, t))"

interpretation quic_data: receiver "\<lambda>b. Quic_RecvDataFrame b b" "\<lambda>t. map snd (gc_buf (qt_dataCh t))" "\<lambda>t. gc_closed (qt_dataCh t)"
  by unfold_locales (auto simp: Quic_RecvDataFrame_def select_recv_def chan_recv_def split: if_splits list.splits option.splits)

definition Quic_SendFrame :: "(u64 \<Rightarrow> byte list) \<Rightarrow> go_err option \<Rightarrow> go_err option \<Rightarrow> Frame \<Rightarrow> quicTransport \<Rightarrow> go_err option \<times> quicTransport" where
  "Quic_SendFrame av ctxErr setErr f t =
    (case ctxErr of Some e \<Rightarrow> (Some e, t)
     | None \<Rightarrow>
         (case setErr of Some e \<Rightarrow> (Some (WrapError LocalStream ''set control write deadline'' e), t)
          | None \<Rightarrow>
              (case Write av (Type (Header_of f)) 0 (Payload f) (qt_control t) of
                 (Some e, w) \<Rightarrow> (Some e, t\<lparr>qt_control := w, qt_conn := Conn_Close (qt_conn t)\<rparr>)
               | (None, w) \<Rightarrow> (None, t\<lparr>qt_control := w\<rparr>))))"

text \<open>\<open>supports\<close> is what the library reports of both ends, \<open>None\<close> while there is no connection.\<close>

definition Quic_SupportsDatagram :: "(bool \<times> bool) option \<Rightarrow> bool" where
  "Quic_SupportsDatagram supports = (case supports of None \<Rightarrow> False | Some (localEnd, remoteEnd) \<Rightarrow> localEnd \<and> remoteEnd)"

definition Quic_Close :: "quicTransport \<Rightarrow> quicTransport option" where
  "Quic_Close t =
    (if qt_closed t then Some t
     else case close_done (t\<lparr>qt_closed := True\<rparr>) of None \<Rightarrow> None
       | Some t \<Rightarrow> Some (t\<lparr>qt_conn := Conn_Close (qt_conn t)\<rparr>))"

section \<open>Runs\<close>

datatype quic_op =
    QAccept "rev list res" | QFinish | QRead bool nat | QPush bool nat | QDgram "byte list res" | QDgramPush bool
  | QRecv bool bool "go_err option" | QSend "go_err option" "go_err option" Frame | QClose

fun quic_step :: "(u64 \<Rightarrow> byte list) \<Rightarrow> (byte list \<Rightarrow> u64 \<times> int) \<Rightarrow> quic_op \<Rightarrow> quicTransport \<Rightarrow> quicTransport option" where
  "quic_step av cv (QAccept a) t = acceptDataStreams a t"
| "quic_step av cv QFinish t = accept_finish t"
| "quic_step av cv (QRead br i) t = stream_read cv br i t"
| "quic_step av cv (QPush pd i) t = stream_push pd i t"
| "quic_step av cv (QDgram r) t = dgram_receive r t"
| "quic_step av cv (QDgramPush pd) t = dgram_push pd t"
| "quic_step av cv (QRecv b i e) t = Some (snd (Quic_RecvDataFrame b i e t))"
| "quic_step av cv (QSend ce se f) t = Some (snd (Quic_SendFrame av ce se f t))"
| "quic_step av cv QClose t = Quic_Close t"

inductive quic_reach :: "(u64 \<Rightarrow> byte list) \<Rightarrow> (byte list \<Rightarrow> u64 \<times> int) \<Rightarrow> quicTransport \<Rightarrow> quicTransport \<Rightarrow> bool" for av cv t where
  start: "quic_reach av cv t t"
| more: "quic_reach av cv t u \<Longrightarrow> quic_step av cv op u = Some v \<Longrightarrow> quic_reach av cv t v"


section \<open>Invariant\<close>

definition alive :: "qstream \<Rightarrow> nat" where
  "alive s = (if qs_pc s = SExit then 0 else 1)"

definition dgram_alive :: "dgram_pc \<Rightarrow> nat" where
  "dgram_alive d = (case d of DgReceive \<Rightarrow> 1 | DgPush _ \<Rightarrow> 1 | _ \<Rightarrow> 0)"

text \<open>The goroutines counted by the wait group are those that run, and the channel is closed when none is left.\<close>

definition workers_ok :: "quicTransport \<Rightarrow> bool" where
  "workers_ok t \<longleftrightarrow>
    qt_wg t = int (sum_list (map alive (qt_streams t)) + dgram_alive (qt_dgrams t)) \<and>
    (qt_closed t \<longleftrightarrow> qt_done t) \<and> (qt_acceptor t \<noteq> Accepting \<longrightarrow> qt_closed t) \<and>
    (gc_closed (qt_dataCh t) \<longleftrightarrow> qt_acceptor t = AcceptExit) \<and> (qt_acceptor t = AcceptExit \<longrightarrow> qt_wg t = 0) \<and>
    gc_cap (qt_dataCh t) = 64 \<and> length (gc_buf (qt_dataCh t)) \<le> 64 \<and> cn_controlClaimed (qt_conn t)"

text \<open>Per stream: what was read is what the consumer has, what is in the channel, what the reader holds and what it gave up.\<close>

definition from_stream :: "nat \<Rightarrow> (nat option \<times> Frame) list \<Rightarrow> Frame list" where
  "from_stream i xs = map snd (filter (\<lambda>(src, f). src = Some i) xs)"

definition stream_hand :: "qstream \<Rightarrow> Frame list" where
  "stream_hand s = (case qs_pc s of SPush f \<Rightarrow> [f] | _ \<Rightarrow> [])"

definition stream_ok :: "quicTransport \<Rightarrow> nat \<Rightarrow> qstream \<Rightarrow> bool" where
  "stream_ok t i s \<longleftrightarrow>
    from_stream i (qt_got t @ gc_buf (qt_dataCh t)) @ stream_hand s @ qs_dropped s = qs_read s \<and>
    length (qs_dropped s) \<le> 1 \<and> (qs_dropped s \<noteq> [] \<longrightarrow> qs_pc s = SExit \<and> qt_done t)"

definition quic_inv :: "quicTransport \<Rightarrow> bool" where
  "quic_inv t \<longleftrightarrow> workers_ok t \<and> (\<forall>i < length (qt_streams t). stream_ok t i (qt_streams t ! i)) \<and>
    (\<forall>i f. (Some i, f) \<in> set (qt_got t @ gc_buf (qt_dataCh t)) \<longrightarrow> i < length (qt_streams t))"

lemma from_stream_simps [simp]:
  "from_stream i [] = []" "from_stream i (xs @ ys) = from_stream i xs @ from_stream i ys"
  "from_stream i ((src, f) # xs) = (if src = Some i then f # from_stream i xs else from_stream i xs)"
  by (simp_all add: from_stream_def)

lemma from_stream_fresh: "\<forall>i f. (Some i, f) \<in> set xs \<longrightarrow> i < n \<Longrightarrow> from_stream n xs = []"
  by (induction xs) fastforce+

lemmas alive_update = sum_list_map_update [of _ _ alive]

lemma alive_one: "i < length xs \<Longrightarrow> qs_pc (xs ! i) \<noteq> SExit \<Longrightarrow> 1 \<le> sum_list (map alive xs)"
  using alive_update [of i xs "(xs ! i)\<lparr>qs_pc := SExit\<rparr>"] by (simp add: alive_def)

text \<open>A stream's reader takes a step that leaves the channel and the history alone.\<close>

lemma stream_exit_inv:
  assumes "quic_inv t" "i < length (qt_streams t)" "stream_hand (qt_streams t ! i) = d" "qs_pc (qt_streams t ! i) \<noteq> SExit"
    "d \<noteq> [] \<longrightarrow> qt_done t"
  shows "\<exists>t'. stream_exit i d t = Some t' \<and> quic_inv t'"
proof -
  let ?s = "qt_streams t ! i"
  have nd: "qs_dropped ?s = []" using assms(1,2,4) by (auto simp: quic_inv_def stream_ok_def)
  have n: "sum_list (map alive ((qt_streams t)[i := ?s\<lparr>qs_pc := SExit, qs_dropped := d\<rparr>])) + 1 = sum_list (map alive (qt_streams t))"
    using alive_update [OF assms(2), of "?s\<lparr>qs_pc := SExit, qs_dropped := d\<rparr>"] assms(4) by (simp add: alive_def)
  have l: "length d \<le> 1" using assms(3) by (auto simp: stream_hand_def split: stream_pc.splits)
  have so: "stream_ok t i ?s" using assms(1,2) by (simp add: quic_inv_def)
  have "0 < qt_wg t" using assms(1) n by (simp add: quic_inv_def workers_ok_def)
  moreover have "qt_acceptor t \<noteq> AcceptExit" using assms(1) \<open>0 < qt_wg t\<close> by (auto simp: quic_inv_def workers_ok_def)
  ultimately show ?thesis
    using assms nd n l so
    by (auto simp: stream_exit_def wg_done_def quic_inv_def workers_ok_def nth_list_update stream_ok_def stream_hand_def)
qed


lemma stream_read_inv:
  assumes "quic_inv t"
  shows "\<exists>t'. stream_read cv br i t = Some t' \<and> quic_inv t'"
proof (cases "i < length (qt_streams t) \<and> qs_pc (qt_streams t ! i) = SRead")
  case True
  let ?s = "qt_streams t ! i"
  have ex: "\<exists>t'. stream_exit i [] t = Some t' \<and> quic_inv t'"
    using stream_exit_inv [OF assms, of i "[]"] True by (simp add: stream_hand_def)
  obtain res r where rd: "Read cv (quic_limits t) (qs_input ?s) = (res, r)" by force
  show ?thesis
  proof (cases "br \<or> isl res")
    case x: True
    then show ?thesis using ex True rd by (cases res) (auto simp: stream_read_def Let_def)
  next
    case x: False
    then obtain f where f: "res = Inr f" by (cases res) auto
    let ?s' = "?s\<lparr>qs_input := r, qs_pc := SPush f, qs_read := qs_read ?s @ [f]\<rparr>"
    have so: "stream_ok t i ?s" using assms True by (simp add: quic_inv_def)
    then have "qs_dropped ?s = []" using True by (auto simp: stream_ok_def)
    with so True have "stream_ok (t\<lparr>qt_streams := (qt_streams t)[i := ?s']\<rparr>) i ?s'" by (simp add: stream_ok_def stream_hand_def)
    moreover have "sum_list (map alive ((qt_streams t)[i := ?s'])) = sum_list (map alive (qt_streams t))"
      using alive_update [of i "qt_streams t" ?s'] True by (simp add: alive_def)
    ultimately have "quic_inv (t\<lparr>qt_streams := (qt_streams t)[i := ?s']\<rparr>)"
      using assms True unfolding quic_inv_def workers_ok_def by (auto simp: nth_list_update stream_ok_def)
    then show ?thesis using True x f rd by (simp add: stream_read_def Let_def)
  qed
qed (use assms in \<open>auto simp: stream_read_def Let_def\<close>)

lemma stream_push_inv:
  assumes "quic_inv t"
  shows "\<exists>t'. stream_push pd i t = Some t' \<and> quic_inv t'"
proof (cases "i < length (qt_streams t)")
  case True
  let ?s = "qt_streams t ! i"
  show ?thesis
  proof (cases "qs_pc ?s")
    case (SPush f)
    have so: "stream_ok t i ?s" using assms True by (simp add: quic_inv_def)
    then have nd: "qs_dropped ?s = []" using SPush by (auto simp: stream_ok_def)
    have "1 \<le> sum_list (map alive (qt_streams t))" using alive_one [OF True] SPush by simp
    then have o: "\<not> gc_closed (qt_dataCh t)" using assms by (auto simp: quic_inv_def workers_ok_def)
    have ex: "\<exists>t'. stream_exit i [f] t = Some t' \<and> quic_inv t'" if "qt_done t"
      using stream_exit_inv [OF assms True, of "[f]"] SPush that by (simp add: stream_hand_def)
    let ?s' = "?s\<lparr>qs_pc := SRead\<rparr>"
    let ?c = "(qt_dataCh t)\<lparr>gc_buf := gc_buf (qt_dataCh t) @ [(Some i, f)]\<rparr>"
    let ?t' = "t\<lparr>qt_dataCh := ?c, qt_streams := (qt_streams t)[i := ?s']\<rparr>"
    have "quic_inv ?t'" if "length (gc_buf (qt_dataCh t)) < gc_cap (qt_dataCh t)"
    proof -
      have "stream_ok ?t' i ?s'" using so SPush nd by (simp add: stream_ok_def stream_hand_def)
      moreover have "stream_ok ?t' j (qt_streams t ! j)" if "j < length (qt_streams t)" "j \<noteq> i" for j
        using assms that by (simp add: quic_inv_def stream_ok_def)
      moreover have "sum_list (map alive ((qt_streams t)[i := ?s'])) = sum_list (map alive (qt_streams t))"
        using alive_update [OF True, of ?s'] SPush by (simp add: alive_def)
      ultimately show ?thesis using assms True that unfolding quic_inv_def workers_ok_def
        by (auto simp: nth_list_update)
    qed
    then show ?thesis using SPush True o ex assms by (auto simp: stream_push_def chan_send_def Let_def)
  qed (use assms True in \<open>simp_all add: stream_push_def\<close>)
qed (use assms in \<open>simp add: stream_push_def\<close>)

text \<open>A step that changes neither the channel nor the readers.\<close>

lemma quic_inv_cong:
  assumes "quic_inv t" "workers_ok t'" "qt_streams t' = qt_streams t" "qt_got t' = qt_got t"
    "gc_buf (qt_dataCh t') = gc_buf (qt_dataCh t)" "qt_done t \<longrightarrow> qt_done t'"
  shows "quic_inv t'"
  using assms(1) unfolding quic_inv_def stream_ok_def assms(3-5) using assms(2,6) by blast

lemma dgram_inv:
  assumes "quic_inv t"
  shows "\<exists>t'. dgram_receive r t = Some t' \<and> quic_inv t'" "\<exists>t'. dgram_push pd t = Some t' \<and> quic_inv t'"
proof -
  have w: "workers_ok t" using assms by (simp add: quic_inv_def)
  have ex: "\<exists>t'. wg_done (t\<lparr>qt_dgrams := DgExit\<rparr>) = Some t' \<and> quic_inv t'" if "dgram_alive (qt_dgrams t) = 1"
  proof -
    have "workers_ok (t\<lparr>qt_dgrams := DgExit, qt_wg := qt_wg t - 1\<rparr>)" "0 < qt_wg t"
      using w that by (auto simp: workers_ok_def dgram_alive_def)
    then show ?thesis using quic_inv_cong [OF assms, of "t\<lparr>qt_dgrams := DgExit, qt_wg := qt_wg t - 1\<rparr>"] by (simp add: wg_done_def)
  qed
  show "\<exists>t'. dgram_receive r t = Some t' \<and> quic_inv t'"
  proof (cases "qt_dgrams t = DgReceive")
    case True
    have "quic_inv (t\<lparr>qt_dgrams := DgPush f\<rparr>)" for f
      by (rule quic_inv_cong [OF assms]) (use w True in \<open>auto simp: workers_ok_def dgram_alive_def\<close>)
    then show ?thesis using True ex by (cases r) (simp_all add: dgram_receive_def dgram_alive_def)
  qed (use assms in \<open>simp add: dgram_receive_def\<close>)
  show "\<exists>t'. dgram_push pd t = Some t' \<and> quic_inv t'"
  proof (cases "qt_dgrams t")
    case (DgPush f)
    have o: "\<not> gc_closed (qt_dataCh t)" using w DgPush by (auto simp: workers_ok_def dgram_alive_def)
    let ?t' = "t\<lparr>qt_dataCh := (qt_dataCh t)\<lparr>gc_buf := gc_buf (qt_dataCh t) @ [(None, f)]\<rparr>, qt_dgrams := DgReceive\<rparr>"
    have "quic_inv ?t'" if "length (gc_buf (qt_dataCh t)) < gc_cap (qt_dataCh t)"
      using assms that DgPush unfolding quic_inv_def workers_ok_def stream_ok_def by (auto simp: dgram_alive_def)
    then show ?thesis using DgPush o ex assms by (auto simp: dgram_push_def chan_send_def dgram_alive_def)
  qed (use assms in \<open>simp_all add: dgram_push_def\<close>)
qed

lemma accept_inv:
  assumes "quic_inv t"
  shows "\<exists>t'. acceptDataStreams a t = Some t' \<and> quic_inv t'" "\<exists>t'. accept_finish t = Some t' \<and> quic_inv t'"
proof -
  have w: "workers_ok t" using assms by (simp add: quic_inv_def)
  show "\<exists>t'. acceptDataStreams a t = Some t' \<and> quic_inv t'"
  proof (cases "qt_acceptor t = Accepting")
    case True
    show ?thesis
    proof (cases a)
      case (Inl e)
      have "quic_inv (t\<lparr>qt_closed := True, qt_acceptor := Waiting e, qt_done := True\<rparr>)"
        by (rule quic_inv_cong [OF assms]) (use w True in \<open>auto simp: workers_ok_def\<close>)
      moreover have "quic_inv (t\<lparr>qt_acceptor := Waiting e\<rparr>)" if "qt_closed t"
        by (rule quic_inv_cong [OF assms]) (use w True that in \<open>auto simp: workers_ok_def\<close>)
      ultimately show ?thesis using True Inl w
        by (auto simp: acceptDataStreams_def AcceptStream_def close_done_def workers_ok_def)
    next
      case (Inr s)
      let ?n = "\<lparr>qs_input = s, qs_pc = SRead, qs_read = [], qs_dropped = []\<rparr>"
      have "from_stream (length (qt_streams t)) (qt_got t @ gc_buf (qt_dataCh t)) = []"
        using assms by (intro from_stream_fresh) (simp add: quic_inv_def)
      then have "stream_ok (t\<lparr>qt_wg := qt_wg t + 1, qt_streams := qt_streams t @ [?n]\<rparr>) (length (qt_streams t)) ?n"
        by (simp add: stream_ok_def stream_hand_def)
      then have "quic_inv (t\<lparr>qt_wg := qt_wg t + 1, qt_streams := qt_streams t @ [?n]\<rparr>)"
        using assms True unfolding quic_inv_def workers_ok_def
        by (auto simp: nth_append alive_def stream_ok_def less_Suc_eq)
      then show ?thesis using True Inr w by (simp add: acceptDataStreams_def AcceptStream_def workers_ok_def)
    qed
  qed (use assms in \<open>simp add: acceptDataStreams_def\<close>)
  show "\<exists>t'. accept_finish t = Some t' \<and> quic_inv t'"
  proof (cases "qt_acceptor t")
    case (Waiting e)
    have "quic_inv (t\<lparr>qt_dataErr := de, qt_dataCh := (qt_dataCh t)\<lparr>gc_closed := True\<rparr>, qt_acceptor := AcceptExit\<rparr>)"
      if "qt_wg t = 0" for de
      by (rule quic_inv_cong [OF assms]) (use w Waiting that in \<open>auto simp: workers_ok_def\<close>)
    then show ?thesis using Waiting w assms by (simp add: accept_finish_def chan_close_def workers_ok_def Let_def)
  qed (use assms in \<open>simp_all add: accept_finish_def\<close>)
qed

lemma Quic_Close_inv:
  assumes "quic_inv t"
  shows "\<exists>t'. Quic_Close t = Some t' \<and> quic_inv t'"
proof -
  have w: "workers_ok t" using assms by (simp add: quic_inv_def)
  have "quic_inv (t\<lparr>qt_closed := True, qt_done := True, qt_conn := Conn_Close (qt_conn t)\<rparr>)"
    by (rule quic_inv_cong [OF assms]) (use w in \<open>auto simp: workers_ok_def Conn_Close_def\<close>)
  then show ?thesis using assms w by (simp add: Quic_Close_def close_done_def workers_ok_def)
qed

lemma Quic_other_inv:
  assumes "quic_inv t"
  shows "quic_inv (snd (Quic_RecvDataFrame b i e t))" "quic_inv (snd (Quic_SendFrame av ce se f t))"
proof -
  have w: "workers_ok t" using assms by (simp add: quic_inv_def)
  show "quic_inv (snd (Quic_RecvDataFrame b i e t))"
  proof (cases "b \<and> e \<noteq> None")
    case True
    then show ?thesis using assms by (simp add: Quic_RecvDataFrame_def select_recv_def)
  next
    case recv: False
    then have sel: "select_recv b e (qt_dataCh t) = chan_recv (qt_dataCh t)" by (auto simp: select_recv_def)
    show ?thesis
    proof (cases "gc_buf (qt_dataCh t)")
      case Nil
      have "quic_inv (t\<lparr>qt_dataErr := c\<rparr>)" for c
        by (rule quic_inv_cong [OF assms]) (use w in \<open>auto simp: workers_ok_def\<close>)
      then show ?thesis using Nil assms by (auto simp: Quic_RecvDataFrame_def sel chan_recv_def split: list.splits option.splits recv_result.splits)
    next
      case (Cons x xs)
      then show ?thesis using assms unfolding quic_inv_def workers_ok_def stream_ok_def
        by (cases x) (auto simp: Quic_RecvDataFrame_def sel chan_recv_def)
    qed
  qed
  have "quic_inv (t\<lparr>qt_control := c\<rparr>)" "quic_inv (t\<lparr>qt_control := c, qt_conn := Conn_Close (qt_conn t)\<rparr>)" for c
    by (rule quic_inv_cong [OF assms]; use w in \<open>auto simp: workers_ok_def Conn_Close_def\<close>)+
  then show "quic_inv (snd (Quic_SendFrame av ce se f t))"
    using assms by (auto simp: Quic_SendFrame_def split: option.splits prod.splits)
qed

lemma quic_step_inv:
  assumes "quic_inv t"
  shows "\<exists>t'. quic_step av cv op t = Some t' \<and> quic_inv t'"
  using accept_inv [OF assms] stream_read_inv [OF assms] stream_push_inv [OF assms] dgram_inv [OF assms] Quic_Close_inv [OF assms]
    Quic_other_inv [OF assms]
  by (cases op) simp_all


section \<open>Properties\<close>

lemma quic_new_inv: "fst (newQuicTransport (Inr w) dg lim conn) = Inr t \<Longrightarrow> quic_inv t"
  by (auto simp: newQuicTransport_def AcceptStream_def quic_inv_def workers_ok_def dgram_alive_def split: if_splits)

lemma quic_reach_inv: "quic_reach av cv t u \<Longrightarrow> quic_inv t \<Longrightarrow> quic_inv u"
proof (induction rule: quic_reach.induct)
  case (more u op v)
  then show ?case using quic_step_inv [of u av cv op] by auto
qed


definition demo_quic_conn :: Conn where
  "demo_quic_conn = \<lparr>cn_controlClaimed = False, cn_authed = False, cn_closed = False, cn_udpConn = None\<rparr>"

definition demo_quic :: quicTransport where
  "demo_quic = projr (fst (newQuicTransport (Inr \<lparr>w_out = [], w_ans = []\<rparr>) True 0 demo_quic_conn))"


text \<open>
  An accept error ends the accept loop and marks the transport closed without closing the connection; the \<open>Close\<close> that follows then takes
  the transport for closed already and does nothing, so the QUIC connection stays open.
\<close>

theorem quic_close_skips_connection:
  assumes "qt_acceptor t = Accepting" "acceptDataStreams (Inl e) t = Some t'"
  shows "qt_conn t' = qt_conn t \<and> Quic_Close t' = Some t'"
  using assms by (auto simp: acceptDataStreams_def AcceptStream_def close_done_def Quic_Close_def split: if_splits)

theorem quic_close_skips_connection_witness:
  "\<exists>t'. acceptDataStreams (Inl (OtherErr ''context canceled'' None)) demo_quic = Some t' \<and> \<not> cn_closed (qt_conn t') \<and> Quic_Close t' = Some t'"
proof -
  have d: "qt_acceptor demo_quic = Accepting" "\<not> cn_closed (qt_conn demo_quic)"
    by (simp_all add: demo_quic_def newQuicTransport_def AcceptStream_def demo_quic_conn_def)
  obtain t' where "acceptDataStreams (Inl (OtherErr ''context canceled'' None)) demo_quic = Some t'"
    by (simp add: acceptDataStreams_def AcceptStream_def close_done_def demo_quic_def newQuicTransport_def demo_quic_conn_def)
  with quic_close_skips_connection [OF d(1) this] d(2) show ?thesis by simp
qed

end
