(* ===== verification/TcpTransport.thy ===== *)
theory TcpTransport
  imports Channels
begin

text \<open>
  The server's transport over one TCP connection, \<open>ntls/tcp_transport.go\<close>. The connection is what it will still yield to the reader and
  a writer; the goroutine of \<open>readLoop\<close>, any number of concurrent \<open>SendFrame\<close> calls and \<open>Close\<close> are program counters, and an operation of
  \<open>tcp_op\<close> is one step of one of them between two blocking points. The result \<open>None\<close> is a panic. An operation that is not possible, because
  its goroutine is elsewhere or blocks, changes nothing. The last five fields are histories: the frames read off the connection,
  those each of the two receivers got, those written completely, and the one the reader gave up when it was told to stop.
\<close>

section \<open>State\<close>

datatype tcp_reader = ReadNext | Deliver Frame | ReadExit
datatype tcp_writer = NotWriting | HasToken Frame | Writing Frame "byte list list"
datatype tcp_closer = CloseIdle | CloseDrains | CloseDone

record tcpTransport =
  tt_input :: "rev list"
  tt_conn :: Writer
  tt_connClosed :: bool
  tt_maxFrame :: u64
  tt_writeSem :: "unit gochan"
  tt_authed :: bool
  tt_controlCh :: "Frame gochan"
  tt_dataCh :: "Frame gochan"
  tt_done :: bool
  tt_closed :: bool
  tt_reader :: tcp_reader
  tt_writers :: "nat \<Rightarrow> tcp_writer"
  tt_closer :: tcp_closer
  tt_deadlines :: "time list"
  tt_read :: "Frame list"
  tt_gotControl :: "Frame list"
  tt_gotData :: "Frame list"
  tt_written :: "Frame list"
  tt_dropped :: "Frame list"

definition tcpPreAuthReadTimeout :: time where "tcpPreAuthReadTimeout = 30 * 10 ^ 9"

definition newTCPTransport :: "rev list \<Rightarrow> Writer \<Rightarrow> u64 \<Rightarrow> tcpTransport" where
  "newTCPTransport input conn maxFrame =
    \<lparr>tt_input = input, tt_conn = conn, tt_connClosed = False, tt_maxFrame = maxFrame,
     tt_writeSem = \<lparr>gc_cap = 1, gc_buf = [()], gc_closed = False\<rparr>, tt_authed = False,
     tt_controlCh = make_chan 16, tt_dataCh = make_chan 64, tt_done = False, tt_closed = False,
     tt_reader = ReadNext, tt_writers = (\<lambda>_. NotWriting), tt_closer = CloseIdle, tt_deadlines = [],
     tt_read = [], tt_gotControl = [], tt_gotData = [], tt_written = [], tt_dropped = []\<rparr>"

definition tcp_limits :: "tcpTransport \<Rightarrow> FrameLimits" where
  "tcp_limits t = (if tt_maxFrame t = 0 then DefaultLimits else \<lparr>fl_MaxFrameBytes = tt_maxFrame t\<rparr>)"

section \<open>The read loop\<close>

text \<open>The deferred function of \<open>readLoop\<close> closes both channels.\<close>

definition in_hand :: "tcpTransport \<Rightarrow> Frame list" where
  "in_hand t = (case tt_reader t of Deliver f \<Rightarrow> [f] | _ \<Rightarrow> [])"

definition reader_exit :: "tcpTransport \<Rightarrow> tcpTransport option" where
  "reader_exit t =
    (case chan_close (tt_controlCh t) of None \<Rightarrow> None
     | Some cc \<Rightarrow> (case chan_close (tt_dataCh t) of None \<Rightarrow> None
       | Some dc \<Rightarrow> Some (t\<lparr>tt_controlCh := cc, tt_dataCh := dc, tt_reader := ReadExit, tt_dropped := in_hand t\<rparr>)))"

text \<open>One read, with a deadline that depends on the authentication; \<open>deadlineOk\<close> is the answer of \<open>SetReadDeadline\<close>.\<close>

definition reader_read :: "(byte list \<Rightarrow> u64 \<times> int) \<Rightarrow> time \<Rightarrow> bool \<Rightarrow> tcpTransport \<Rightarrow> tcpTransport option" where
  "reader_read cv now deadlineOk t =
    (if tt_reader t \<noteq> ReadNext then Some t
     else
       let timeout = (if \<not> tt_authed t then tcpPreAuthReadTimeout else DefaultReadTimeout) in
       if tt_connClosed t \<or> \<not> deadlineOk then reader_exit t
       else
         let t = t\<lparr>tt_deadlines := tt_deadlines t @ [now + timeout]\<rparr> in
         case Read cv (tcp_limits t) (tt_input t) of
           (Inl _, s) \<Rightarrow> reader_exit (t\<lparr>tt_input := s\<rparr>)
         | (Inr f, s) \<Rightarrow> Some (t\<lparr>tt_input := s, tt_read := tt_read t @ [f], tt_reader := Deliver f\<rparr>))"

text \<open>The \<open>select\<close> of the loop: \<open>preferDone\<close> says which ready case the runtime takes.\<close>

definition reader_deliver :: "bool \<Rightarrow> tcpTransport \<Rightarrow> tcpTransport option" where
  "reader_deliver preferDone t =
    (case tt_reader t of
       Deliver f \<Rightarrow>
         if preferDone \<and> tt_done t then reader_exit t
         else if IsControlType (Type (Header_of f)) then
           (case chan_send f (tt_controlCh t) of
              Sent c \<Rightarrow> Some (t\<lparr>tt_controlCh := c, tt_reader := ReadNext\<rparr>)
            | SendPanics \<Rightarrow> None
            | SendBlocks \<Rightarrow> if tt_done t then reader_exit t else Some t)
         else
           (case chan_send f (tt_dataCh t) of
              Sent c \<Rightarrow> Some (t\<lparr>tt_dataCh := c, tt_reader := ReadNext\<rparr>)
            | SendPanics \<Rightarrow> None
            | SendBlocks \<Rightarrow> if tt_done t then reader_exit t else Some t)
     | _ \<Rightarrow> Some t)"

section \<open>Receiving, authentication\<close>

definition MarkAuthed :: "tcpTransport \<Rightarrow> tcpTransport" where
  "MarkAuthed t = t\<lparr>tt_authed := True\<rparr>"

text \<open>The result is \<open>None\<close> while the call waits. \<open>ctxErr\<close> is the error of a cancelled context.\<close>

definition RecvControlFrame :: "bool \<Rightarrow> go_err option \<Rightarrow> tcpTransport \<Rightarrow> Frame res option \<times> tcpTransport" where
  "RecvControlFrame preferCtx ctxErr t =
    (case select_recv preferCtx ctxErr (tt_controlCh t) of
       Got f c \<Rightarrow> (Some (Inr f), t\<lparr>tt_controlCh := c, tt_gotControl := tt_gotControl t @ [f]\<rparr>)
     | GotClosed \<Rightarrow> (Some (Inl (OtherErr ''EOF'' None)), t)
     | RecvBlocks \<Rightarrow> (map_option Inl ctxErr, t))"

definition RecvDataFrame :: "bool \<Rightarrow> go_err option \<Rightarrow> tcpTransport \<Rightarrow> Frame res option \<times> tcpTransport" where
  "RecvDataFrame preferCtx ctxErr t =
    (case select_recv preferCtx ctxErr (tt_dataCh t) of
       Got f c \<Rightarrow> (Some (Inr f), t\<lparr>tt_dataCh := c, tt_gotData := tt_gotData t @ [f]\<rparr>)
     | GotClosed \<Rightarrow> (Some (Inl (OtherErr ''EOF'' None)), t)
     | RecvBlocks \<Rightarrow> (map_option Inl ctxErr, t))"

interpretation tcp_control: receiver RecvControlFrame "\<lambda>t. gc_buf (tt_controlCh t)" "\<lambda>t. gc_closed (tt_controlCh t)"
  by unfold_locales (auto simp: RecvControlFrame_def select_recv_def chan_recv_def split: if_splits list.splits)

interpretation tcp_data: receiver RecvDataFrame "\<lambda>t. gc_buf (tt_dataCh t)" "\<lambda>t. gc_closed (tt_dataCh t)"
  by unfold_locales (auto simp: RecvDataFrame_def select_recv_def chan_recv_def split: if_splits list.splits)

section \<open>Sending\<close>

text \<open>
  A call of \<open>SendFrame\<close> takes the token, sets the deadline, writes its pieces and returns the token. One whose context ends while it waits for
  the token returns without any effect, and is not a step.
\<close>

definition send_acquire :: "nat \<Rightarrow> Frame \<Rightarrow> tcpTransport \<Rightarrow> tcpTransport option" where
  "send_acquire i f t =
    (if tt_writers t i \<noteq> NotWriting then Some t
     else case chan_recv (tt_writeSem t) of
       Got _ c \<Rightarrow> Some (t\<lparr>tt_writeSem := c, tt_writers := (tt_writers t)(i := HasToken f)\<rparr>)
     | _ \<Rightarrow> Some t)"

text \<open>The deferred release; a release that could block for ever would be the result \<open>None\<close> too.\<close>

definition send_return :: "nat \<Rightarrow> tcpTransport \<Rightarrow> tcpTransport option" where
  "send_return i t =
    (case chan_send () (tt_writeSem t) of
       Sent c \<Rightarrow> Some (t\<lparr>tt_writeSem := c, tt_writers := (tt_writers t)(i := NotWriting)\<rparr>)
     | _ \<Rightarrow> None)"

definition send_start :: "(u64 \<Rightarrow> byte list) \<Rightarrow> bool \<Rightarrow> nat \<Rightarrow> tcpTransport \<Rightarrow> tcpTransport option" where
  "send_start av deadlineOk i t =
    (case tt_writers t i of
       HasToken f \<Rightarrow>
         if \<not> deadlineOk then send_return i t
         else if MaxFrameBytes < len64 (Payload f) then send_return i (t\<lparr>tt_connClosed := True\<rparr>)
         else Some (t\<lparr>tt_writers := (tt_writers t)(i := Writing f (frame_pieces av (Type (Header_of f)) (Payload f)))\<rparr>)
     | _ \<Rightarrow> Some t)"

definition send_write :: "nat \<Rightarrow> tcpTransport \<Rightarrow> tcpTransport option" where
  "send_write i t =
    (case tt_writers t i of
       Writing f [] \<Rightarrow> send_return i (t\<lparr>tt_written := tt_written t @ [f]\<rparr>)
     | Writing f (p # ps) \<Rightarrow>
         if tt_connClosed t then send_return i t
         else
           (case writeFull p (tt_conn t) of
              (Some _, w) \<Rightarrow> send_return i (t\<lparr>tt_conn := w, tt_connClosed := True\<rparr>)
            | (None, w) \<Rightarrow> Some (t\<lparr>tt_conn := w, tt_writers := (tt_writers t)(i := Writing f ps)\<rparr>))
     | _ \<Rightarrow> Some t)"

section \<open>Closing\<close>

definition close_start :: "tcpTransport \<Rightarrow> tcpTransport" where
  "close_start t = (if tt_closed t then t else t\<lparr>tt_closed := True, tt_done := True, tt_closer := CloseDrains\<rparr>)"

text \<open>The wait for the token, which is kept, or for five seconds.\<close>

definition close_drain :: "bool \<Rightarrow> tcpTransport \<Rightarrow> tcpTransport" where
  "close_drain timedOut t =
    (if tt_closer t \<noteq> CloseDrains then t
     else if timedOut then t\<lparr>tt_connClosed := True, tt_closer := CloseDone\<rparr>
     else case chan_recv (tt_writeSem t) of
       Got _ c \<Rightarrow> t\<lparr>tt_writeSem := c, tt_connClosed := True, tt_closer := CloseDone\<rparr>
     | _ \<Rightarrow> t)"

section \<open>Runs\<close>

datatype tcp_op =
    TRead time bool | TDeliver bool | TMarkAuthed | TRecvControl bool "go_err option" | TRecvData bool "go_err option"
  | TAcquire nat Frame | TStart bool nat | TWrite nat | TClose | TDrain bool

fun tcp_step :: "(u64 \<Rightarrow> byte list) \<Rightarrow> (byte list \<Rightarrow> u64 \<times> int) \<Rightarrow> tcp_op \<Rightarrow> tcpTransport \<Rightarrow> tcpTransport option" where
  "tcp_step av cv (TRead now ok) t = reader_read cv now ok t"
| "tcp_step av cv (TDeliver pd) t = reader_deliver pd t"
| "tcp_step av cv TMarkAuthed t = Some (MarkAuthed t)"
| "tcp_step av cv (TRecvControl b e) t = Some (snd (RecvControlFrame b e t))"
| "tcp_step av cv (TRecvData b e) t = Some (snd (RecvDataFrame b e t))"
| "tcp_step av cv (TAcquire i f) t = send_acquire i f t"
| "tcp_step av cv (TStart ok i) t = send_start av ok i t"
| "tcp_step av cv (TWrite i) t = send_write i t"
| "tcp_step av cv TClose t = Some (close_start t)"
| "tcp_step av cv (TDrain to) t = Some (close_drain to t)"

fun tcp_run :: "(u64 \<Rightarrow> byte list) \<Rightarrow> (byte list \<Rightarrow> u64 \<times> int) \<Rightarrow> tcp_op list \<Rightarrow> tcpTransport \<Rightarrow> tcpTransport option" where
  "tcp_run av cv [] t = Some t"
| "tcp_run av cv (op # ops) t = (case tcp_step av cv op t of None \<Rightarrow> None | Some t' \<Rightarrow> tcp_run av cv ops t')"

section \<open>The receiving side\<close>

text \<open>
  Everything read is on its way to the receiver of its kind, in order; only the frame the reader had in hand when the transport was closed
  can be missing. The channels are open exactly while the reader runs, so it neither sends on a closed channel nor closes one twice.
\<close>

definition is_control :: "Frame \<Rightarrow> bool" where
  "is_control f \<longleftrightarrow> IsControlType (Type (Header_of f))"

definition recv_inv :: "(u64 \<Rightarrow> byte list) \<Rightarrow> rev list \<Rightarrow> tcpTransport \<Rightarrow> bool" where
  "recv_inv av s t \<longleftrightarrow>
    filter is_control (tt_read t) = tt_gotControl t @ gc_buf (tt_controlCh t) @ filter is_control (in_hand t @ tt_dropped t) \<and>
    filter (\<lambda>f. \<not> is_control f) (tt_read t) = tt_gotData t @ gc_buf (tt_dataCh t) @ filter (\<lambda>f. \<not> is_control f) (in_hand t @ tt_dropped t) \<and>
    length (tt_dropped t) \<le> 1 \<and> (tt_dropped t \<noteq> [] \<longrightarrow> tt_reader t = ReadExit \<and> tt_done t) \<and>
    (tt_reader t \<noteq> ReadExit \<longrightarrow> s = map RByte (concat (map (\<lambda>f. encode_frame av (Type (Header_of f)) (Payload f)) (tt_read t))) @ tt_input t) \<and>
    (\<exists>r. s = map RByte (concat (map (\<lambda>f. encode_frame av (Type (Header_of f)) (Payload f)) (tt_read t))) @ r) \<and>
    (gc_closed (tt_controlCh t) \<longleftrightarrow> tt_reader t = ReadExit) \<and> (gc_closed (tt_dataCh t) \<longleftrightarrow> tt_reader t = ReadExit) \<and>
    length (gc_buf (tt_controlCh t)) \<le> gc_cap (tt_controlCh t) \<and> length (gc_buf (tt_dataCh t)) \<le> gc_cap (tt_dataCh t) \<and>
    gc_cap (tt_controlCh t) = 16 \<and> gc_cap (tt_dataCh t) = 64"

lemma reader_exit_open:
  assumes "\<not> gc_closed (tt_controlCh t)" "\<not> gc_closed (tt_dataCh t)"
  shows "reader_exit t = Some (t\<lparr>tt_controlCh := (tt_controlCh t)\<lparr>gc_closed := True\<rparr>, tt_dataCh := (tt_dataCh t)\<lparr>gc_closed := True\<rparr>,
    tt_reader := ReadExit, tt_dropped := in_hand t\<rparr>)"
  using assms by (simp add: reader_exit_def chan_close_def)

lemma reader_read_inv:
  assumes "protowire av cv" "recv_inv av s t"
  shows "\<exists>t'. reader_read cv now ok t = Some t' \<and> recv_inv av s t'"
proof (cases "tt_reader t = ReadNext")
  case False
  then show ?thesis using assms(2) by (simp add: reader_read_def)
next
  case True
  then have o: "\<not> gc_closed (tt_controlCh t)" "\<not> gc_closed (tt_dataCh t)" using assms(2) by (auto simp: recv_inv_def)
  show ?thesis
  proof (cases "tt_connClosed t \<or> \<not> ok")
    case c: True
    then show ?thesis using True assms(2) by (auto simp: reader_read_def reader_exit_open [OF o] recv_inv_def in_hand_def Let_def)
  next
    case c: False
    obtain r s' where rd: "Read cv (tcp_limits t) (tt_input t) = (r, s')" by force
    show ?thesis
    proof (cases r)
      case (Inl e)
      then show ?thesis using True c rd assms(2) o
        by (auto simp: reader_read_def tcp_limits_def reader_exit_def chan_close_def recv_inv_def in_hand_def Let_def)
    next
      case (Inr f)
      have "tt_input t = map RByte (encode_frame av (Type (Header_of f)) (Payload f)) @ s'"
        using protowire.Read_only [OF assms(1), of "tcp_limits t" "tt_input t" f s'] rd Inr by (auto simp: frame_of_def)
      then show ?thesis using True c rd assms(2) Inr
        by (auto simp: reader_read_def tcp_limits_def recv_inv_def in_hand_def Let_def)
    qed
  qed
qed


lemma reader_deliver_inv:
  assumes "recv_inv av s t"
  shows "\<exists>t'. reader_deliver pd t = Some t' \<and> recv_inv av s t'"
proof (cases "tt_reader t")
  case (Deliver f)
  then have o: "\<not> gc_closed (tt_controlCh t)" "\<not> gc_closed (tt_dataCh t)" "tt_dropped t = []" using assms by (auto simp: recv_inv_def)
  have e: "\<exists>t'. reader_exit t = Some t' \<and> recv_inv av s t'" if "tt_done t"
    using that Deliver assms o by (simp add: reader_exit_open [OF o(1,2)] recv_inv_def in_hand_def)
  show ?thesis using Deliver assms o e
    by (auto simp: reader_deliver_def recv_inv_def in_hand_def is_control_def chan_send_def)
qed (use assms in \<open>simp_all add: reader_deliver_def\<close>)

lemma recv_inv_other:
  assumes "recv_inv av s t"
    and "tt_input t' = tt_input t" "tt_controlCh t' = tt_controlCh t" "tt_dataCh t' = tt_dataCh t" "tt_reader t' = tt_reader t"
    "tt_read t' = tt_read t" "tt_gotControl t' = tt_gotControl t" "tt_gotData t' = tt_gotData t" "tt_dropped t' = tt_dropped t"
    "tt_done t \<longrightarrow> tt_done t'"
  shows "recv_inv av s t'"
  using assms by (auto simp: recv_inv_def in_hand_def)

lemma RecvControlFrame_inv: "recv_inv av s t \<Longrightarrow> recv_inv av s (snd (RecvControlFrame b e t))"
  by (auto simp: RecvControlFrame_def select_recv_def recv_inv_def in_hand_def chan_recv_def split: list.splits)

lemma RecvDataFrame_inv: "recv_inv av s t \<Longrightarrow> recv_inv av s (snd (RecvDataFrame b e t))"
  by (auto simp: RecvDataFrame_def select_recv_def recv_inv_def in_hand_def chan_recv_def split: list.splits)

section \<open>The sending side\<close>

text \<open>
  The token is with one writer, in the semaphore, or kept by \<open>Close\<close>. What is on the wire is the frames written completely, in the order of
  the token, followed by the pieces the writer in its turn has written; a frame left incomplete is the last thing written, because then the connection
  is closed.
\<close>

definition wire_of :: "(u64 \<Rightarrow> byte list) \<Rightarrow> Frame list \<Rightarrow> byte list" where
  "wire_of av fs = concat (map (\<lambda>f. encode_frame av (Type (Header_of f)) (Payload f)) fs)"

lemma wire_of_simps [simp]: "wire_of av [] = []" "wire_of av (fs @ gs) = wire_of av fs @ wire_of av gs"
  "wire_of av [f] = encode_frame av (Type (Header_of f)) (Payload f)"
  by (simp_all add: wire_of_def)

definition torn_ok :: "(u64 \<Rightarrow> byte list) \<Rightarrow> byte list \<Rightarrow> tcpTransport \<Rightarrow> byte list \<Rightarrow> bool" where
  "torn_ok av pre t torn \<longleftrightarrow>
    w_out (tt_conn t) = pre @ wire_of av (tt_written t) @ torn \<and> (\<exists>f rest. torn @ rest = wire_of av [f]) \<and>
    (\<forall>i f ps. tt_writers t i = Writing f ps \<longrightarrow> torn @ concat ps = wire_of av [f] \<or> tt_connClosed t \<and> ps \<noteq> []) \<and>
    (\<not> tt_connClosed t \<and> (\<forall>i f ps. tt_writers t i \<noteq> Writing f ps) \<longrightarrow> torn = [])"

definition token_ok :: "tcpTransport \<Rightarrow> bool" where
  "token_ok t \<longleftrightarrow>
    gc_cap (tt_writeSem t) = 1 \<and> \<not> gc_closed (tt_writeSem t) \<and> length (gc_buf (tt_writeSem t)) \<le> 1 \<and>
    (gc_buf (tt_writeSem t) \<noteq> [] \<longrightarrow> (\<forall>i. tt_writers t i = NotWriting)) \<and>
    (\<forall>i j. tt_writers t i \<noteq> NotWriting \<and> tt_writers t j \<noteq> NotWriting \<longrightarrow> i = j)"

definition send_inv :: "(u64 \<Rightarrow> byte list) \<Rightarrow> byte list \<Rightarrow> tcpTransport \<Rightarrow> bool" where
  "send_inv av pre t \<longleftrightarrow> token_ok t \<and> (\<exists>torn. torn_ok av pre t torn)"

lemma send_inv_other:
  assumes "send_inv av pre t" "tt_writeSem t' = tt_writeSem t" "tt_writers t' = tt_writers t" "tt_conn t' = tt_conn t"
    "tt_written t' = tt_written t" "tt_connClosed t \<longrightarrow> tt_connClosed t'"
  shows "send_inv av pre t'"
proof -
  obtain torn where "torn_ok av pre t torn" using assms(1) by (auto simp: send_inv_def)
  then have "torn_ok av pre t' torn" unfolding torn_ok_def assms(2-5) using assms(6) by blast
  moreover have "token_ok t'" using assms(1) unfolding send_inv_def token_ok_def assms(2-5) by blast
  ultimately show ?thesis by (auto simp: send_inv_def)
qed

lemma only_writer: "token_ok t \<Longrightarrow> tt_writers t i \<noteq> NotWriting \<Longrightarrow> j \<noteq> i \<Longrightarrow> tt_writers t j = NotWriting"
  unfolding token_ok_def by blast

text \<open>The holder of the token can always give it back.\<close>

lemma send_return_ok:
  assumes "token_ok t" "tt_writers t i \<noteq> NotWriting"
  shows "\<exists>c. send_return i t = Some (t\<lparr>tt_writeSem := c, tt_writers := (\<lambda>_. NotWriting)\<rparr>) \<and>
    token_ok (t\<lparr>tt_writeSem := c, tt_writers := (\<lambda>_. NotWriting)\<rparr>)"
proof -
  have "gc_buf (tt_writeSem t) = []" using assms by (auto simp: token_ok_def)
  moreover have "(tt_writers t)(i := NotWriting) = (\<lambda>_. NotWriting)" using only_writer [OF assms] by (auto simp: fun_eq_iff)
  ultimately show ?thesis using assms
    by (intro exI [of _ "(tt_writeSem t)\<lparr>gc_buf := [()]\<rparr>"]) (simp add: send_return_def chan_send_def token_ok_def)
qed

lemma send_acquire_inv:
  assumes "send_inv av pre t"
  shows "\<exists>t'. send_acquire i f t = Some t' \<and> send_inv av pre t'"
proof (cases "gc_buf (tt_writeSem t)")
  case (Cons u us)
  then have "\<forall>j. tt_writers t j = NotWriting" "us = []" using assms by (auto simp: send_inv_def token_ok_def)
  then show ?thesis using assms Cons
    by (auto simp: send_acquire_def chan_recv_def send_inv_def token_ok_def torn_ok_def)
qed (use assms in \<open>simp add: send_acquire_def chan_recv_def\<close>)

lemma send_start_inv:
  assumes "send_inv av pre t"
  shows "\<exists>t'. send_start av ok i t = Some t' \<and> send_inv av pre t'"
proof (cases "tt_writers t i")
  case (HasToken f)
  then have o: "tt_writers t j = NotWriting" if "j \<noteq> i" for j using assms that only_writer [of t i j] by (simp add: send_inv_def)
  have tok: "token_ok t" using assms by (simp add: send_inv_def)
  obtain torn where torn: "torn_ok av pre t torn" using assms by (auto simp: send_inv_def)
  have nw: "tt_writers t j \<noteq> Writing g ps" for j g ps using o HasToken by (cases "j = i") auto
  have n: "tt_writers t i \<noteq> NotWriting" using HasToken by simp
  obtain c where r: "send_return i t = Some (t\<lparr>tt_writeSem := c, tt_writers := (\<lambda>_. NotWriting)\<rparr>)"
      "token_ok (t\<lparr>tt_writeSem := c, tt_writers := (\<lambda>_. NotWriting)\<rparr>)"
    using send_return_ok [OF tok n] by blast
  have t2: "token_ok (t\<lparr>tt_connClosed := True\<rparr>)" "tt_writers (t\<lparr>tt_connClosed := True\<rparr>) i \<noteq> NotWriting"
    using tok n by (simp_all add: token_ok_def)
  obtain d where r2: "send_return i (t\<lparr>tt_connClosed := True\<rparr>) =
      Some (t\<lparr>tt_connClosed := True, tt_writeSem := d, tt_writers := (\<lambda>_. NotWriting)\<rparr>)"
      "token_ok (t\<lparr>tt_connClosed := True, tt_writeSem := d, tt_writers := (\<lambda>_. NotWriting)\<rparr>)"
    using send_return_ok [OF t2] by auto
  have "token_ok (t\<lparr>tt_writers := (tt_writers t)(i := Writing f ps)\<rparr>)" for ps
    using tok HasToken o by (auto simp: token_ok_def)
  then show ?thesis
    using HasToken r r2 torn nw o
    by (auto simp: send_start_def send_inv_def torn_ok_def concat_frame_pieces frame_pieces_def encode_frame_def)
qed (use assms in \<open>simp_all add: send_start_def\<close>)


lemma send_write_inv:
  assumes "send_inv av pre t"
  shows "\<exists>t'. send_write i t = Some t' \<and> send_inv av pre t'"
proof (cases "tt_writers t i")
  case (Writing f ps)
  have tok: "token_ok t" and n: "tt_writers t i \<noteq> NotWriting" using assms Writing by (simp_all add: send_inv_def)
  obtain torn where torn: "torn_ok av pre t torn" using assms by (auto simp: send_inv_def)
  have o: "tt_writers t j = NotWriting" if "j \<noteq> i" for j using only_writer [OF tok n that] .
  have own: "torn @ concat ps = wire_of av [f] \<or> tt_connClosed t \<and> ps \<noteq> []" using torn Writing unfolding torn_ok_def by blast
  have ret: "\<exists>t'. send_return i u = Some t' \<and> send_inv av pre t'"
    if u: "tt_writeSem u = tt_writeSem t" "tt_writers u = tt_writers t"
      and w: "\<exists>torn. w_out (tt_conn u) = pre @ wire_of av (tt_written u) @ torn \<and> (\<exists>f rest. torn @ rest = wire_of av [f]) \<and>
        (\<not> tt_connClosed u \<longrightarrow> torn = [])" for u
  proof -
    have "token_ok u" "tt_writers u i \<noteq> NotWriting" using tok n u by (simp_all add: token_ok_def)
    from send_return_ok [OF this] w show ?thesis by (auto simp: send_inv_def torn_ok_def)
  qed
  show ?thesis
  proof (cases ps)
    case Nil
    then have "torn = wire_of av [f]" using own by simp
    then show ?thesis using Nil Writing torn ret [of "t\<lparr>tt_written := tt_written t @ [f]\<rparr>"]
      by (simp add: send_write_def torn_ok_def)
  next
    case (Cons p ps')
    show ?thesis
    proof (cases "tt_connClosed t")
      case True
      then show ?thesis using Cons Writing torn ret [of t] by (auto simp: send_write_def torn_ok_def)
    next
      case False
      then have eq: "torn @ p @ concat ps' = wire_of av [f]" using own Cons by simp
      obtain e w where wf: "writeFull p (tt_conn t) = (e, w)" by force
      obtain x y where xy: "p = x @ y" "w_out w = w_out (tt_conn t) @ x" "e = None \<Longrightarrow> y = []" using writeFull_cases [OF wf] by blast
      show ?thesis
      proof (cases e)
        case None
        have "token_ok (t\<lparr>tt_conn := w, tt_writers := (tt_writers t)(i := Writing f ps')\<rparr>)"
          using tok Writing o by (auto simp: token_ok_def)
        moreover have "torn_ok av pre (t\<lparr>tt_conn := w, tt_writers := (tt_writers t)(i := Writing f ps')\<rparr>) (torn @ p)"
          using torn xy None eq o False unfolding torn_ok_def by (auto intro: exI [of _ "concat ps'"] exI [of _ f])
        ultimately show ?thesis using None wf Cons Writing False by (auto simp: send_write_def send_inv_def)
      next
        case (Some err)
        have "\<exists>torn. w_out w = pre @ wire_of av (tt_written t) @ torn \<and> (\<exists>f rest. torn @ rest = wire_of av [f])"
          using torn xy eq unfolding torn_ok_def by (intro exI [of _ "torn @ x"]) (auto intro: exI [of _ f])
        then show ?thesis using Some wf Cons Writing False ret [of "t\<lparr>tt_conn := w, tt_connClosed := True\<rparr>"]
          by (simp add: send_write_def)
      qed
    qed
  qed
qed (use assms in \<open>simp_all add: send_write_def\<close>)

lemma close_drain_inv:
  assumes "send_inv av pre t"
  shows "send_inv av pre (close_drain to t)"
proof (cases "gc_buf (tt_writeSem t)")
  case Nil
  then show ?thesis using assms by (auto simp: close_drain_def chan_recv_def intro: send_inv_other)
next
  case (Cons u us)
  then have "\<forall>j. tt_writers t j = NotWriting" "us = []" using assms by (auto simp: send_inv_def token_ok_def)
  then show ?thesis using assms Cons
    by (auto simp: close_drain_def chan_recv_def send_inv_def token_ok_def torn_ok_def)
qed


text \<open>The reading half leaves the writer alone, and the writing half the reader.\<close>

lemma reader_keeps_send:
  assumes "send_inv av pre t"
  shows "reader_read cv now ok t = Some t' \<Longrightarrow> send_inv av pre t'"
    and "reader_deliver pd t = Some t' \<Longrightarrow> send_inv av pre t'"
    and "send_inv av pre (close_start t)" and "send_inv av pre (MarkAuthed t)"
    and "send_inv av pre (snd (RecvControlFrame b e t))" and "send_inv av pre (snd (RecvDataFrame b e t))"
  by (rule send_inv_other [OF assms]; auto simp: reader_read_def reader_deliver_def reader_exit_def close_start_def MarkAuthed_def
      RecvControlFrame_def RecvDataFrame_def Let_def split: if_splits prod.splits sum.splits option.splits send_result.splits recv_result.splits
      tcp_reader.splits)+

lemma writer_keeps_recv:
  assumes "recv_inv av s t"
  shows "send_acquire i f t = Some t' \<Longrightarrow> recv_inv av s t'" and "send_start av ok i t = Some t' \<Longrightarrow> recv_inv av s t'"
    and "send_write i t = Some t' \<Longrightarrow> recv_inv av s t'"
    and "recv_inv av s (close_drain to t)" and "recv_inv av s (close_start t)" and "recv_inv av s (MarkAuthed t)"
  by (rule recv_inv_other [OF assms]; auto simp: send_acquire_def send_start_def send_write_def send_return_def close_drain_def close_start_def
      MarkAuthed_def split: if_splits recv_result.splits send_result.splits tcp_writer.splits list.splits prod.splits option.splits)+

lemma tcp_step_inv:
  assumes "protowire av cv" "recv_inv av s t" "send_inv av pre t"
  shows "\<exists>t'. tcp_step av cv op t = Some t' \<and> recv_inv av s t' \<and> send_inv av pre t'"
proof -
  note keep = reader_keeps_send [OF assms(3)] writer_keeps_recv [OF assms(2)]
  show ?thesis
  proof (cases op)
    case (TRead now ok)
    then show ?thesis using reader_read_inv [OF assms(1,2)] keep by fastforce
  next
    case (TDeliver pd)
    then show ?thesis using reader_deliver_inv [OF assms(2)] keep by fastforce
  next
    case (TAcquire i f)
    then show ?thesis using send_acquire_inv [OF assms(3)] keep by fastforce
  next
    case (TStart ok i)
    then show ?thesis using send_start_inv [OF assms(3)] keep by fastforce
  next
    case (TWrite i)
    then show ?thesis using send_write_inv [OF assms(3)] keep by fastforce
  qed (use keep close_drain_inv [OF assms(3)] RecvControlFrame_inv [OF assms(2)] RecvDataFrame_inv [OF assms(2)] in simp_all)
qed

lemma tcp_run_inv:
  assumes "protowire av cv" "recv_inv av s t" "send_inv av pre t"
  shows "\<exists>t'. tcp_run av cv ops t = Some t' \<and> recv_inv av s t' \<and> send_inv av pre t'"
  using assms(2,3)
proof (induction ops arbitrary: t)
  case (Cons op ops)
  then show ?case using tcp_step_inv [OF assms(1) Cons.prems, of op] by fastforce
qed simp

lemma tcp_new_inv: "recv_inv av s (newTCPTransport s w lim)" "send_inv av (w_out w) (newTCPTransport s w lim)"
  by (auto simp: newTCPTransport_def recv_inv_def in_hand_def send_inv_def token_ok_def torn_ok_def intro: exI [of _ "wire_of _ [_]"])

section \<open>Properties\<close>

text \<open>
  C16. The TCP transport takes the peer's stream apart exactly. Whatever the interleaving of the read loop, the two receivers, the senders
  and \<open>Close\<close>, nothing panics or blocks on the wrong channel; the peer's bytes begin with the frames that were read, and the control loop has
  received a prefix of the control frames among them, the data loop a prefix of the data frames, each in order and without gaps. What is
  missing is at most in the bounded channels, in the reader's hand, or the single frame it gave up because the transport was closed.
\<close>

theorem tcp_demultiplexes:
  assumes "protowire av cv"
  shows "\<exists>t rest missing. tcp_run av cv ops (newTCPTransport s w lim) = Some t \<and>
    s = map RByte (wire_of av (tt_read t)) @ rest \<and>
    filter is_control (tt_read t) = tt_gotControl t @ gc_buf (tt_controlCh t) @ filter is_control missing \<and>
    filter (\<lambda>f. \<not> is_control f) (tt_read t) = tt_gotData t @ gc_buf (tt_dataCh t) @ filter (\<lambda>f. \<not> is_control f) missing \<and>
    length (gc_buf (tt_controlCh t)) \<le> 16 \<and> length (gc_buf (tt_dataCh t)) \<le> 64 \<and> length missing \<le> 1 \<and>
    (missing \<noteq> [] \<longrightarrow> tt_done t \<or> tt_reader t = Deliver (hd missing))"
proof -
  obtain t where t: "tcp_run av cv ops (newTCPTransport s w lim) = Some t" and i: "recv_inv av s t"
    using tcp_run_inv [OF assms tcp_new_inv] by blast
  let ?m = "in_hand t @ tt_dropped t"
  obtain r where r: "s = map RByte (wire_of av (tt_read t)) @ r" using i unfolding recv_inv_def wire_of_def by blast
  have "length ?m \<le> 1 \<and> (?m \<noteq> [] \<longrightarrow> tt_done t \<or> tt_reader t = Deliver (hd ?m))"
    using i unfolding recv_inv_def in_hand_def by (cases "tt_reader t") auto
  then show ?thesis using t i r unfolding recv_inv_def by (intro exI [of _ t] exI [of _ r] exI [of _ ?m] conjI) simp_all
qed

text \<open>
  C17. Frames never mix on the wire. Whatever number of goroutines send at once, in any interleaving of their partial writes with each other,
  with failing or short writes and with \<open>Close\<close>, what the connection was given is a sequence of whole frames in the order in which the
  senders held the token, then at most one incomplete frame; and if no sender is in the middle of a frame, an incomplete one is there only if the
  connection has been closed, so nothing can follow it. At most one sender holds the token, and giving it back never blocks.
\<close>

theorem tcp_writes_whole_frames:
  assumes "protowire av cv"
  shows "\<exists>t f torn rest. tcp_run av cv ops (newTCPTransport s w lim) = Some t \<and>
    w_out (tt_conn t) = w_out w @ wire_of av (tt_written t) @ torn \<and> torn @ rest = wire_of av [f] \<and>
    (\<not> tt_connClosed t \<and> (\<forall>i g ps. tt_writers t i \<noteq> Writing g ps) \<longrightarrow> torn = []) \<and>
    (\<forall>i j. tt_writers t i \<noteq> NotWriting \<and> tt_writers t j \<noteq> NotWriting \<longrightarrow> i = j)"
proof -
  obtain t where t: "tcp_run av cv ops (newTCPTransport s w lim) = Some t" and i: "send_inv av (w_out w) t"
    using tcp_run_inv [OF assms tcp_new_inv] by blast
  then obtain torn where "torn_ok av (w_out w) t torn" "token_ok t" by (auto simp: send_inv_def)
  then show ?thesis using t unfolding torn_ok_def token_ok_def by blast
qed

text \<open>A run of the reader: a PING and the beginning of a BATCH arrive, and the control loop takes the PING.\<close>

definition demo_stream :: "rev list" where
  "demo_stream = map RByte (encode_frame base128_append TypePing []) @ map RByte [TypeBatch, 0]"

theorem tcp_demultiplexes_witness:
  "\<exists>t. tcp_run base128_append base128_consume [TRead 0 True, TDeliver False, TRecvControl False None]
       (newTCPTransport demo_stream \<lparr>w_out = [], w_ans = []\<rparr> 0) = Some t \<and>
     tt_gotControl t = [frame_of TypePing []] \<and> (\<exists>rest. demo_stream = map RByte (wire_of base128_append [frame_of TypePing []]) @ rest)"
proof -
  let ?ops = "[TRead 0 True, TDeliver False, TRecvControl False None]" and ?t0 = "newTCPTransport demo_stream \<lparr>w_out = [], w_ans = []\<rparr> 0"
  have "Read base128_consume (tcp_limits ?t0) demo_stream = (Inr (frame_of TypePing []), map RByte [TypeBatch, 0])"
    unfolding demo_stream_def by (rule protowire.Read_frame [OF varint.protowire_axioms]) simp
  then have "\<exists>t. tcp_run base128_append base128_consume ?ops ?t0 = Some t \<and>
      tt_gotControl t = [frame_of TypePing []] \<and> tt_read t = [frame_of TypePing []]"
    by (simp add: reader_read_def reader_deliver_def RecvControlFrame_def select_recv_def newTCPTransport_def tcp_limits_def Let_def chan_send_def
        chan_recv_def frame_of_def IsControlType_def TypePing_def)
  with tcp_demultiplexes [OF varint.protowire_axioms, of ?ops demo_stream "\<lparr>w_out = [], w_ans = []\<rparr>" 0]
  show ?thesis by force
qed

text \<open>A run of the senders: the second one asks for the token while the first is writing, and the write of its payload fails half way.\<close>

theorem tcp_writes_whole_frames_witness:
  "\<exists>t f rest. tcp_run base128_append base128_consume
       [TAcquire 0 (frame_of TypePong [9, 8]), TStart True 0, TWrite 0, TAcquire 1 (frame_of TypePing []), TWrite 0, TWrite 0]
       (newTCPTransport [] \<lparr>w_out = [], w_ans = [WAll, WAll, WFail 1 ''reset'']\<rparr> 0) = Some t \<and>
     tt_connClosed t \<and> w_out (tt_conn t) = [TypePong, 0, 2, 9] \<and> [TypePong, 0, 2, 9] @ rest = wire_of base128_append [f]"
proof -
  let ?ops = "[TAcquire 0 (frame_of TypePong [9, 8]), TStart True 0, TWrite 0, TAcquire 1 (frame_of TypePing []), TWrite 0, TWrite 0]"
    and ?w = "\<lparr>w_out = [], w_ans = [WAll, WAll, WFail 1 ''reset'']\<rparr>"
  have "base128_append 2 = [2]" by (simp add: base128_append_def base128.simps)
  then obtain t where t: "tcp_run base128_append base128_consume ?ops (newTCPTransport [] ?w 0) = Some t" "tt_written t = []"
      "tt_connClosed t" "w_out (tt_conn t) = [TypePong, 0, 2, 9]"
    by (simp add: send_acquire_def send_start_def send_write_def send_return_def newTCPTransport_def chan_send_def
        chan_recv_def frame_of_def frame_pieces_def len64_def writeFull_def io_Write_def)
  obtain f torn rest where "w_out (tt_conn t) = w_out ?w @ wire_of base128_append (tt_written t) @ torn" "torn @ rest = wire_of base128_append [f]"
    using tcp_writes_whole_frames [OF varint.protowire_axioms, of ?ops "[]" ?w 0] t(1) by auto
  then show ?thesis using t by auto
qed

end
