(* ===== verification/NtlsClientTransport.thy ===== *)
theory NtlsClientTransport
  imports TcpTransport
begin

text \<open>
  The client's transport over one TCP connection, \<open>ntlsClientTransport\<close> of \<open>ntls/client.go\<close>. It serialises its writers with the same
  semaphore as the server's, but marks itself closed first and then no longer returns the token, and it does not close the connection
  when a write fails. Both differences have consequences, shown at the end.
\<close>

record ntlsClientTransport =
  nt_frameLimit :: u64
  nt_conn :: Writer
  nt_connClosed :: bool
  nt_writeSem :: "unit gochan"
  nt_closed :: bool
  nt_writers :: "nat \<Rightarrow> tcp_writer"
  nt_closer :: tcp_closer
  nt_written :: "Frame list"

definition newNTLSClientTransport :: "Writer \<Rightarrow> ntlsClientTransport" where
  "newNTLSClientTransport w =
    \<lparr>nt_frameLimit = 0, nt_conn = w, nt_connClosed = False, nt_writeSem = \<lparr>gc_cap = 1, gc_buf = [()], gc_closed = False\<rparr>,
     nt_closed = False, nt_writers = (\<lambda>_. NotWriting), nt_closer = CloseIdle, nt_written = []\<rparr>"

definition SetFrameLimit :: "u64 \<Rightarrow> ntlsClientTransport \<Rightarrow> ntlsClientTransport" where
  "SetFrameLimit n t = t\<lparr>nt_frameLimit := n\<rparr>"

definition ntls_ReadFrame :: "(byte list \<Rightarrow> u64 \<times> int) \<Rightarrow> Ctx \<Rightarrow> time \<Rightarrow> go_err option \<Rightarrow> time option \<Rightarrow> ntlsClientTransport \<Rightarrow> rev list
    \<Rightarrow> Frame res \<times> time option list \<times> rev list" where
  "ntls_ReadFrame cv ctx now setErr fired t s =
    (if nt_frameLimit t = 0 then ReadFrameCtx cv ctx now setErr fired s
     else ReadFrameCtxLimit cv ctx now setErr fired \<lparr>fl_MaxFrameBytes = nt_frameLimit t\<rparr> s)"

text \<open>\<open>WriteFrame\<close>: take the token; leave with an error when closed or the deadline cannot be set; write; give the token back unless closed.\<close>

definition write_acquire :: "nat \<Rightarrow> Frame \<Rightarrow> ntlsClientTransport \<Rightarrow> ntlsClientTransport" where
  "write_acquire i f t =
    (if nt_writers t i \<noteq> NotWriting then t
     else case chan_recv (nt_writeSem t) of
       Got _ c \<Rightarrow> t\<lparr>nt_writeSem := c, nt_writers := (nt_writers t)(i := HasToken f)\<rparr>
     | _ \<Rightarrow> t)"

definition write_return :: "nat \<Rightarrow> ntlsClientTransport \<Rightarrow> ntlsClientTransport option" where
  "write_return i t =
    (let t = t\<lparr>nt_writers := (nt_writers t)(i := NotWriting)\<rparr> in
     if nt_closed t then Some t
     else case chan_send () (nt_writeSem t) of Sent c \<Rightarrow> Some (t\<lparr>nt_writeSem := c\<rparr>) | _ \<Rightarrow> None)"

definition write_start :: "(u64 \<Rightarrow> byte list) \<Rightarrow> bool \<Rightarrow> nat \<Rightarrow> ntlsClientTransport \<Rightarrow> ntlsClientTransport option" where
  "write_start av deadlineOk i t =
    (case nt_writers t i of
       HasToken f \<Rightarrow>
         if nt_closed t \<or> \<not> deadlineOk \<or> MaxFrameBytes < len64 (Payload f) then write_return i t
         else Some (t\<lparr>nt_writers := (nt_writers t)(i := Writing f (frame_pieces av (Type (Header_of f)) (Payload f)))\<rparr>)
     | _ \<Rightarrow> Some t)"

definition write_piece :: "nat \<Rightarrow> ntlsClientTransport \<Rightarrow> ntlsClientTransport option" where
  "write_piece i t =
    (case nt_writers t i of
       Writing f [] \<Rightarrow> write_return i (t\<lparr>nt_written := nt_written t @ [f]\<rparr>)
     | Writing f (p # ps) \<Rightarrow>
         if nt_connClosed t then write_return i t
         else
           (case writeFull p (nt_conn t) of
              (Some _, w) \<Rightarrow> write_return i (t\<lparr>nt_conn := w\<rparr>)
            | (None, w) \<Rightarrow> Some (t\<lparr>nt_conn := w, nt_writers := (nt_writers t)(i := Writing f ps)\<rparr>))
     | _ \<Rightarrow> Some t)"

text \<open>\<open>CloseConn\<close>: only the first call waits for the token.\<close>

definition closeconn_start :: "ntlsClientTransport \<Rightarrow> ntlsClientTransport" where
  "closeconn_start t = (if nt_closed t then t\<lparr>nt_connClosed := True\<rparr> else t\<lparr>nt_closed := True, nt_closer := CloseDrains\<rparr>)"

definition closeconn_drain :: "bool \<Rightarrow> ntlsClientTransport \<Rightarrow> ntlsClientTransport" where
  "closeconn_drain timedOut t =
    (if nt_closer t \<noteq> CloseDrains then t
     else if timedOut then t\<lparr>nt_connClosed := True, nt_closer := CloseDone\<rparr>
     else case chan_recv (nt_writeSem t) of
       Got _ c \<Rightarrow> t\<lparr>nt_writeSem := c, nt_connClosed := True, nt_closer := CloseDone\<rparr>
     | _ \<Rightarrow> t)"

datatype ntls_op = NAcquire nat Frame | NStart bool nat | NWrite nat | NClose | NDrain bool | NLimit u64

fun ntls_step :: "(u64 \<Rightarrow> byte list) \<Rightarrow> ntls_op \<Rightarrow> ntlsClientTransport \<Rightarrow> ntlsClientTransport option" where
  "ntls_step av (NAcquire i f) t = Some (write_acquire i f t)"
| "ntls_step av (NStart ok i) t = write_start av ok i t"
| "ntls_step av (NWrite i) t = write_piece i t"
| "ntls_step av NClose t = Some (closeconn_start t)"
| "ntls_step av (NDrain to) t = Some (closeconn_drain to t)"
| "ntls_step av (NLimit n) t = Some (SetFrameLimit n t)"

fun ntls_run :: "(u64 \<Rightarrow> byte list) \<Rightarrow> ntls_op list \<Rightarrow> ntlsClientTransport \<Rightarrow> ntlsClientTransport option" where
  "ntls_run av [] t = Some t"
| "ntls_run av (op # ops) t = (case ntls_step av op t of None \<Rightarrow> None | Some t' \<Rightarrow> ntls_run av ops t')"

section \<open>One writer at a time\<close>

definition ntls_token :: "ntlsClientTransport \<Rightarrow> bool" where
  "ntls_token t \<longleftrightarrow>
    gc_cap (nt_writeSem t) = 1 \<and> \<not> gc_closed (nt_writeSem t) \<and> length (gc_buf (nt_writeSem t)) \<le> 1 \<and>
    (gc_buf (nt_writeSem t) \<noteq> [] \<longrightarrow> (\<forall>i. nt_writers t i = NotWriting)) \<and>
    (\<forall>i j. nt_writers t i \<noteq> NotWriting \<and> nt_writers t j \<noteq> NotWriting \<longrightarrow> i = j)"

lemma write_return_token:
  assumes "ntls_token t" "nt_writers t i \<noteq> NotWriting"
  shows "\<exists>t'. write_return i t = Some t' \<and> ntls_token t'"
proof -
  have "gc_buf (nt_writeSem t) = []" "\<And>j. j \<noteq> i \<Longrightarrow> nt_writers t j = NotWriting" using assms unfolding ntls_token_def by blast+
  then show ?thesis using assms(1) by (auto simp: write_return_def ntls_token_def chan_send_def Let_def)
qed

lemma ntls_token_cong: "ntls_token t \<Longrightarrow> nt_writeSem t' = nt_writeSem t \<Longrightarrow> nt_writers t' = nt_writers t \<Longrightarrow> ntls_token t'"
  by (simp add: ntls_token_def)

lemma ntls_token_swap:
  assumes "ntls_token t" "nt_writers t i \<noteq> NotWriting"
  shows "ntls_token (t\<lparr>nt_writers := (nt_writers t)(i := w)\<rparr>)"
proof -
  have "gc_buf (nt_writeSem t) = []" "\<And>j. j \<noteq> i \<Longrightarrow> nt_writers t j = NotWriting" using assms unfolding ntls_token_def by blast+
  then show ?thesis using assms(1) by (simp add: ntls_token_def)
qed

lemma ntls_step_token:
  assumes "ntls_token t"
  shows "\<exists>t'. ntls_step av op t = Some t' \<and> ntls_token t'"
proof (cases op)
    case (NAcquire i f)
    then show ?thesis using assms by (auto simp: write_acquire_def ntls_token_def chan_recv_def split: list.splits)
  next
    case (NStart ok i)
    then show ?thesis
      using assms write_return_token [OF assms, of i] ntls_token_swap [OF assms, of i] by (cases "nt_writers t i") (auto simp: write_start_def)
  next
    case (NWrite i)
    show ?thesis
    proof (cases "nt_writers t i")
      case (Writing f ps)
      have r: "\<exists>t'. write_return i u = Some t' \<and> ntls_token t'" if "nt_writeSem u = nt_writeSem t" "nt_writers u = nt_writers t" for u
        using write_return_token [of u i] ntls_token_cong [OF assms that] that Writing by simp
      have w: "ntls_token (t\<lparr>nt_conn := c, nt_writers := (nt_writers t)(i := w)\<rparr>)" for c w
        by (rule ntls_token_cong [OF ntls_token_swap [OF assms, of i w]]) (simp_all add: Writing)
      show ?thesis
      proof (cases ps)
        case Nil
        then show ?thesis using NWrite Writing r [of "t\<lparr>nt_written := nt_written t @ [f]\<rparr>"] by (simp add: write_piece_def)
      next
        case (Cons p ps')
        obtain e c where "writeFull p (nt_conn t) = (e, c)" by force
        then show ?thesis using NWrite Writing Cons r [of t] r [of "t\<lparr>nt_conn := c\<rparr>"] w
          by (cases e) (simp_all add: write_piece_def)
      qed
    qed (use NWrite assms in \<open>simp_all add: write_piece_def\<close>)
  next
    case (NDrain to)
    then show ?thesis using assms by (auto simp: closeconn_drain_def ntls_token_def chan_recv_def split: list.splits)
  qed (use assms in \<open>auto simp: closeconn_start_def SetFrameLimit_def ntls_token_def\<close>)


text \<open>In every interleaving at most one call writes, and giving the token back never blocks.\<close>

lemma ntls_one_writer:
  shows "\<exists>t. ntls_run av ops (newNTLSClientTransport w) = Some t \<and>
    (\<forall>i j. nt_writers t i \<noteq> NotWriting \<and> nt_writers t j \<noteq> NotWriting \<longrightarrow> i = j)"
proof -
  have "ntls_token t \<Longrightarrow> \<exists>t'. ntls_run av ops t = Some t' \<and> ntls_token t'" for t
  proof (induction ops arbitrary: t)
    case (Cons op ops)
    then show ?case using ntls_step_token [OF Cons.prems, of av op] by fastforce
  qed simp
  moreover have "ntls_token (newNTLSClientTransport w)" by (simp add: ntls_token_def newNTLSClientTransport_def)
  ultimately show ?thesis unfolding ntls_token_def by blast
qed

section \<open>Closing during a write\<close>

lemma ntls_step_stuck:
  assumes "nt_closed t" "nt_closer t = CloseDrains" "gc_buf (nt_writeSem t) = []" "op \<noteq> NDrain True" "ntls_step av op t = Some t'"
  shows "nt_closed t' \<and> nt_closer t' = CloseDrains \<and> gc_buf (nt_writeSem t') = []"
  using assms
  by (cases op) (auto simp: write_acquire_def write_start_def write_piece_def write_return_def closeconn_start_def closeconn_drain_def
      SetFrameLimit_def chan_recv_def Let_def split: if_splits tcp_writer.splits list.splits prod.splits option.splits)

text \<open>
  A \<open>CloseConn\<close> that finds a write in progress does not end with that write. It sets the closed flag before it waits for the token, and a
  writer that sees the flag keeps the token; so in every continuation without the expiry of the five seconds it goes on waiting, whether or
  not the write has long finished.
\<close>

theorem closeconn_waits_for_timeout:
  assumes "gc_buf (nt_writeSem t) = []" "\<not> nt_closed t" "NDrain True \<notin> set ops" "ntls_run av ops (closeconn_start t) = Some t'"
  shows "nt_closer t' = CloseDrains"
proof -
  have "nt_closer t' = CloseDrains"
    if "nt_closed u" "nt_closer u = CloseDrains" "gc_buf (nt_writeSem u) = []" "NDrain True \<notin> set ops" "ntls_run av ops u = Some t'" for u
    using that
  proof (induction ops arbitrary: u)
    case (Cons op ops)
    then obtain v where v: "ntls_step av op u = Some v" "ntls_run av ops v = Some t'" by (auto split: option.splits)
    have "op \<noteq> NDrain True" using Cons.prems by auto
    from ntls_step_stuck [OF Cons.prems(1-3) this v(1)] v(2) Cons.IH [of v] Cons.prems(4) show ?case by simp
  qed simp
  from this [of "closeconn_start t"] show ?thesis using assms by (simp add: closeconn_start_def)
qed

text \<open>The write completes, and the close still waits.\<close>

theorem closeconn_waits_for_timeout_witness:
  "(case ntls_run base128_append [NAcquire 0 (frame_of TypePing [])] (newNTLSClientTransport \<lparr>w_out = [], w_ans = []\<rparr>) of
     None \<Rightarrow> False
   | Some t \<Rightarrow> (case ntls_run base128_append [NStart True 0, NDrain False] (closeconn_start t) of
       None \<Rightarrow> False | Some t' \<Rightarrow> nt_writers t' 0 = NotWriting \<and> nt_closer t' = CloseDrains))"
proof -
  let ?t0 = "newNTLSClientTransport \<lparr>w_out = [], w_ans = []\<rparr>"
  obtain t where t: "ntls_run base128_append [NAcquire 0 (frame_of TypePing [])] ?t0 = Some t"
      "gc_buf (nt_writeSem t) = []" "\<not> nt_closed t" "nt_writers t 0 = HasToken (frame_of TypePing [])"
    by (simp add: newNTLSClientTransport_def write_acquire_def chan_recv_def)
  obtain t' where t': "ntls_run base128_append [NStart True 0, NDrain False] (closeconn_start t) = Some t'" "nt_writers t' 0 = NotWriting"
    using t(2-4) by (simp add: closeconn_start_def write_start_def write_return_def closeconn_drain_def chan_recv_def Let_def)
  with t(1) closeconn_waits_for_timeout [OF t(2,3) _ t'(1)] show ?thesis by simp
qed

section \<open>Writing after a failed write\<close>

text \<open>
  A write that fails in the middle of a frame leaves the connection open, and the next frame follows the torn one. Here a BATCH breaks
  off after its first payload byte and a PING is sent next; the peer then reads a BATCH that nobody sent, made of the torn frame and the
  beginning of the PING.
\<close>

theorem torn_frame_is_followed:
  "\<exists>t. ntls_run base128_append
      [NAcquire 0 (frame_of TypeBatch [9, 8]), NStart True 0, NWrite 0, NWrite 0, NWrite 0,
       NAcquire 0 (frame_of TypePing []), NStart True 0, NWrite 0, NWrite 0, NWrite 0]
      (newNTLSClientTransport \<lparr>w_out = [], w_ans = [WAll, WAll, WFail 1 ''timeout'']\<rparr>) = Some t \<and>
    nt_written t = [frame_of TypePing []] \<and>
    Read base128_consume DefaultLimits (map RByte (w_out (nt_conn t))) = (Inr (frame_of TypeBatch [9, TypePing]), [RByte 0, RByte 0])"
proof -
  have b: "base128_append 2 = [2]" "base128_append 0 = [0]" by (simp_all add: base128_append_def base128.simps)
  obtain t where t: "ntls_run base128_append
      [NAcquire 0 (frame_of TypeBatch [9, 8]), NStart True 0, NWrite 0, NWrite 0, NWrite 0,
       NAcquire 0 (frame_of TypePing []), NStart True 0, NWrite 0, NWrite 0, NWrite 0]
      (newNTLSClientTransport \<lparr>w_out = [], w_ans = [WAll, WAll, WFail 1 ''timeout'']\<rparr>) = Some t"
      "nt_written t = [frame_of TypePing []]" "w_out (nt_conn t) = [TypeBatch, 0, 2, 9, TypePing, 0, 0]"
    by (simp add: b newNTLSClientTransport_def write_acquire_def write_start_def write_piece_def write_return_def chan_recv_def chan_send_def
        frame_of_def frame_pieces_def len64_def writeFull_def io_Write_def Let_def)
  have "map RByte (w_out (nt_conn t)) = map RByte (encode_frame base128_append TypeBatch [9, TypePing]) @ [RByte 0, RByte 0]"
    using t(3) b by (simp add: encode_frame_def len64_def)
  then have "Read base128_consume DefaultLimits (map RByte (w_out (nt_conn t))) = (Inr (frame_of TypeBatch [9, TypePing]), [RByte 0, RByte 0])"
    using protowire.Read_frame [OF varint.protowire_axioms, of "[9, TypePing]" DefaultLimits TypeBatch "[RByte 0, RByte 0]"]
    by (simp add: read_max_def DefaultLimits_def)
  then show ?thesis using t by blast
qed

end
