(* ===== verification/Connect.thy ===== *)
theory Connect
  imports QuicTransport NtlsClientTransport Client
begin

text \<open>
  How a client connects: \<open>Connect\<close> of \<open>v1/client.go\<close> and \<open>ntls/client.go\<close> over \<open>Handshake\<close> of \<open>internal/binding/client.go\<close>. Any number of
  calls of \<open>Connect\<close> run at once, with calls of \<open>Close\<close> and the failure of a running session between their steps. The parts that differ
  between the bindings are the functions they pass to \<open>binding.Handshake\<close>; the locale \<open>connector\<close> says what both promise, and what
  follows is proved once.
\<close>

section \<open>State\<close>

text \<open>Where a call of \<open>Connect\<close> is; the connection it dialled, once stored in the client, is \<open>cc_conn\<close>.\<close>

datatype connect_pc =
    CCheck | CDial | CGuard nat | CSetup | CShake | CPostAuth | CStart
  | CFail go_err              \<comment> \<open>before the deferred \<open>cc.Close\<close>\<close>
  | CClean go_err             \<comment> \<open>before the clean-up of \<open>Connect\<close>\<close>
  | CReturned "go_err option"

record connect_call =
  cc_pc :: connect_pc
  cc_conn :: "nat option"

text \<open>
  A client: the protocol core, the connection it holds, the connection of the transport that was injected into the core, whether the data stream is
  open, whether a \<open>Close\<close> is under way, all connections ever dialled, and the calls of \<open>Connect\<close>.
\<close>

record 'c bclient =
  bc_core :: CoreClient
  bc_conn :: "nat option"
  bc_trans :: "nat option"
  bc_picker :: bool
  bc_closing :: bool
  bc_conns :: "'c list"
  bc_calls :: "connect_call list"

definition set_call :: "nat \<Rightarrow> connect_call \<Rightarrow> 'c bclient \<Rightarrow> 'c bclient" where
  "set_call i a s = s\<lparr>bc_calls := (bc_calls s)[i := a]\<rparr>"

definition goto :: "nat \<Rightarrow> connect_pc \<Rightarrow> 'c bclient \<Rightarrow> 'c bclient" where
  "goto i pc s = set_call i ((bc_calls s ! i)\<lparr>cc_pc := pc\<rparr>) s"

definition on_conn :: "('c \<Rightarrow> 'c) \<Rightarrow> nat \<Rightarrow> 'c bclient \<Rightarrow> 'c bclient" where
  "on_conn f l s = s\<lparr>bc_conns := (bc_conns s)[l := f (bc_conns s ! l)]\<rparr>"

text \<open>What a binding hands to \<open>binding.Handshake\<close>, with the methods of its connections.\<close>

record 'c hooks =
  hk_new :: 'c \<comment> \<open>what \<open>Dial\<close> returns\<close>
  hk_close :: "'c \<Rightarrow> 'c"
  hk_closed :: "'c \<Rightarrow> bool"
  hk_mark :: "'c \<Rightarrow> 'c" \<comment> \<open>what \<open>MarkAuthed\<close> of the transport does\<close>
  hk_guard :: "nat \<Rightarrow> nat \<Rightarrow> 'c bclient \<Rightarrow> go_err option \<times> 'c bclient"
  hk_setup :: "go_err option \<Rightarrow> nat \<Rightarrow> 'c bclient \<Rightarrow> go_err option \<times> 'c bclient"
  hk_postAuth :: "go_err option \<Rightarrow> nat \<Rightarrow> 'c bclient \<Rightarrow> go_err option \<times> 'c bclient"
  hk_clean :: "nat \<Rightarrow> 'c bclient \<Rightarrow> 'c bclient option"

section \<open>The bindings\<close>

definition race_error :: go_err where
  "race_error = NewError LocalSession ''already connected (race)''"

text \<open>The dial callback after the dial, under the client's mutex.\<close>

definition v1_guard :: "nat \<Rightarrow> nat \<Rightarrow> Conn bclient \<Rightarrow> go_err option \<times> Conn bclient" where
  "v1_guard l i s =
    (if bc_conn s \<noteq> None then (Some race_error, on_conn Conn_Close l s)
     else (None, set_call i ((bc_calls s ! i)\<lparr>cc_conn := Some l\<rparr>) (s\<lparr>bc_conn := Some l\<rparr>)))"

definition v1_setup :: "go_err option \<Rightarrow> nat \<Rightarrow> Conn bclient \<Rightarrow> go_err option \<times> Conn bclient" where
  "v1_setup opened i s =
    (case cc_conn (bc_calls s ! i) of
       None \<Rightarrow> (Some race_error, s)
     | Some l \<Rightarrow>
         (case OpenControlStream opened (bc_conns s ! l) of
            (Some e, c) \<Rightarrow> (Some (WrapError LocalStream ''open control stream'' e), on_conn (\<lambda>_. c) l s)
          | (None, c) \<Rightarrow> (None, on_conn (\<lambda>_. c) l (s\<lparr>bc_core := SetTransport (bc_core s), bc_trans := Some l\<rparr>))))"

definition openDataStream :: "go_err option \<Rightarrow> Conn \<Rightarrow> go_err option" where
  "openDataStream opened c = map_option (WrapError LocalStream ''open data stream'') (OpenDataStream opened c)"

definition v1_postAuth :: "go_err option \<Rightarrow> nat \<Rightarrow> Conn bclient \<Rightarrow> go_err option \<times> Conn bclient" where
  "v1_postAuth opened i s =
    (case cc_conn (bc_calls s ! i) of
       None \<Rightarrow> (Some race_error, s)
     | Some l \<Rightarrow> (case openDataStream opened (bc_conns s ! l) of Some e \<Rightarrow> (Some e, s) | None \<Rightarrow> (None, s\<lparr>bc_picker := True\<rparr>)))"

definition v1_clean :: "nat \<Rightarrow> Conn bclient \<Rightarrow> Conn bclient option" where
  "v1_clean i s =
    Some (case cc_conn (bc_calls s ! i) of None \<Rightarrow> s | Some l \<Rightarrow> (on_conn Conn_Close l s)\<lparr>bc_conn := None\<rparr>)"

definition v1_hooks :: "Conn hooks" where
  "v1_hooks = \<lparr>hk_new = \<lparr>cn_controlClaimed = False, cn_authed = False, cn_closed = False, cn_udpConn = Some True\<rparr>, hk_close = Conn_Close, hk_closed = cn_closed, hk_mark = SetAuthed True, hk_guard = v1_guard, hk_setup = v1_setup,
     hk_postAuth = v1_postAuth, hk_clean = v1_clean\<rparr>"

text \<open>
  A TCP connection is known by whether it has been closed. The clean-up closes \<open>c.conn\<close>, which would be a nil dereference were it not set,
  and takes the connection out of the transport.
\<close>

definition ntls_guard :: "nat \<Rightarrow> nat \<Rightarrow> bool bclient \<Rightarrow> go_err option \<times> bool bclient" where
  "ntls_guard l i s =
    (if bc_conn s \<noteq> None then (Some race_error, on_conn (\<lambda>_. True) l s)
     else (None, set_call i ((bc_calls s ! i)\<lparr>cc_conn := Some l\<rparr>) (s\<lparr>bc_conn := Some l\<rparr>)))"

definition ntls_setup :: "go_err option \<Rightarrow> nat \<Rightarrow> bool bclient \<Rightarrow> go_err option \<times> bool bclient" where
  "ntls_setup _ i s = (None, s\<lparr>bc_core := SetTransport (bc_core s), bc_trans := cc_conn (bc_calls s ! i)\<rparr>)"

definition ntls_clean :: "nat \<Rightarrow> bool bclient \<Rightarrow> bool bclient option" where
  "ntls_clean i s =
    (case cc_conn (bc_calls s ! i) of
       None \<Rightarrow> Some s
     | Some l \<Rightarrow>
         (case bc_conn s of
            None \<Rightarrow> None
          | Some k \<Rightarrow> Some ((on_conn (\<lambda>_. True) k s)\<lparr>bc_conn := None, bc_trans := (if bc_trans s = Some l then None else bc_trans s)\<rparr>)))"

definition ntls_hooks :: "bool hooks" where
  "ntls_hooks = \<lparr>hk_new = False, hk_close = \<lambda>_. True, hk_closed = \<lambda>c. c, hk_mark = \<lambda>c. c, hk_guard = ntls_guard, hk_setup = ntls_setup,
     hk_postAuth = \<lambda>_ _ s. (None, s), hk_clean = ntls_clean\<rparr>"

section \<open>Connect\<close>

definition connect_check :: "nat \<Rightarrow> 'c bclient \<Rightarrow> 'c bclient" where
  "connect_check i s =
    (if bc_conn s \<noteq> None \<or> ct_closed (bc_core s) then
       goto i (CReturned (Some (NewError LocalSession
         (if ct_closed (bc_core s) then ''client closed or previous connect failed; Client is single-use, create a new instance''
          else ''already connected'')))) s
     else goto i CDial s)"

text \<open>\<open>Dial\<close> fails, or there is a new connection.\<close>

definition connect_dial :: "'c hooks \<Rightarrow> go_err option \<Rightarrow> nat \<Rightarrow> 'c bclient \<Rightarrow> 'c bclient" where
  "connect_dial H err i s =
    (case err of
       Some e \<Rightarrow> goto i (CClean e) s
     | None \<Rightarrow> goto i (CGuard (length (bc_conns s))) (s\<lparr>bc_conns := bc_conns s @ [hk_new H]\<rparr>))"

definition connect_guard :: "'c hooks \<Rightarrow> nat \<Rightarrow> nat \<Rightarrow> 'c bclient \<Rightarrow> 'c bclient" where
  "connect_guard H l i s = (case hk_guard H l i s of (Some e, s) \<Rightarrow> goto i (CClean e) s | (None, s) \<Rightarrow> goto i CSetup s)"

text \<open>\<open>binding.Handshake\<close> from here; a failure runs the deferred \<open>cc.Close\<close>.\<close>

definition connect_setup :: "'c hooks \<Rightarrow> go_err option \<Rightarrow> nat \<Rightarrow> 'c bclient \<Rightarrow> 'c bclient" where
  "connect_setup H r i s = (case hk_setup H r i s of (Some e, s) \<Rightarrow> goto i (CFail e) s | (None, s) \<Rightarrow> goto i CShake s)"

definition connect_shake :: "cenv \<Rightarrow> 'c hooks \<Rightarrow> bytes res \<Rightarrow> (byte \<times> bytes) res \<Rightarrow> nat \<Rightarrow> 'c bclient \<Rightarrow> 'c bclient" where
  "connect_shake E H rnd reply i s =
    (case Client_Handshake E rnd reply (bc_core s) of
       (Some e, c) \<Rightarrow> goto i (CFail e) (s\<lparr>bc_core := c\<rparr>)
     | (None, c) \<Rightarrow>
         let s = s\<lparr>bc_core := c\<rparr>
         in goto i CPostAuth (if k_authMarker E then (case bc_trans s of Some l \<Rightarrow> on_conn (hk_mark H) l s | None \<Rightarrow> s) else s))"

definition connect_postAuth :: "'c hooks \<Rightarrow> go_err option \<Rightarrow> nat \<Rightarrow> 'c bclient \<Rightarrow> 'c bclient" where
  "connect_postAuth H r i s = (case hk_postAuth H r i s of (Some e, s) \<Rightarrow> goto i (CFail e) s | (None, s) \<Rightarrow> goto i CStart s)"

definition connect_start :: "nat \<Rightarrow> 'c bclient \<Rightarrow> 'c bclient" where
  "connect_start i s = goto i (CReturned None) (s\<lparr>bc_core := StartLifecycle (bc_core s)\<rparr>)"

text \<open>The core closes the connection of its transport.\<close>

definition trans_close :: "'c hooks \<Rightarrow> 'c bclient \<Rightarrow> 'c bclient" where
  "trans_close H s = (case bc_trans s of Some l \<Rightarrow> on_conn (hk_close H) l s | None \<Rightarrow> s)"

text \<open>
  \<open>cc.Close\<close> runs once; a second caller waits for the first. Nothing was sent in a session whose \<open>Connect\<close> failed, so there is
  nothing to drain.
\<close>

definition connect_fail :: "cenv \<Rightarrow> 'c hooks \<Rightarrow> go_err \<Rightarrow> nat \<Rightarrow> 'c bclient \<Rightarrow> 'c bclient" where
  "connect_fail E H e i s =
    (if bc_closing s then s
     else if ct_closeOnce (bc_core s) then goto i (CClean e) s
     else goto i (CClean e) (trans_close H (s\<lparr>bc_core := close_end E (snd (close_begin E (bc_core s)))\<rparr>)))"

definition connect_clean :: "'c hooks \<Rightarrow> go_err \<Rightarrow> nat \<Rightarrow> 'c bclient \<Rightarrow> 'c bclient option" where
  "connect_clean H e i s = map_option (goto i (CReturned (Some e))) (hk_clean H i s)"

text \<open>A \<open>Close\<close> of the application, in two parts with the wait between them, and the end of a session by its own loops.\<close>

definition app_close :: "cenv \<Rightarrow> 'c bclient \<Rightarrow> 'c bclient" where
  "app_close E s =
    (if ct_closeOnce (bc_core s) then s else s\<lparr>bc_core := snd (close_begin E (bc_core s)), bc_closing := True\<rparr>)"

definition app_closed :: "cenv \<Rightarrow> 'c hooks \<Rightarrow> 'c bclient \<Rightarrow> 'c bclient" where
  "app_closed E H s =
    (if bc_closing s then trans_close H (s\<lparr>bc_core := close_end E (bc_core s), bc_closing := False\<rparr>) else s)"

definition session_fails :: "cenv \<Rightarrow> 'c hooks \<Rightarrow> 'c bclient \<Rightarrow> 'c bclient" where
  "session_fails E H s = (if ct_running (bc_core s) then trans_close H (s\<lparr>bc_core := fatalTeardown E (bc_core s)\<rparr>) else s)"

section \<open>Interleavings\<close>

datatype connect_op =
    KConnect | KCheck nat | KDial nat "go_err option" | KGuard nat | KSetup nat "go_err option" | KShake nat "bytes res" "(byte \<times> bytes) res"
  | KPostAuth nat "go_err option" | KStart nat | KFail nat | KClean nat | KClose | KClosed | KTeardown

definition at_call :: "nat \<Rightarrow> 'c bclient \<Rightarrow> connect_pc option" where
  "at_call i s = (if i < length (bc_calls s) then Some (cc_pc (bc_calls s ! i)) else None)"

fun connect_step :: "cenv \<Rightarrow> 'c hooks \<Rightarrow> connect_op \<Rightarrow> 'c bclient \<Rightarrow> 'c bclient option" where
  "connect_step E H KConnect s = Some (s\<lparr>bc_calls := bc_calls s @ [\<lparr>cc_pc = CCheck, cc_conn = None\<rparr>]\<rparr>)"
| "connect_step E H (KCheck i) s = Some (if at_call i s = Some CCheck then connect_check i s else s)"
| "connect_step E H (KDial i d) s = Some (if at_call i s = Some CDial then connect_dial H d i s else s)"
| "connect_step E H (KGuard i) s = Some (case at_call i s of Some (CGuard l) \<Rightarrow> connect_guard H l i s | _ \<Rightarrow> s)"
| "connect_step E H (KSetup i r) s = Some (if at_call i s = Some CSetup then connect_setup H r i s else s)"
| "connect_step E H (KShake i rnd reply) s = Some (if at_call i s = Some CShake then connect_shake E H rnd reply i s else s)"
| "connect_step E H (KPostAuth i r) s = Some (if at_call i s = Some CPostAuth then connect_postAuth H r i s else s)"
| "connect_step E H (KStart i) s = Some (if at_call i s = Some CStart then connect_start i s else s)"
| "connect_step E H (KFail i) s = Some (case at_call i s of Some (CFail e) \<Rightarrow> connect_fail E H e i s | _ \<Rightarrow> s)"
| "connect_step E H (KClean i) s = (case at_call i s of Some (CClean e) \<Rightarrow> connect_clean H e i s | _ \<Rightarrow> Some s)"
| "connect_step E H KClose s = Some (app_close E s)"
| "connect_step E H KClosed s = Some (app_closed E H s)"
| "connect_step E H KTeardown s = Some (session_fails E H s)"

fun connect_run :: "cenv \<Rightarrow> 'c hooks \<Rightarrow> connect_op list \<Rightarrow> 'c bclient \<Rightarrow> 'c bclient option" where
  "connect_run E H [] s = Some s"
| "connect_run E H (op # ops) s = (case connect_step E H op s of None \<Rightarrow> None | Some s' \<Rightarrow> connect_run E H ops s')"

text \<open>A call that runs alone; the answers of the network are arguments.\<close>

record answers =
  an_env :: cenv
  an_dial :: "go_err option"
  an_control :: "go_err option"
  an_rnd :: "bytes res"
  an_reply :: "(byte \<times> bytes) res"
  an_data :: "go_err option"

definition connect_alone :: "answers \<Rightarrow> 'c hooks \<Rightarrow> 'c bclient \<Rightarrow> 'c bclient option" where
  "connect_alone A H s =
    (let i = length (bc_calls s) in
     connect_run (an_env A) H [KConnect, KCheck i, KDial i (an_dial A), KGuard i, KSetup i (an_control A), KShake i (an_rnd A) (an_reply A),
       KPostAuth i (an_data A), KStart i, KFail i, KClean i] s)"

definition fresh_client :: "CoreClient \<Rightarrow> 'c bclient" where
  "fresh_client c = \<lparr>bc_core = c, bc_conn = None, bc_trans = None, bc_picker = False, bc_closing = False, bc_conns = [], bc_calls = []\<rparr>"

section \<open>The interface\<close>

text \<open>What a proof has to see of a client: which connections are closed, who holds one, whether the core has ended.\<close>

record cview =
  v_flags :: "bool list"
  v_conn :: "nat option"
  v_trans :: "nat option"
  v_calls :: "connect_call list"
  v_ended :: bool
  v_closing :: bool

definition view :: "'c hooks \<Rightarrow> 'c bclient \<Rightarrow> cview" where
  "view H s = \<lparr>v_flags = map (hk_closed H) (bc_conns s), v_conn = bc_conn s, v_trans = bc_trans s, v_calls = bc_calls s,
     v_ended = ct_closed (bc_core s), v_closing = bc_closing s\<rparr>"

lemma view_sel [simp]:
  "v_flags (view H s) = map (hk_closed H) (bc_conns s)" "v_conn (view H s) = bc_conn s" "v_trans (view H s) = bc_trans s"
  "v_calls (view H s) = bc_calls s" "v_ended (view H s) = ct_closed (bc_core s)" "v_closing (view H s) = bc_closing s"
  by (simp_all add: view_def)

locale connector =
  fixes H :: "'c hooks"
  assumes new_open: "\<not> hk_closed H (hk_new H)"
    and closes: "hk_closed H (hk_close H c)"
    and mark_keeps: "hk_closed H (hk_mark H c) = hk_closed H c"
    and guard_held: "bc_conn s = Some k \<Longrightarrow> fst (hk_guard H l i s) \<noteq> None \<and>
      view H (snd (hk_guard H l i s)) = (view H s)\<lparr>v_flags := (v_flags (view H s))[l := True]\<rparr>"
    and guard_free: "bc_conn s = None \<Longrightarrow> fst (hk_guard H l i s) = None \<and>
      view H (snd (hk_guard H l i s)) = (view H s)\<lparr>v_conn := Some l, v_calls := (bc_calls s)[i := (bc_calls s ! i)\<lparr>cc_conn := Some l\<rparr>]\<rparr>"
    and setup_view: "cc_conn (bc_calls s ! i) = Some l \<Longrightarrow> l < length (bc_conns s) \<Longrightarrow>
      view H (snd (hk_setup H r i s)) = view H s \<or> view H (snd (hk_setup H r i s)) = (view H s)\<lparr>v_trans := Some l\<rparr>"
    and postAuth_view: "view H (snd (hk_postAuth H r i s)) = view H s"
    and clean_own: "cc_conn (bc_calls s ! i) = Some l \<Longrightarrow> bc_conn s = Some l \<Longrightarrow>
      \<exists>s' tr. hk_clean H i s = Some s' \<and> (tr = None \<or> tr = bc_trans s) \<and>
        view H s' = (view H s)\<lparr>v_flags := (v_flags (view H s))[l := True], v_conn := None, v_trans := tr\<rparr>"
    and clean_other: "cc_conn (bc_calls s ! i) = None \<Longrightarrow> hk_clean H i s = Some s"

lemma map_update_same: "f x = f (xs ! l) \<Longrightarrow> map f (xs[l := x]) = map f xs"
  by (induction xs arbitrary: l) (auto split: nat.splits)

lemmas client_moves = view_def on_conn_def set_call_def map_update

interpretation v1c: connector v1_hooks
proof
  fix s :: "Conn bclient" and i l r
  assume l: "cc_conn (bc_calls s ! i) = Some l" "l < length (bc_conns s)"
  have "cn_closed (snd (OpenControlStream r (bc_conns s ! l))) = cn_closed (bc_conns s ! l)"
    by (simp add: OpenControlStream_def OpenControlStream_claim_def split: option.splits)
  from map_update_same [OF this]
  show "view v1_hooks (snd (hk_setup v1_hooks r i s)) = view v1_hooks s \<or>
      view v1_hooks (snd (hk_setup v1_hooks r i s)) = (view v1_hooks s)\<lparr>v_trans := Some l\<rparr>"
    using l(1) by (auto simp: v1_hooks_def v1_setup_def view_def on_conn_def SetTransport_def split: option.splits prod.splits)
next
  fix s :: "Conn bclient" and i r
  show "view v1_hooks (snd (hk_postAuth v1_hooks r i s)) = view v1_hooks s"
    by (simp add: v1_hooks_def v1_postAuth_def view_def split: option.splits)
qed (auto simp: v1_hooks_def Conn_Close_def SetAuthed_def v1_guard_def v1_clean_def client_moves)

interpretation ntlsc: connector ntls_hooks
proof
  fix s :: "bool bclient" and i l
  assume l: "cc_conn (bc_calls s ! i) = Some l" "bc_conn s = Some l"
  show "\<exists>s' tr. hk_clean ntls_hooks i s = Some s' \<and> (tr = None \<or> tr = bc_trans s) \<and>
      view ntls_hooks s' = (view ntls_hooks s)\<lparr>v_flags := (v_flags (view ntls_hooks s))[l := True], v_conn := None, v_trans := tr\<rparr>"
    by (rule exI [of _ "the (ntls_clean i s)"], rule exI [of _ "if bc_trans s = Some l then None else bc_trans s"])
      (use l in \<open>simp add: ntls_hooks_def ntls_clean_def client_moves\<close>)
qed (auto simp: ntls_hooks_def ntls_guard_def ntls_setup_def ntls_clean_def SetTransport_def client_moves)


section \<open>Ownership\<close>

text \<open>A call holds a connection from the moment the client has stored it until \<open>Connect\<close> returns with an error.\<close>

definition holder :: "connect_call \<Rightarrow> nat" where
  "holder a = (if cc_conn a \<noteq> None \<and> (\<forall>e. cc_pc a \<noteq> CReturned (Some e)) then 1 else 0)"

definition guards :: "nat \<Rightarrow> connect_call \<Rightarrow> nat" where
  "guards l a = (if cc_pc a = CGuard l then 1 else 0)"

definition owners :: "nat \<Rightarrow> cview \<Rightarrow> nat" where
  "owners l v = (if v_conn v = Some l then 1 else 0) + sum_list (map (guards l) (v_calls v))"

definition call_shape :: "connect_call \<Rightarrow> bool" where
  "call_shape a \<longleftrightarrow> (cc_pc a \<in> {CCheck, CDial} \<or> (\<exists>l. cc_pc a = CGuard l) \<longrightarrow> cc_conn a = None) \<and>
    (cc_pc a \<in> {CSetup, CShake, CPostAuth, CStart, CReturned None} \<or> (\<exists>e. cc_pc a = CFail e) \<longrightarrow> cc_conn a \<noteq> None)"

definition call_ok :: "cview \<Rightarrow> connect_call \<Rightarrow> bool" where
  "call_ok v a \<longleftrightarrow> call_shape a \<and> (\<forall>l. cc_pc a = CGuard l \<longrightarrow> v_ended v \<or> \<not> v_flags v ! l) \<and>
    (holder a = 1 \<longrightarrow> cc_conn a = v_conn v \<and> ((\<exists>e. cc_pc a = CClean e) \<or> v_ended v \<or> \<not> v_flags v ! the (v_conn v)))"

definition client_inv :: "cview \<Rightarrow> bool" where
  "client_inv v \<longleftrightarrow> sum_list (map holder (v_calls v)) = (if v_conn v = None then 0 else 1) \<and> (\<forall>a \<in> set (v_calls v). call_ok v a) \<and>
    (\<forall>l. owners l v \<le> 1 \<and> (0 < owners l v \<longrightarrow> l < length (v_flags v)) \<and> (l < length (v_flags v) \<longrightarrow> v_flags v ! l \<or> 0 < owners l v)) \<and>
    (v_closing v \<longrightarrow> v_ended v)"

lemma client_invD:
  assumes "client_inv v"
  shows "sum_list (map holder (v_calls v)) = (if v_conn v = None then 0 else 1)" "a \<in> set (v_calls v) \<Longrightarrow> call_ok v a"
    "owners l v \<le> 1" "0 < owners l v \<Longrightarrow> l < length (v_flags v)" "l < length (v_flags v) \<Longrightarrow> v_flags v ! l \<or> 0 < owners l v"
    "v_closing v \<Longrightarrow> v_ended v"
  using assms by (auto simp: client_inv_def)

lemma holder_le: "holder a = 0 \<or> holder a = 1" by (simp add: holder_def)

text \<open>A call moves and keeps what it holds.\<close>

lemma move_inv:
  assumes "client_inv v" "i < length (v_calls v)" "holder a = holder (v_calls v ! i)" "\<And>l. guards l a = guards l (v_calls v ! i)" "call_ok v a"
  shows "client_inv (v\<lparr>v_calls := (v_calls v)[i := a]\<rparr>)"
proof -
  let ?v = "v\<lparr>v_calls := (v_calls v)[i := a]\<rparr>"
  have "owners l ?v = owners l v" for l
    using sum_list_map_update [OF assms(2), of "guards l" a] assms(4) by (simp add: owners_def)
  moreover have "call_ok ?v b \<longleftrightarrow> call_ok v b" for b by (simp add: call_ok_def)
  then have "\<forall>b \<in> set (v_calls ?v). call_ok ?v b"
    using client_invD(2) [OF assms(1)] assms(5) set_update_subset_insert [of "v_calls v" i a] by auto
  ultimately show ?thesis
    using client_invD(1,3-6) [OF assms(1)] sum_list_map_update [OF assms(2), of holder a] assms(3) by (simp add: client_inv_def)
qed

lemma set_flag: "k < length fl \<Longrightarrow> fl ! k \<Longrightarrow> fl[l := True] ! k"
  by (cases "k = l") simp_all

text \<open>The core ends: its transport's connection may be closed, everything else stays.\<close>

lemma ended_inv:
  assumes "client_inv v" "\<And>l. l < length (v_flags v) \<Longrightarrow> v_flags v ! l \<Longrightarrow> fl ! l" "length fl = length (v_flags v)"
  shows "client_inv (v\<lparr>v_flags := fl, v_ended := True, v_closing := b\<rparr>)"
proof -
  let ?v = "v\<lparr>v_flags := fl, v_ended := True, v_closing := b\<rparr>"
  have "owners l ?v = owners l v" for l by (simp add: owners_def)
  moreover have "call_ok v a \<Longrightarrow> call_ok ?v a" for a by (simp add: call_ok_def)
  moreover have "l < length fl \<Longrightarrow> fl ! l \<or> 0 < owners l v" for l
    using client_invD(5) [OF assms(1), of l] assms(2) [of l] assms(3) by auto
  ultimately show ?thesis using client_invD(1-4,6) [OF assms(1)] assms(3) by (simp add: client_inv_def)
qed

text \<open>A new connection in the hands of a call, closed by the guard, stored by the guard, given up by the clean-up.\<close>

lemma guarding_inv:
  assumes "client_inv v" "x \<in> set (v_calls v)" "cc_pc x = CGuard l"
  shows "l < length (v_flags v)" "v_conn v \<noteq> Some l" "v_ended v \<or> \<not> v_flags v ! l"
proof -
  obtain i where i: "i < length (v_calls v)" "v_calls v ! i = x" using assms(2) by (auto simp: in_set_conv_nth)
  have p: "0 < sum_list (map (guards l) (v_calls v))" by (rule holds_pos [OF i(1)]) (simp add: guards_def assms(3) i(2))
  then show "l < length (v_flags v)" using client_invD(4) [OF assms(1), of l] unfolding owners_def by linarith
  show "v_conn v \<noteq> Some l" using p client_invD(3) [OF assms(1), of l] unfolding owners_def by (metis add_le_same_cancel1 not_less)
  show "v_ended v \<or> \<not> v_flags v ! l" using client_invD(2) [OF assms(1,2)] assms(3) by (simp add: call_ok_def)
qed

lemma idle_call:
  assumes "client_inv v" "i < length (v_calls v)" "cc_pc (v_calls v ! i) = CDial \<or> (\<exists>l. cc_pc (v_calls v ! i) = CGuard l)"
  shows "holder (v_calls v ! i) = 0" "cc_conn (v_calls v ! i) = None"
  using client_invD(2) [OF assms(1) nth_mem [OF assms(2)]] assms(3) by (auto simp: call_ok_def call_shape_def holder_def)

lemma no_owner_no_guard: "owners l v = 0 \<Longrightarrow> x \<in> set (v_calls v) \<Longrightarrow> cc_pc x \<noteq> CGuard l"
  by (auto simp: owners_def guards_def split: if_splits)

lemma dial_inv:
  assumes "client_inv v" "i < length (v_calls v)" "cc_pc (v_calls v ! i) = CDial" "a = (v_calls v ! i)\<lparr>cc_pc := CGuard (length (v_flags v))\<rparr>"
  shows "client_inv (v\<lparr>v_flags := v_flags v @ [False], v_calls := (v_calls v)[i := a]\<rparr>)"
proof -
  let ?n = "length (v_flags v)" and ?v = "v\<lparr>v_flags := v_flags v @ [False], v_calls := (v_calls v)[i := a]\<rparr>"
  have h: "holder (v_calls v ! i) = 0" "cc_conn (v_calls v ! i) = None" using idle_call [OF assms(1,2)] assms(3) by simp_all
  have o: "owners l ?v = owners l v + (if l = ?n then 1 else 0)" for l
    using sum_list_map_update [OF assms(2), of "guards l" a] assms(3,4) by (auto simp: owners_def guards_def)
  have "owners ?n v = 0" using client_invD(4) [OF assms(1), of ?n] by fastforce
  then have c: "owners l ?v \<le> 1 \<and> (0 < owners l ?v \<longrightarrow> l < length (v_flags ?v)) \<and> (l < length (v_flags ?v) \<longrightarrow> v_flags ?v ! l \<or> 0 < owners l ?v)" for l
    using client_invD(3-5) [OF assms(1), of l] o [of l] by (auto simp: nth_append less_Suc_eq)
  have "v_conn v = Some k \<Longrightarrow> k < ?n" for k using client_invD(4) [OF assms(1), of k] by (auto simp: owners_def)
  then have "x \<in> set (v_calls v) \<Longrightarrow> call_ok ?v x" for x
    using client_invD(2) [OF assms(1), of x] guarding_inv [OF assms(1), of x] by (auto simp: call_ok_def nth_append holder_def)
  moreover have "call_ok ?v a" using assms(4) h by (simp add: call_ok_def call_shape_def holder_def)
  ultimately have "\<forall>x \<in> set (v_calls ?v). call_ok ?v x" using set_update_subset_insert [of "v_calls v" i a] by auto
  moreover have "holder a = 0" using h assms(4) by (simp add: holder_def)
  ultimately show ?thesis
    using c client_invD(1,6) [OF assms(1)] sum_list_map_update [OF assms(2), of holder a] h unfolding client_inv_def by simp
qed

lemma guard_held_inv:
  assumes "client_inv v" "i < length (v_calls v)" "cc_pc (v_calls v ! i) = CGuard l" "a = (v_calls v ! i)\<lparr>cc_pc := CClean e\<rparr>"
  shows "client_inv (v\<lparr>v_flags := (v_flags v)[l := True], v_calls := (v_calls v)[i := a]\<rparr>)"
proof -
  let ?v = "v\<lparr>v_flags := (v_flags v)[l := True], v_calls := (v_calls v)[i := a]\<rparr>"
  have h: "holder (v_calls v ! i) = 0" "cc_conn (v_calls v ! i) = None" using idle_call [OF assms(1,2)] assms(3) by simp_all
  have o: "owners k ?v + (if k = l then 1 else 0) = owners k v" for k
    using sum_list_map_update [OF assms(2), of "guards k" a] assms(3,4) by (auto simp: owners_def guards_def)
  have c: "owners k ?v \<le> 1 \<and> (0 < owners k ?v \<longrightarrow> k < length (v_flags ?v)) \<and> (k < length (v_flags ?v) \<longrightarrow> v_flags ?v ! k \<or> 0 < owners k ?v)" for k
    using client_invD(3-5) [OF assms(1), of k] o [of k] by (cases "k = l") auto
  have "owners l ?v = 0" using o [of l] client_invD(3) [OF assms(1), of l] by simp
  note ng = no_owner_no_guard [OF this]
  have "call_ok v x \<Longrightarrow> cc_pc x \<noteq> CGuard l \<Longrightarrow> call_ok ?v x" for x
    using guarding_inv(2) [OF assms(1) nth_mem [OF assms(2)] assms(3)] by (cases "v_conn v") (auto simp: call_ok_def holder_def)
  moreover have "call_ok ?v a" using assms(4) h by (simp add: call_ok_def call_shape_def holder_def)
  ultimately have "\<forall>x \<in> set (v_calls ?v). call_ok ?v x"
    using client_invD(2) [OF assms(1)] ng set_update_subset_insert [of "v_calls v" i a] by auto
  moreover have "holder a = 0" using h assms(4) by (simp add: holder_def)
  ultimately show ?thesis
    using c client_invD(1,6) [OF assms(1)] sum_list_map_update [OF assms(2), of holder a] h unfolding client_inv_def by simp
qed

lemma guard_free_inv:
  assumes "client_inv v" "i < length (v_calls v)" "cc_pc (v_calls v ! i) = CGuard l" "v_conn v = None"
    "a = (v_calls v ! i)\<lparr>cc_conn := Some l, cc_pc := CSetup\<rparr>"
  shows "client_inv (v\<lparr>v_conn := Some l, v_calls := (v_calls v)[i := a]\<rparr>)"
proof -
  let ?v = "v\<lparr>v_conn := Some l, v_calls := (v_calls v)[i := a]\<rparr>"
  have z: "\<forall>x \<in> set (v_calls v). holder x = 0" using client_invD(1) [OF assms(1)] assms(4) by simp
  then have h: "holder (v_calls v ! i) = 0" "holder a = 1" using assms(2,5) by (simp_all add: holder_def)
  have "owners k ?v = owners k v" for k
    using sum_list_map_update [OF assms(2), of "guards k" a] assms(3-5) by (auto simp: owners_def guards_def)
  moreover have "call_ok v x \<Longrightarrow> holder x = 0 \<Longrightarrow> call_ok ?v x" for x by (simp add: call_ok_def)
  moreover have "call_ok ?v a" using assms(5) guarding_inv(3) [OF assms(1) nth_mem [OF assms(2)] assms(3)]
    by (auto simp: call_ok_def call_shape_def)
  ultimately show ?thesis
    using z h client_invD [OF assms(1)] set_update_subset_insert [of "v_calls v" i a] sum_list_map_update [OF assms(2), of holder a] assms(4)
    unfolding client_inv_def by auto
qed

lemma clean_inv:
  assumes "client_inv v" "i < length (v_calls v)" "cc_pc (v_calls v ! i) = CClean e" "cc_conn (v_calls v ! i) = Some l"
    "a = (v_calls v ! i)\<lparr>cc_pc := CReturned (Some e)\<rparr>"
  shows "client_inv (v\<lparr>v_flags := (v_flags v)[l := True], v_conn := None, v_trans := tr, v_calls := (v_calls v)[i := a]\<rparr>)"
proof -
  let ?v = "v\<lparr>v_flags := (v_flags v)[l := True], v_conn := None, v_trans := tr, v_calls := (v_calls v)[i := a]\<rparr>"
  have h: "holder (v_calls v ! i) = 1" "holder a = 0" using assms(3-5) by (simp_all add: holder_def)
  have vc: "v_conn v = Some l" using client_invD(2) [OF assms(1) nth_mem [OF assms(2)]] h assms(4) by (simp add: call_ok_def)
  have s: "sum_list (map holder (v_calls ?v)) = 0"
    using sum_list_map_update [OF assms(2), of holder a] h client_invD(1) [OF assms(1)] vc by simp
  have o: "owners k ?v + (if k = l then 1 else 0) = owners k v" for k
    using sum_list_map_update [OF assms(2), of "guards k" a] assms(3,5) vc by (auto simp: owners_def guards_def)
  have c: "owners k ?v \<le> 1 \<and> (0 < owners k ?v \<longrightarrow> k < length (v_flags ?v)) \<and> (k < length (v_flags ?v) \<longrightarrow> v_flags ?v ! k \<or> 0 < owners k ?v)" for k
    using client_invD(3-5) [OF assms(1), of k] o [of k] by (cases "k = l") auto
  have "owners l ?v = 0" using o [of l] client_invD(3) [OF assms(1), of l] by simp
  note ng = no_owner_no_guard [OF this]
  have "call_ok v x \<Longrightarrow> cc_pc x \<noteq> CGuard l \<Longrightarrow> holder x = 0 \<Longrightarrow> call_ok ?v x" for x
    by (auto simp: call_ok_def)
  moreover have "call_ok ?v a" using assms(5) h by (simp add: call_ok_def call_shape_def)
  ultimately have "\<forall>x \<in> set (v_calls ?v). call_ok ?v x"
    using client_invD(2) [OF assms(1)] ng s set_update_subset_insert [of "v_calls v" i a] by auto
  then show ?thesis using c client_invD(6) [OF assms(1)] s unfolding client_inv_def by simp
qed


section \<open>Every step keeps the invariant\<close>

lemma Client_Handshake_closed: "ct_closed (snd (Client_Handshake E rnd reply c)) = ct_closed c"
proof -
  have w: "ct_closed (snd (sendHello E rnd c)) = ct_closed c"
    by (simp add: sendHello_def WriteFrame_def Let_def split: sum.splits prod.splits option.splits)
  have "ct_closed (snd (handshakeReply E priv hello th reply c')) = ct_closed c'" for priv hello th c'
    by (simp add: handshakeReply_def handleHelloAck_def establish_def Let_def split: prod.splits option.splits sum.splits)
  then show ?thesis using w by (cases "sendHello E rnd c") (auto simp: Client_Handshake_def split: prod.splits sum.splits)
qed

lemma close_ends: "\<not> ct_closeOnce c \<Longrightarrow> ct_closed (snd (close_begin E c))" "ct_closed (close_end E c) = ct_closed c"
  by (simp_all add: close_begin_def close_end_def CloseConn_def teardownPhase_def WriteFrame_def Let_def split: prod.splits sum.splits option.splits)

lemma at_call_Some: "at_call i s = Some pc \<longleftrightarrow> i < length (bc_calls s) \<and> cc_pc (bc_calls s ! i) = pc"
  by (auto simp: at_call_def)

lemma view_goto: "view H (goto i pc s) = (view H s)\<lparr>v_calls := (bc_calls s)[i := (bc_calls s ! i)\<lparr>cc_pc := pc\<rparr>]\<rparr>"
  by (simp add: view_def goto_def set_call_def)

text \<open>A move of a call that neither takes nor gives up a connection.\<close>

lemma goto_inv:
  assumes "client_inv (view H s)" "i < length (bc_calls s)" "a = bc_calls s ! i" "\<forall>l. cc_pc a \<noteq> CGuard l \<and> pc \<noteq> CGuard l" "cc_pc a \<noteq> pc"
    "\<forall>e. cc_pc a \<noteq> CReturned (Some e) \<and> (pc = CReturned (Some e) \<longrightarrow> cc_conn a = None)" "call_shape (a\<lparr>cc_pc := pc\<rparr>)" "\<forall>e. cc_pc a \<noteq> CClean e \<or> cc_conn a = None"
  shows "client_inv (view H (goto i pc s))"
proof -
  have ok: "call_ok (view H s) a" using client_invD(2) [OF assms(1)] assms(2,3) by simp
  have h: "holder (a\<lparr>cc_pc := pc\<rparr>) = holder a" using assms(6) by (auto simp: holder_def)
  have "call_ok (view H s) (a\<lparr>cc_pc := pc\<rparr>)"
    using ok assms(4,7,8) h unfolding call_ok_def by (auto simp: holder_def)
  then show ?thesis
    using move_inv [OF assms(1), of i "a\<lparr>cc_pc := pc\<rparr>"] assms(2-4) h by (simp add: view_goto guards_def)
qed

context connector
begin

lemma trans_close_inv:
  assumes "client_inv (view H s)" "ct_closed (bc_core s)"
  shows "client_inv (view H (trans_close H s))"
proof -
  have e: "v_ended (view H s)" using assms(2) by simp
  have "view H (on_conn (hk_close H) l s) = (view H s)\<lparr>v_flags := (v_flags (view H s))[l := True], v_ended := True, v_closing := bc_closing s\<rparr>" for l
    using assms(2) closes by (simp add: view_def on_conn_def map_update)
  then have "client_inv (view H (on_conn (hk_close H) l s))" for l
    using ended_inv [OF assms(1), of "(v_flags (view H s))[l := True]" "bc_closing s"] set_flag [of _ "v_flags (view H s)" l] by simp
  then show ?thesis using assms(1) by (simp add: trans_close_def split: option.splits)
qed


lemma close_goto_inv:
  assumes "client_inv (view H s)" "at_call i s = Some (CFail e)"
  shows "client_inv (view H (connect_fail E H e i s))"
proof -
  have i: "i < length (bc_calls s)" "cc_pc (bc_calls s ! i) = CFail e" using assms(2) by (simp_all add: at_call_Some)
  have g: "client_inv (view H (goto i (CClean e) t))" if "client_inv (view H t)" "bc_calls t = bc_calls s" for t
    by (rule goto_inv [OF that(1)]) (use that(2) i in \<open>auto simp: call_shape_def\<close>)
  let ?c = "close_end E (snd (close_begin E (bc_core s)))"
  have "client_inv (view H (trans_close H (s\<lparr>bc_core := ?c\<rparr>)))" if "\<not> ct_closeOnce (bc_core s)"
  proof (rule trans_close_inv)
    have e: "ct_closed ?c" using close_ends(1) [OF that] close_ends(2) by simp
    then have "view H (s\<lparr>bc_core := ?c\<rparr>) = (view H s)\<lparr>v_flags := v_flags (view H s), v_ended := True, v_closing := bc_closing s\<rparr>"
      by (simp add: view_def)
    with ended_inv [OF assms(1), of "v_flags (view H s)" "bc_closing s"] show "client_inv (view H (s\<lparr>bc_core := ?c\<rparr>))" by simp
    show "ct_closed (bc_core (s\<lparr>bc_core := ?c\<rparr>))" using e by simp
  qed
  moreover have "bc_calls (trans_close H (s\<lparr>bc_core := ?c\<rparr>)) = bc_calls s" by (simp add: trans_close_def on_conn_def split: option.splits)
  ultimately show ?thesis using assms(1) g [OF assms(1)] g by (simp add: connect_fail_def)
qed

lemma app_close_inv:
  assumes "client_inv (view H s)"
  shows "client_inv (view H (app_close E s))" "client_inv (view H (app_closed E H s))" "client_inv (view H (session_fails E H s))"
proof -
  have e: "client_inv (view H (s\<lparr>bc_core := c, bc_closing := b\<rparr>))" if "ct_closed c" for c b
  proof -
    have "view H (s\<lparr>bc_core := c, bc_closing := b\<rparr>) = (view H s)\<lparr>v_flags := v_flags (view H s), v_ended := True, v_closing := b\<rparr>"
      using that by (simp add: view_def)
    with ended_inv [OF assms, of "v_flags (view H s)" b] show ?thesis by simp
  qed
  show "client_inv (view H (app_close E s))" using e [OF close_ends(1)] assms by (simp add: app_close_def)
  have "bc_closing s \<Longrightarrow> ct_closed (bc_core s)" using client_invD(6) [OF assms] by simp
  then show "client_inv (view H (app_closed E H s))"
    using trans_close_inv [OF e [of "close_end E (bc_core s)" False]] assms by (simp add: app_closed_def close_ends(2))
  have "ct_closed (fatalTeardown E (bc_core s))" by (simp add: fatalTeardown_def CloseConn_def teardownPhase_def)
  then show "client_inv (view H (session_fails E H s))"
    using trans_close_inv [OF e [of "fatalTeardown E (bc_core s)" "bc_closing s"]] assms by (simp add: session_fails_def)
qed


text \<open>A call that holds its connection goes on to the next stage, or to the deferred close.\<close>

lemma stage_inv:
  assumes "client_inv (view H s)" "at_call i s = Some pc" "pc \<in> {CSetup, CShake, CPostAuth, CStart}" "view H t = view H s \<or> view H t = (view H s)\<lparr>v_trans := x\<rparr>"
    "pc' \<in> {CShake, CPostAuth, CStart, CReturned None} \<or> (\<exists>e. pc' = CFail e)" "pc' \<noteq> pc"
  shows "client_inv (view H (goto i pc' t))"
proof -
  have "client_inv (v\<lparr>v_trans := x\<rparr>) = client_inv v" for v by (simp add: client_inv_def call_ok_def owners_def)
  then have t: "client_inv (view H t)" using assms(1,4) by metis
  have "v_calls (view H t) = v_calls (view H s)" using assms(4) by (elim disjE) simp_all
  then have c: "bc_calls t = bc_calls s" by simp
  have i: "i < length (bc_calls s)" "cc_pc (bc_calls s ! i) = pc" using assms(2) by (simp_all add: at_call_Some)
  then have "call_shape (bc_calls s ! i)" using client_invD(2) [OF assms(1)] by (simp add: call_ok_def)
  then have "cc_conn (bc_calls s ! i) \<noteq> None" using assms(3) i(2) by (auto simp: call_shape_def)
  then show ?thesis using assms(3,5,6) i c by (intro goto_inv [OF t _ refl]) (auto simp: call_shape_def)
qed

lemma guard_inv:
  assumes "client_inv (view H s)" "at_call i s = Some (CGuard l)"
  shows "client_inv (view H (connect_guard H l i s))"
proof -
  have i: "i < length (bc_calls s)" "cc_pc (bc_calls s ! i) = CGuard l" using assms(2) by (simp_all add: at_call_Some)
  obtain r t where g: "hk_guard H l i s = (r, t)" by (cases "hk_guard H l i s")
  show ?thesis
  proof (cases "bc_conn s")
    case None
    then have r: "r = None" and vt: "view H t = (view H s)\<lparr>v_conn := Some l, v_calls := (bc_calls s)[i := (bc_calls s ! i)\<lparr>cc_conn := Some l\<rparr>]\<rparr>"
      using guard_free [of s l i] g by simp_all
    have "bc_calls t = (bc_calls s)[i := (bc_calls s ! i)\<lparr>cc_conn := Some l\<rparr>]" using arg_cong [OF vt, of v_calls] by simp
    then show ?thesis using guard_free_inv [OF assms(1), of i l] None i r g vt by (simp add: connect_guard_def view_goto)
  next
    case (Some k)
    then obtain e where r: "r = Some e" and vt: "view H t = (view H s)\<lparr>v_flags := (v_flags (view H s))[l := True]\<rparr>"
      using guard_held [of s k l i] g by auto
    have "bc_calls t = bc_calls s" using arg_cong [OF vt, of v_calls] by simp
    then show ?thesis using guard_held_inv [OF assms(1), of i l _ e] i r g vt by (simp add: connect_guard_def view_goto)
  qed
qed

lemma connect_clean_inv:
  assumes "client_inv (view H s)" "at_call i s = Some (CClean e)"
  shows "\<exists>s'. connect_clean H e i s = Some s' \<and> client_inv (view H s')"
proof -
  have i: "i < length (bc_calls s)" "cc_pc (bc_calls s ! i) = CClean e" using assms(2) by (simp_all add: at_call_Some)
  show ?thesis
  proof (cases "cc_conn (bc_calls s ! i)")
    case None
    have "client_inv (view H (goto i (CReturned (Some e)) s))" by (rule goto_inv [OF assms(1) i(1) refl]) (auto simp: i None call_shape_def)
    then show ?thesis using clean_other [OF None] by (simp add: connect_clean_def)
  next
    case (Some l)
    have "call_ok (view H s) (bc_calls s ! i)" using client_invD(2) [OF assms(1)] i(1) by simp
    then have "bc_conn s = Some l" using i Some by (simp add: call_ok_def holder_def)
    from clean_own [OF Some this] obtain t tr where t: "hk_clean H i s = Some t"
        "view H t = (view H s)\<lparr>v_flags := (v_flags (view H s))[l := True], v_conn := None, v_trans := tr\<rparr>" by auto
    have "bc_calls t = bc_calls s" using arg_cong [OF t(2), of v_calls] by simp
    then have "client_inv (view H (goto i (CReturned (Some e)) t))"
      using clean_inv [OF assms(1), of i e l _ tr] i Some t(2) by (simp add: view_goto)
    then show ?thesis using t(1) by (simp add: connect_clean_def)
  qed
qed

lemma shake_inv:
  assumes "client_inv (view H s)" "at_call i s = Some CShake"
  shows "client_inv (view H (connect_shake E H rnd reply i s))"
proof -
  let ?c = "snd (Client_Handshake E rnd reply (bc_core s))"
  have "view H (s\<lparr>bc_core := ?c\<rparr>) = view H s" using Client_Handshake_closed by (simp add: view_def)
  moreover have "view H (on_conn (hk_mark H) l (s\<lparr>bc_core := ?c\<rparr>)) = view H s" for l
    using Client_Handshake_closed map_update_same [of "hk_closed H" "hk_mark H (bc_conns s ! l)" "bc_conns s" l] mark_keeps
    by (simp add: view_def on_conn_def)
  moreover have "client_inv (view H (goto i pc' t))" if "view H t = view H s" "pc' = CPostAuth \<or> (\<exists>e. pc' = CFail e)" for t pc'
    by (rule stage_inv [OF assms]) (use that in auto)
  ultimately have "client_inv (view H (goto i pc' (s\<lparr>bc_core := ?c\<rparr>)))" "client_inv (view H (goto i pc' (on_conn (hk_mark H) l (s\<lparr>bc_core := ?c\<rparr>))))"
    if "pc' = CPostAuth \<or> (\<exists>e. pc' = CFail e)" for pc' l
    using that by blast+
  then show ?thesis by (auto simp: connect_shake_def Let_def split: prod.splits option.splits)
qed

lemma connect_call_inv:
  assumes "client_inv (view H s)"
  shows "client_inv ((view H s)\<lparr>v_calls := bc_calls s @ [\<lparr>cc_pc = CCheck, cc_conn = None\<rparr>]\<rparr>)"
proof -
  let ?a = "\<lparr>cc_pc = CCheck, cc_conn = None\<rparr>"
  have "owners l ((view H s)\<lparr>v_calls := bc_calls s @ [?a]\<rparr>) = owners l (view H s)" for l by (simp add: owners_def guards_def)
  moreover have "call_ok ((view H s)\<lparr>v_calls := cs\<rparr>) x = call_ok (view H s) x" for cs x by (simp add: call_ok_def)
  moreover have "call_ok (view H s) ?a" by (simp add: call_ok_def call_shape_def holder_def)
  ultimately show ?thesis using client_invD [OF assms] by (auto simp: client_inv_def holder_def)
qed

lemma connect_check_inv:
  assumes "client_inv (view H s)" "at_call i s = Some CCheck"
  shows "client_inv (view H (connect_check i s))"
proof -
  have i: "i < length (bc_calls s)" "cc_pc (bc_calls s ! i) = CCheck" using assms(2) by (simp_all add: at_call_Some)
  then have "cc_conn (bc_calls s ! i) = None" using client_invD(2) [OF assms(1)] by (auto simp: call_ok_def call_shape_def)
  then have "client_inv (view H (goto i pc s))" if "pc = CDial \<or> (\<exists>e. pc = CReturned (Some e))" for pc
    using that by (intro goto_inv [OF assms(1) i(1) refl]) (auto simp: i call_shape_def)
  then show ?thesis by (simp add: connect_check_def)
qed

lemma connect_dial_inv:
  assumes "client_inv (view H s)" "at_call i s = Some CDial"
  shows "client_inv (view H (connect_dial H d i s))"
proof -
  have i: "i < length (bc_calls s)" "cc_pc (bc_calls s ! i) = CDial" using assms(2) by (simp_all add: at_call_Some)
  show ?thesis
  proof (cases d)
    case None
    from dial_inv [OF assms(1), of i] None i new_open show ?thesis by (simp add: connect_dial_def view_def goto_def set_call_def)
  next
    case (Some e)
    have "client_inv (view H (goto i (CClean e) s))" by (rule goto_inv [OF assms(1) i(1) refl]) (auto simp: i call_shape_def)
    then show ?thesis using Some by (simp add: connect_dial_def)
  qed
qed

text \<open>While the control plane is being set up the call's connection is the one the client holds.\<close>

lemma at_setup:
  assumes "client_inv (view H s)" "at_call i s = Some CSetup"
  obtains l where "cc_conn (bc_calls s ! i) = Some l" "l < length (bc_conns s)"
proof -
  have i: "i < length (bc_calls s)" "cc_pc (bc_calls s ! i) = CSetup" using assms(2) by (simp_all add: at_call_Some)
  then obtain l where l: "cc_conn (bc_calls s ! i) = Some l" "bc_conn s = Some l"
    using client_invD(2) [OF assms(1), of "bc_calls s ! i"] by (auto simp: call_ok_def call_shape_def holder_def)
  moreover from l have "l < length (bc_conns s)" using client_invD(4) [OF assms(1), of l] by (simp add: owners_def)
  ultimately show thesis using that by blast
qed

lemma connect_setup_inv:
  assumes "client_inv (view H s)" "at_call i s = Some CSetup"
  shows "client_inv (view H (connect_setup H r i s))"
proof -
  obtain l where l: "cc_conn (bc_calls s ! i) = Some l" "l < length (bc_conns s)" using at_setup [OF assms] .
  have "client_inv (view H (goto i pc' (snd (hk_setup H r i s))))" if "pc' = CShake \<or> (\<exists>e. pc' = CFail e)" for pc'
    by (rule stage_inv [OF assms _ setup_view [OF l, of r]]) (use that in auto)
  then show ?thesis by (cases "hk_setup H r i s") (simp add: connect_setup_def split: option.splits)
qed

lemma connect_postAuth_inv:
  assumes "client_inv (view H s)" "at_call i s = Some CPostAuth"
  shows "client_inv (view H (connect_postAuth H r i s))"
proof -
  have "client_inv (view H (goto i pc' (snd (hk_postAuth H r i s))))" if "pc' = CStart \<or> (\<exists>e. pc' = CFail e)" for pc'
    by (rule stage_inv [OF assms _ disjI1 [OF postAuth_view]]) (use that in auto)
  then show ?thesis by (cases "hk_postAuth H r i s") (simp add: connect_postAuth_def split: option.splits)
qed

lemma connect_start_inv:
  assumes "client_inv (view H s)" "at_call i s = Some CStart"
  shows "client_inv (view H (connect_start i s))"
proof -
  have "view H (s\<lparr>bc_core := StartLifecycle (bc_core s)\<rparr>) = view H s" by (simp add: view_def StartLifecycle_def)
  then show ?thesis using stage_inv [OF assms, of "s\<lparr>bc_core := StartLifecycle (bc_core s)\<rparr>"] by (simp add: connect_start_def)
qed

lemmas connect_moves_inv = connect_check_inv connect_dial_inv connect_setup_inv connect_postAuth_inv connect_start_inv

lemma connect_step_inv:
  assumes "client_inv (view H s)"
  shows "\<exists>s'. connect_step E H op s = Some s' \<and> client_inv (view H s')"
proof (cases op)
  case KConnect
  then show ?thesis using connect_call_inv [OF assms] by (simp add: view_def)
next
  case (KGuard i)
  then show ?thesis using assms guard_inv [OF assms] by (simp split: option.splits connect_pc.splits)
next
  case (KShake i rnd reply)
  then show ?thesis using assms shake_inv [OF assms] by simp
next
  case (KFail i)
  then show ?thesis using assms close_goto_inv [OF assms] by (simp split: option.splits connect_pc.splits)
next
  case (KClean i)
  then show ?thesis using assms connect_clean_inv [OF assms] by (simp split: option.splits connect_pc.splits)
qed (use assms app_close_inv [OF assms] connect_moves_inv [OF assms] in simp_all)

lemma connect_run_inv:
  assumes "client_inv (view H s)"
  shows "\<exists>s'. connect_run E H ops s = Some s' \<and> client_inv (view H s')"
  using assms
proof (induction ops arbitrary: s)
  case (Cons op ops)
  then show ?case using connect_step_inv [OF Cons.prems, of E op] by auto
qed simp

end

lemma app_close_ends: "\<not> ct_closeOnce (bc_core s) \<Longrightarrow> ct_closed (bc_core (app_closed E H (app_close E s)))"
  using close_ends(1) [of "bc_core s" E]
  by (simp add: app_closed_def app_close_def close_ends(2) trans_close_def on_conn_def split: option.splits)

section \<open>A call alone returns\<close>

fun stage :: "connect_pc \<Rightarrow> nat" where
  "stage CCheck = 0" | "stage CDial = 1" | "stage (CGuard l) = 2" | "stage CSetup = 3" | "stage CShake = 4" | "stage CPostAuth = 5"
| "stage CStart = 6" | "stage (CFail e) = 7" | "stage (CClean e) = 8" | "stage (CReturned r) = 9"

definition stage_op :: "answers \<Rightarrow> nat \<Rightarrow> nat \<Rightarrow> connect_op" where
  "stage_op A i k = [KCheck i, KDial i (an_dial A), KGuard i, KSetup i (an_control A), KShake i (an_rnd A) (an_reply A), KPostAuth i (an_data A),
     KStart i, KFail i, KClean i] ! k"

definition reached :: "nat \<Rightarrow> nat \<Rightarrow> 'c bclient \<Rightarrow> bool" where
  "reached i k s \<longleftrightarrow> i < length (bc_calls s) \<and> k \<le> stage (cc_pc (bc_calls s ! i)) \<and> \<not> bc_closing s"

lemma goto_reached: "i < length (bc_calls t) \<Longrightarrow> \<not> bc_closing t \<Longrightarrow> k \<le> stage pc \<Longrightarrow> reached i k (goto i pc t)"
  by (simp add: reached_def goto_def set_call_def)

lemma view_frame: "view H t = v \<Longrightarrow> bc_calls t = v_calls v \<and> bc_closing t = v_closing v"
  by auto

lemma skip_stage:
  assumes "reached i (Suc k) s" "k < 9"
  shows "connect_step E H (stage_op A i k) s = Some s"
proof -
  have "at_call i s = Some (cc_pc (bc_calls s ! i))" "k \<noteq> stage (cc_pc (bc_calls s ! i))" using assms(1) by (auto simp: reached_def at_call_def)
  then show ?thesis using assms(2)
    by (cases "cc_pc (bc_calls s ! i)") (auto simp: stage_op_def less_Suc_eq numeral_eq_Suc)
qed

context connector
begin

lemma guard_frame:
  "length (bc_calls (snd (hk_guard H l i s))) = length (bc_calls s) \<and> bc_closing (snd (hk_guard H l i s)) = bc_closing s"
proof -
  have "bc_conn s = Some j \<Longrightarrow> view H (snd (hk_guard H l i s)) = (view H s)\<lparr>v_flags := (v_flags (view H s))[l := True]\<rparr>" for j
    using guard_held by blast
  then show ?thesis using guard_free [of s l i] by (cases "bc_conn s") (auto dest: view_frame)
qed

lemma setup_frame:
  assumes "client_inv (view H s)" "at_call i s = Some CSetup"
  shows "bc_calls (snd (hk_setup H r i s)) = bc_calls s \<and> bc_closing (snd (hk_setup H r i s)) = bc_closing s"
proof -
  obtain l where "cc_conn (bc_calls s ! i) = Some l" "l < length (bc_conns s)" using at_setup [OF assms] .
  from setup_view [OF this, of r] show ?thesis by (auto dest: view_frame)
qed

lemma clean_frame:
  assumes "client_inv (view H s)" "at_call i s = Some (CClean e)"
  obtains t where "hk_clean H i s = Some t" "bc_calls t = bc_calls s" "bc_closing t = bc_closing s"
proof (cases "cc_conn (bc_calls s ! i)")
  case None
  then show thesis using that clean_other by blast
next
  case (Some l)
  have i: "i < length (bc_calls s)" "cc_pc (bc_calls s ! i) = CClean e" using assms(2) by (simp_all add: at_call_Some)
  then have "call_ok (view H s) (bc_calls s ! i)" using client_invD(2) [OF assms(1)] by simp
  then have "bc_conn s = Some l" using i(2) Some by (simp add: call_ok_def holder_def)
  then show thesis using clean_own [OF Some] that by (auto dest: view_frame)
qed

text \<open>The stage a call is at is left by the operation that belongs to it.\<close>

lemma leave_stage:
  assumes "client_inv (view H s)" "i < length (bc_calls s)" "\<not> bc_closing s" "k < 9" "stage (cc_pc (bc_calls s ! i)) = k"
    "connect_step E H (stage_op A i k) s = Some s'"
  shows "reached i (Suc k) s'"
proof -
  have at: "at_call i s = Some (cc_pc (bc_calls s ! i))" using assms(2) by (simp add: at_call_def)
  note st = assms(2,3,5,6) at
  show ?thesis
  proof (cases "cc_pc (bc_calls s ! i)")
    case (CGuard l)
    then show ?thesis using st guard_frame [of l i s]
      by (cases "hk_guard H l i s") (auto simp: stage_op_def connect_guard_def numeral_eq_Suc split: option.splits intro!: goto_reached)
  next
    case CSetup
    then show ?thesis using st setup_frame [OF assms(1), of i "an_control A"]
      by (cases "hk_setup H (an_control A) i s") (auto simp: stage_op_def connect_setup_def numeral_eq_Suc split: option.splits intro!: goto_reached)
  next
    case CShake
    then show ?thesis using st
      by (auto simp: stage_op_def connect_shake_def on_conn_def numeral_eq_Suc Let_def split: option.splits prod.splits if_splits intro!: goto_reached)
  next
    case CPostAuth
    then show ?thesis using st view_frame [OF postAuth_view [of "an_data A" i s]]
      by (cases "hk_postAuth H (an_data A) i s") (auto simp: stage_op_def connect_postAuth_def numeral_eq_Suc split: option.splits intro!: goto_reached)
  next
    case (CFail e)
    then show ?thesis using st
      by (auto simp: stage_op_def connect_fail_def trans_close_def on_conn_def numeral_eq_Suc split: option.splits if_splits intro!: goto_reached)
  next
    case (CClean e)
    with at obtain t where "hk_clean H i s = Some t" "bc_calls t = bc_calls s" "bc_closing t = bc_closing s"
      using clean_frame [OF assms(1)] by metis
    then show ?thesis using CClean st by (auto simp: stage_op_def connect_clean_def numeral_eq_Suc intro!: goto_reached)
  qed (use st assms(4) in \<open>auto simp: stage_op_def connect_check_def connect_dial_def connect_start_def numeral_eq_Suc
      split: option.splits intro!: goto_reached\<close>)
qed

lemma take_stage:
  assumes "client_inv (view H s)" "reached i k s" "k < 9"
  shows "\<exists>s'. connect_step E H (stage_op A i k) s = Some s' \<and> client_inv (view H s') \<and> reached i (Suc k) s'"
proof (cases "reached i (Suc k) s")
  case True
  then show ?thesis using assms skip_stage by blast
next
  case False
  then have "stage (cc_pc (bc_calls s ! i)) = k" "i < length (bc_calls s)" "\<not> bc_closing s" using assms(2) by (auto simp: reached_def)
  then show ?thesis using connect_step_inv [OF assms(1)] leave_stage assms by metis
qed

lemma stages_run:
  assumes "client_inv (view H s)" "reached i k s" "k \<le> 9"
  shows "\<exists>s'. connect_run E H (map (stage_op A i) [k ..< 9]) s = Some s' \<and> client_inv (view H s') \<and> reached i 9 s'"
  using assms
proof (induction "9 - k" arbitrary: k s)
  case (Suc n)
  obtain s1 where s1: "connect_step E H (stage_op A i k) s = Some s1" "client_inv (view H s1)" "reached i (Suc k) s1"
    using take_stage [OF Suc.prems(1,2)] Suc.hyps(2) by fastforce
  have "map (stage_op A i) [k ..< 9] = stage_op A i k # map (stage_op A i) [Suc k ..< 9]" using Suc.hyps(2) by (simp add: upt_conv_Cons)
  then show ?case using s1 Suc.hyps(1) [of "Suc k" s1] Suc.hyps(2) by simp
qed simp

lemma connect_alone_returns:
  assumes "client_inv (view H s)" "\<not> bc_closing s"
  shows "\<exists>s' r. connect_alone A H s = Some s' \<and> client_inv (view H s') \<and> at_call (length (bc_calls s)) s' = Some (CReturned r)"
proof -
  let ?i = "length (bc_calls s)"
  obtain s1 where s1: "connect_step (an_env A) H KConnect s = Some s1" "client_inv (view H s1)" using connect_step_inv [OF assms(1)] by blast
  then have "reached ?i 0 s1" using assms(2) by (auto simp: reached_def)
  then obtain s' where s': "connect_run (an_env A) H (map (stage_op A ?i) [0 ..< 9]) s1 = Some s'" "client_inv (view H s')" "reached ?i 9 s'"
    using stages_run [OF s1(2)] by blast
  have "map (stage_op A ?i) [0 ..< 9] = [KCheck ?i, KDial ?i (an_dial A), KGuard ?i, KSetup ?i (an_control A), KShake ?i (an_rnd A) (an_reply A),
       KPostAuth ?i (an_data A), KStart ?i, KFail ?i, KClean ?i]" (is "_ = ?ops")
  proof -
    have l: "length ?ops = 9" by simp
    have "stage_op A ?i = (!) ?ops" by (simp add: stage_op_def fun_eq_iff)
    with map_nth [of ?ops, unfolded l] show ?thesis by (simp only:)
  qed
  then have "connect_alone A H s = Some s'" unfolding connect_alone_def Let_def connect_run.simps(2) [of _ _ KConnect] s1(1) option.case using s'(1) by (simp only:)
  moreover have "\<exists>r. cc_pc (bc_calls s' ! ?i) = CReturned r" using s'(3) by (cases "cc_pc (bc_calls s' ! ?i)") (simp_all add: reached_def)
  ultimately show ?thesis using s'(2,3) by (auto simp: at_call_def reached_def)
qed

end

section \<open>Properties\<close>

text \<open>
  The promise: every connection ever dialled is closed, or the client holds it, or a call has just dialled it and not yet offered it; at most one
  call holds the client's connection; a call that returned without an error holds it, and it is open unless the client has been closed.
\<close>

definition connect_safe :: "'c hooks \<Rightarrow> 'c bclient \<Rightarrow> bool" where
  "connect_safe H s \<longleftrightarrow>
    (\<forall>l < length (bc_conns s). hk_closed H (bc_conns s ! l) \<or> bc_conn s = Some l \<or> (\<exists>i. at_call i s = Some (CGuard l))) \<and>
    length (filter (\<lambda>a. holder a = 1) (bc_calls s)) \<le> 1 \<and>
    (\<forall>i. at_call i s = Some (CReturned None) \<longrightarrow> (\<exists>l. cc_conn (bc_calls s ! i) = Some l \<and> bc_conn s = Some l \<and>
       (ct_closed (bc_core s) \<or> \<not> hk_closed H (bc_conns s ! l))))"

lemma client_inv_safe:
  assumes "client_inv (view H s)"
  shows "connect_safe H s"
proof -
  have "hk_closed H (bc_conns s ! l) \<or> bc_conn s = Some l \<or> (\<exists>i. at_call i s = Some (CGuard l))" if l: "l < length (bc_conns s)" for l
  proof (cases "hk_closed H (bc_conns s ! l) \<or> bc_conn s = Some l")
    case False
    then have "0 < sum_list (map (guards l) (bc_calls s))" using client_invD(5) [OF assms, of l] l by (simp add: owners_def)
    then have "\<not> (\<forall>a \<in> set (bc_calls s). guards l a = 0)" by (metis less_irrefl map_idI sum_list_0 map_cong)
    then obtain a where "a \<in> set (bc_calls s)" "guards l a \<noteq> 0" by blast
    then show ?thesis by (auto simp: guards_def in_set_conv_nth at_call_Some split: if_splits)
  qed blast
  moreover have "length (filter (\<lambda>a. holder a = 1) as) = sum_list (map holder as)" for as by (induction as) (auto simp: holder_def)
  moreover have "\<exists>l. cc_conn (bc_calls s ! i) = Some l \<and> bc_conn s = Some l \<and> (ct_closed (bc_core s) \<or> \<not> hk_closed H (bc_conns s ! l))"
    if i: "at_call i s = Some (CReturned None)" for i
  proof -
    have "call_ok (view H s) (bc_calls s ! i)" "cc_pc (bc_calls s ! i) = CReturned None"
      using client_invD(2) [OF assms] i by (simp_all add: at_call_Some)
    then obtain l where l: "cc_conn (bc_calls s ! i) = Some l" "bc_conn s = Some l"
        "ct_closed (bc_core s) \<or> \<not> map (hk_closed H) (bc_conns s) ! l" by (auto simp: call_ok_def call_shape_def holder_def)
    moreover have "l < length (bc_conns s)" using client_invD(4) [OF assms, of l] l by (simp add: owners_def)
    ultimately show ?thesis by simp
  qed
  ultimately show ?thesis using client_invD(1) [OF assms] unfolding connect_safe_def by simp
qed

lemma fresh_inv: "client_inv (view H (fresh_client core))"
  by (simp add: view_def fresh_client_def client_inv_def owners_def)

text \<open>
  C14. \<open>Connect\<close> leaks no connection, in either binding. However many calls of \<open>Connect\<close> race each other, calls of \<open>Close\<close> and the failure of
  a session, at any stage (the dial, the second check of the dial callback, the control stream, the handshake, the data stream), no step
  dereferences a missing connection; every dialled connection is closed, or is the client's one, or is in the hands of a call that is about to
  offer it; at most one call holds the client's connection; and a call that has succeeded holds it, open unless the client has ended.
\<close>

theorem connect_leaks_nothing:
  "(\<exists>s. connect_run E v1_hooks ops (fresh_client core) = Some s \<and> connect_safe v1_hooks s) \<and>
   (\<exists>s. connect_run E ntls_hooks ops (fresh_client core) = Some s \<and> connect_safe ntls_hooks s)"
  using v1c.connect_run_inv [OF fresh_inv, of E ops core] ntlsc.connect_run_inv [OF fresh_inv, of E ops core]
    client_inv_safe [of v1_hooks] client_inv_safe [of ntls_hooks] by blast

text \<open>Two calls race: the second one has dialled when the first has stored its connection, and its own is closed.\<close>

theorem racing_connect_closes:
  "\<exists>s. connect_run E ntls_hooks [KConnect, KConnect, KCheck 0, KCheck 1, KDial 0 None, KDial 1 None, KGuard 0, KGuard 1, KClean 1]
      (fresh_client (NewCoreClient False cfg)) = Some s \<and> bc_conns s = [False, True] \<and> bc_conn s = Some 0 \<and>
    at_call 1 s = Some (CReturned (Some race_error))"
  by (simp add: fresh_client_def ntls_hooks_def connect_check_def connect_dial_def connect_guard_def connect_clean_def ntls_guard_def ntls_clean_def
      at_call_def goto_def set_call_def on_conn_def NewCoreClient_def)



definition demo_answers :: answers where
  "demo_answers = \<lparr>an_env = demo_cenv, an_dial = None, an_control = None, an_rnd = Inr [5], an_reply = Inr (TypeHelloNak, []), an_data = None\<rparr>"


end
