(* ===== verification/Credentials.thy ===== *)
theory Credentials
  imports Validation Client
begin

text \<open>
  Credentials and sockets: \<open>internal/tlshelper\<close>, the functions that build the TLS and TLCP configurations in \<open>v1/transport.go\<close> and
  \<open>ntls/transport.go\<close>, \<open>Listen\<close> and \<open>Dial\<close> of both bindings. The file system, \<open>crypto/x509\<close>, the TLCP library, the sockets and the QUIC
  library are parameters (\<open>os\<close>, \<open>net\<close>); a certificate, a key pair or a pool is known by the bytes it was read from.
\<close>

section \<open>Parameters\<close>

record os =
  os_ReadFile :: "string \<Rightarrow> bytes res"
  os_AppendCertsFromPEM :: "bytes \<Rightarrow> bool"
  os_LoadX509KeyPair :: "string \<Rightarrow> string \<Rightarrow> bytes res"
  os_LoadDualCertificateFiles :: "string \<Rightarrow> string \<Rightarrow> string \<Rightarrow> string \<Rightarrow> (bytes \<times> bytes) res"
  os_LoadRootCAs :: "string \<Rightarrow> go_err option"

datatype ClientAuthType = NoClientCert | RequestClientCert | RequireAndVerifyClientCert

definition VersionTLS13 :: u32 where "VersionTLS13 = 0x0304"

text \<open>The fields of \<open>tls.Config\<close> the bindings set; the zero value of \<open>ClientAuth\<close> asks for no certificate.\<close>

record tls_Config =
  tc_Certificates :: "bytes list"
  tc_MinVersion :: u32
  tc_NextProtos :: "string list"
  tc_ServerName :: string
  tc_InsecureSkipVerify :: bool
  tc_ClientCAs :: "bytes option"
  tc_RootCAs :: "bytes option"
  tc_ClientAuth :: ClientAuthType

record tlcp_Config =
  pc_ServerName :: string
  pc_InsecureSkipVerify :: bool
  pc_SignCertificate :: "bytes option"
  pc_EncCertificate :: "bytes option"
  pc_rootCAs :: "string option"

definition tlcp_NewConfig :: tlcp_Config where
  "tlcp_NewConfig = \<lparr>pc_ServerName = [], pc_InsecureSkipVerify = False, pc_SignCertificate = None, pc_EncCertificate = None, pc_rootCAs = None\<rparr>"

section \<open>tlshelper\<close>

datatype pool_result = NoCAFile | PoolErr go_err | Pool bytes

definition LoadCertPool :: "os \<Rightarrow> string \<Rightarrow> pool_result" where
  "LoadCertPool S caFile =
    (if caFile = [] then NoCAFile
     else case os_ReadFile S caFile of
         Inl e \<Rightarrow> PoolErr e
       | Inr caData \<Rightarrow> if \<not> os_AppendCertsFromPEM S caData then PoolErr (OtherErr ''failed to append CA certificates'' None) else Pool caData)"

definition LoadKeyPair :: "os \<Rightarrow> string \<Rightarrow> string \<Rightarrow> bytes res" where
  "LoadKeyPair S certFile keyFile = os_LoadX509KeyPair S certFile keyFile"

section \<open>QUIC\<close>

definition v1_ALPNProtocol :: string where "v1_ALPNProtocol = ''mbta/1''"
definition defaultIdleTimeout :: time where "defaultIdleTimeout = 60 * 10 ^ 9"
definition defaultMaxIncomingStreams :: i64 where "defaultMaxIncomingStreams = 256"
definition initialStreamWnd :: u64 where "initialStreamWnd = 8 * 1024 * 1024"
definition initialConnectionWnd :: u64 where "initialConnectionWnd = 64 * 1024 * 1024"
definition maxStreamWnd :: u64 where "maxStreamWnd = 16 * 1024 * 1024"
definition maxConnectionWnd :: u64 where "maxConnectionWnd = 128 * 1024 * 1024"

record ServerCredentials =
  sc_CertFile :: string
  sc_KeyFile :: string
  sc_CAFile :: string
  sc_ClientAuth :: string

record QUICServerConfig =
  qs_Address :: string
  qs_Credentials :: "ServerCredentials option"
  qs_MaxIncomingStreams :: i64
  qs_IdleTimeout :: time

record v1_ClientCredentials =
  vc_CAFile :: string
  vc_CertFile :: string
  vc_KeyFile :: string
  vc_ServerName :: string
  vc_InsecureSkipVerify :: bool

record QUICClientConfig =
  qd_Server :: string
  qd_Credentials :: "v1_ClientCredentials option"
  qd_IdleTimeout :: time

definition buildServerTLS :: "os \<Rightarrow> ServerCredentials option \<Rightarrow> tls_Config res" where
  "buildServerTLS S creds =
    (case creds of
       None \<Rightarrow> Inl (NewError LocalCredential ''server credentials required'')
     | Some cfg \<Rightarrow>
     case LoadKeyPair S (sc_CertFile cfg) (sc_KeyFile cfg) of
       Inl e \<Rightarrow> Inl (WrapError LocalTLS ''load server cert/key'' e)
     | Inr cert \<Rightarrow>
     let tc = \<lparr>tc_Certificates = [cert], tc_MinVersion = VersionTLS13, tc_NextProtos = [v1_ALPNProtocol], tc_ServerName = [],
           tc_InsecureSkipVerify = False, tc_ClientCAs = None, tc_RootCAs = None, tc_ClientAuth = NoClientCert\<rparr> in
     case (case LoadCertPool S (sc_CAFile cfg) of
         Pool pool \<Rightarrow> Inr (tc\<lparr>tc_ClientCAs := Some pool\<rparr>)
       | PoolErr e \<Rightarrow> Inl (WrapError LocalTLS ''load server CA'' e)
       | NoCAFile \<Rightarrow> Inr tc) of
       Inl e \<Rightarrow> Inl e
     | Inr tc \<Rightarrow>
     if sc_ClientAuth cfg = [] \<or> sc_ClientAuth cfg = ''none'' then Inr (tc\<lparr>tc_ClientAuth := NoClientCert\<rparr>)
     else if sc_ClientAuth cfg = ''request'' then Inr (tc\<lparr>tc_ClientAuth := RequestClientCert\<rparr>)
     else if sc_ClientAuth cfg = ''require-and-verify'' then Inr (tc\<lparr>tc_ClientAuth := RequireAndVerifyClientCert\<rparr>)
     else Inl (NewError LocalConfig (''invalid ClientAuth value: '' @ sc_ClientAuth cfg)))"

text \<open>The part both TLS clients share; the configuration before the certificates.\<close>

definition client_tls :: "os \<Rightarrow> tls_Config \<Rightarrow> string \<Rightarrow> string \<Rightarrow> string \<Rightarrow> tls_Config res" where
  "client_tls S tc caFile certFile keyFile =
    (case (case LoadCertPool S caFile of
         Pool pool \<Rightarrow> Inr (tc\<lparr>tc_RootCAs := Some pool\<rparr>)
       | PoolErr e \<Rightarrow> Inl (WrapError LocalTLS ''load client CA'' e)
       | NoCAFile \<Rightarrow> Inr tc) of
       Inl e \<Rightarrow> Inl e
     | Inr tc \<Rightarrow>
     if certFile \<noteq> [] \<and> keyFile \<noteq> [] then
       (case LoadKeyPair S certFile keyFile of
          Inl e \<Rightarrow> Inl (WrapError LocalTLS ''load client cert/key'' e)
        | Inr cert \<Rightarrow> Inr (tc\<lparr>tc_Certificates := [cert]\<rparr>))
     else Inr tc)"

definition buildClientTLS :: "os \<Rightarrow> v1_ClientCredentials option \<Rightarrow> tls_Config res" where
  "buildClientTLS S creds =
    (case creds of
       None \<Rightarrow> Inl (NewError LocalCredential
         ''client TLS credentials required: provide ClientCredentials or explicitly set InsecureSkipVerify for development'')
     | Some cfg \<Rightarrow>
         client_tls S
           \<lparr>tc_Certificates = [], tc_MinVersion = VersionTLS13, tc_NextProtos = [v1_ALPNProtocol], tc_ServerName = vc_ServerName cfg,
            tc_InsecureSkipVerify = vc_InsecureSkipVerify cfg, tc_ClientCAs = None, tc_RootCAs = None, tc_ClientAuth = NoClientCert\<rparr>
           (vc_CAFile cfg) (vc_CertFile cfg) (vc_KeyFile cfg))"

record quic_Config =
  qc_MaxIncomingStreams :: i64
  qc_MaxIdleTimeout :: time
  qc_KeepAlivePeriod :: time
  qc_InitialStreamReceiveWindow :: u64
  qc_InitialConnectionReceiveWindow :: u64
  qc_MaxStreamReceiveWindow :: u64
  qc_MaxConnectionReceiveWindow :: u64
  qc_Allow0RTT :: bool
  qc_EnableDatagrams :: bool

text \<open>Sockets, QUIC and TCP; each function says how the call ends.\<close>

record net =
  n_ResolveUDPAddr :: "string \<Rightarrow> go_err option"
  n_ListenUDP :: "string \<Rightarrow> go_err option" \<comment> \<open>the address, empty for a wildcard\<close>
  n_quic_Listen :: "tls_Config \<Rightarrow> quic_Config \<Rightarrow> go_err option"
  n_quic_Dial :: "tls_Config \<Rightarrow> quic_Config \<Rightarrow> go_err option"
  n_tls_Listen :: "string \<Rightarrow> tls_Config \<Rightarrow> go_err option"
  n_tlcp_Listen :: "string \<Rightarrow> tlcp_Config \<Rightarrow> go_err option"
  n_tls_Dial :: "string \<Rightarrow> tls_Config \<Rightarrow> go_err option"
  n_tcp_Dial :: "string \<Rightarrow> go_err option"
  n_SetDeadline :: "time \<Rightarrow> go_err option"
  n_tlcp_Handshake :: "time \<Rightarrow> tlcp_Config \<Rightarrow> go_err option" \<comment> \<open>with the deadline it runs under\<close>

definition server_quicCfg :: "QUICServerConfig \<Rightarrow> quic_Config" where
  "server_quicCfg cfg =
    (let idleTimeout = (if qs_IdleTimeout cfg \<le> 0 then defaultIdleTimeout else qs_IdleTimeout cfg);
         maxStreams = (if sint (qs_MaxIncomingStreams cfg) \<le> 0 then defaultMaxIncomingStreams else qs_MaxIncomingStreams cfg)
     in \<lparr>qc_MaxIncomingStreams = maxStreams, qc_MaxIdleTimeout = idleTimeout, qc_KeepAlivePeriod = idleTimeout div 3,
         qc_InitialStreamReceiveWindow = initialStreamWnd, qc_InitialConnectionReceiveWindow = initialConnectionWnd,
         qc_MaxStreamReceiveWindow = maxStreamWnd, qc_MaxConnectionReceiveWindow = maxConnectionWnd, qc_Allow0RTT = True,
         qc_EnableDatagrams = True\<rparr>)"

definition client_quicCfg :: "QUICClientConfig \<Rightarrow> quic_Config" where
  "client_quicCfg cfg =
    (let idleTimeout = (if qd_IdleTimeout cfg \<le> 0 then defaultIdleTimeout else qd_IdleTimeout cfg)
     in \<lparr>qc_MaxIncomingStreams = 0, qc_MaxIdleTimeout = idleTimeout, qc_KeepAlivePeriod = idleTimeout div 3,
         qc_InitialStreamReceiveWindow = initialStreamWnd, qc_InitialConnectionReceiveWindow = initialConnectionWnd,
         qc_MaxStreamReceiveWindow = maxStreamWnd, qc_MaxConnectionReceiveWindow = maxConnectionWnd, qc_Allow0RTT = False,
         qc_EnableDatagrams = True\<rparr>)"

text \<open>The second component counts the sockets the call leaves open.\<close>

definition v1_Listen :: "os \<Rightarrow> net \<Rightarrow> QUICServerConfig \<Rightarrow> go_err option \<times> nat" where
  "v1_Listen S N cfg =
    (case buildServerTLS S (qs_Credentials cfg) of
       Inl e \<Rightarrow> (Some e, 0)
     | Inr tc \<Rightarrow>
     case n_ResolveUDPAddr N (qs_Address cfg) of
       Some e \<Rightarrow> (Some (WrapError LocalTransport ''resolve address'' e), 0)
     | None \<Rightarrow>
     case n_ListenUDP N (qs_Address cfg) of
       Some e \<Rightarrow> (Some (WrapError LocalTransport ''listen UDP'' e), 0)
     | None \<Rightarrow>
     let sockets = (1 :: nat) in
     case n_quic_Listen N tc (server_quicCfg cfg) of
       Some e \<Rightarrow> (Some (WrapError LocalTransport ''listen QUIC'' e), sockets - 1)
     | None \<Rightarrow> (None, sockets))"

text \<open>\<open>Listener.Close\<close> closes the QUIC listener, which leaves the socket alone, and then the socket.\<close>

definition v1_Listener_Close :: "nat \<Rightarrow> nat" where
  "v1_Listener_Close sockets = sockets - 1"

definition v1_Dial :: "os \<Rightarrow> net \<Rightarrow> QUICClientConfig \<Rightarrow> go_err option \<times> nat" where
  "v1_Dial S N cfg =
    (case buildClientTLS S (qd_Credentials cfg) of
       Inl e \<Rightarrow> (Some e, 0)
     | Inr tc \<Rightarrow>
     case n_ResolveUDPAddr N (qd_Server cfg) of
       Some e \<Rightarrow> (Some (WrapError LocalTransport ''resolve address'' e), 0)
     | None \<Rightarrow>
     case n_ListenUDP N [] of
       Some e \<Rightarrow> (Some (WrapError LocalTransport ''listen UDP'' e), 0)
     | None \<Rightarrow>
     let sockets = (1 :: nat) in
     case n_quic_Dial N tc (client_quicCfg cfg) of
       Some e \<Rightarrow> (Some (WrapError LocalTransport ''dial QUIC'' e), sockets - 1)
     | None \<Rightarrow> (None, sockets))"


section \<open>TCP\<close>

definition ntls_ALPNProtocol :: string where "ntls_ALPNProtocol = ''mbta-ntls/1''"
definition ALPNProtocolTLS :: string where "ALPNProtocolTLS = ''mbta-tls/1''"
definition tlcpHandshakeTimeout :: time where "tlcpHandshakeTimeout = 30 * 10 ^ 9"

text \<open>The fields of \<open>ntls.ServerConfig\<close> that say how to listen.\<close>

record ntls_listen =
  nl_Address :: string
  nl_TLSMode :: bool
  nl_CertFile :: string
  nl_KeyFile :: string
  nl_SignCertFile :: string
  nl_SignKeyFile :: string
  nl_EncCertFile :: string
  nl_EncKeyFile :: string
  nl_CAFile :: string

record ntls_ClientCredentials =
  nc_TLSMode :: bool
  nc_CertFile :: string
  nc_KeyFile :: string
  nc_SignCertFile :: string
  nc_SignKeyFile :: string
  nc_EncCertFile :: string
  nc_EncKeyFile :: string
  nc_CAFile :: string
  nc_ServerName :: string
  nc_InsecureSkipVerify :: bool

text \<open>\<open>LoadRootCAs\<close> where a CA file is given.\<close>

definition with_root :: "os \<Rightarrow> string \<Rightarrow> tlcp_Config \<Rightarrow> tlcp_Config res" where
  "with_root S caFile tc =
    (if caFile = [] then Inr tc
     else case os_LoadRootCAs S caFile of
         Some e \<Rightarrow> Inl (WrapError LocalTLS ''load root CA'' e)
       | None \<Rightarrow> Inr (tc\<lparr>pc_rootCAs := Some caFile\<rparr>))"

definition with_dual :: "os \<Rightarrow> string \<Rightarrow> string \<Rightarrow> string \<Rightarrow> string \<Rightarrow> tlcp_Config \<Rightarrow> tlcp_Config res" where
  "with_dual S signCert signKey encCert encKey tc =
    (case os_LoadDualCertificateFiles S signCert signKey encCert encKey of
       Inl e \<Rightarrow> Inl (WrapError LocalTLS ''load dual SM2 cert'' e)
     | Inr (sign, enc) \<Rightarrow> Inr (tc\<lparr>pc_SignCertificate := Some sign, pc_EncCertificate := Some enc\<rparr>))"

definition buildServerTLCP :: "os \<Rightarrow> (tlcp_Config \<Rightarrow> go_err option) \<Rightarrow> ntls_listen \<Rightarrow> tlcp_Config res" where
  "buildServerTLCP S validate cfg =
    (case with_dual S (nl_SignCertFile cfg) (nl_SignKeyFile cfg) (nl_EncCertFile cfg) (nl_EncKeyFile cfg) tlcp_NewConfig of
       Inl e \<Rightarrow> Inl e
     | Inr tc \<Rightarrow>
     case with_root S (nl_CAFile cfg) tc of
       Inl e \<Rightarrow> Inl e
     | Inr tc \<Rightarrow>
     case validate tc of
       Some e \<Rightarrow> Inl (WrapError LocalTLS ''validate tlcp config'' e)
     | None \<Rightarrow> Inr tc)"

definition buildClientTLCP :: "os \<Rightarrow> ntls_ClientCredentials option \<Rightarrow> string \<Rightarrow> tlcp_Config res" where
  "buildClientTLCP S creds serverAddr =
    (case creds of
       None \<Rightarrow> Inl (NewError LocalCredential ''ntls credentials required'')
     | Some cfg \<Rightarrow>
     let tc = tlcp_NewConfig\<lparr>pc_ServerName := nc_ServerName cfg, pc_InsecureSkipVerify := nc_InsecureSkipVerify cfg\<rparr>;
         tc = (if pc_ServerName tc = [] \<and> \<not> pc_InsecureSkipVerify tc then
                 (case SplitHostPort serverAddr of
                    Inr (host, port) \<Rightarrow> if host \<noteq> [] then tc\<lparr>pc_ServerName := host\<rparr> else tc
                  | Inl _ \<Rightarrow> tc)
               else tc) in
     case (if nc_SignCertFile cfg \<noteq> [] \<and> nc_EncCertFile cfg \<noteq> []
           then with_dual S (nc_SignCertFile cfg) (nc_SignKeyFile cfg) (nc_EncCertFile cfg) (nc_EncKeyFile cfg) tc else Inr tc) of
       Inl e \<Rightarrow> Inl e
     | Inr tc \<Rightarrow> with_root S (nc_CAFile cfg) tc)"

definition buildServerTLS13 :: "os \<Rightarrow> ntls_listen \<Rightarrow> tls_Config res" where
  "buildServerTLS13 S cfg =
    (case LoadKeyPair S (nl_CertFile cfg) (nl_KeyFile cfg) of
       Inl e \<Rightarrow> Inl (WrapError LocalTLS ''load TLS1.3 cert/key'' e)
     | Inr cert \<Rightarrow>
     let tc = \<lparr>tc_Certificates = [cert], tc_MinVersion = VersionTLS13, tc_NextProtos = [ALPNProtocolTLS], tc_ServerName = [],
           tc_InsecureSkipVerify = False, tc_ClientCAs = None, tc_RootCAs = None, tc_ClientAuth = NoClientCert\<rparr> in
     case LoadCertPool S (nl_CAFile cfg) of
         Pool pool \<Rightarrow> Inr (tc\<lparr>tc_ClientCAs := Some pool, tc_ClientAuth := RequireAndVerifyClientCert\<rparr>)
       | PoolErr e \<Rightarrow> Inl (WrapError LocalTLS ''load server CA'' e)
       | NoCAFile \<Rightarrow> Inr tc)"

definition buildClientTLS13 :: "os \<Rightarrow> ntls_ClientCredentials option \<Rightarrow> tls_Config res" where
  "buildClientTLS13 S creds =
    (case creds of
       None \<Rightarrow> Inl (NewError LocalCredential ''TLS1.3 credentials required'')
     | Some cfg \<Rightarrow>
         client_tls S
           \<lparr>tc_Certificates = [], tc_MinVersion = VersionTLS13, tc_NextProtos = [ALPNProtocolTLS], tc_ServerName = nc_ServerName cfg,
            tc_InsecureSkipVerify = nc_InsecureSkipVerify cfg, tc_ClientCAs = None, tc_RootCAs = None, tc_ClientAuth = NoClientCert\<rparr>
           (nc_CAFile cfg) (nc_CertFile cfg) (nc_KeyFile cfg))"

definition validateDualSM2Creds :: "ntls_ClientCredentials \<Rightarrow> go_err option" where
  "validateDualSM2Creds c =
    (if (nc_SignCertFile c \<noteq> []) \<noteq> (nc_SignKeyFile c \<noteq> []) then
       Some (NewError LocalCredential ''SignCertFile and SignKeyFile must both be set or both empty'')
     else if (nc_EncCertFile c \<noteq> []) \<noteq> (nc_EncKeyFile c \<noteq> []) then
       Some (NewError LocalCredential ''EncCertFile and EncKeyFile must both be set or both empty'')
     else if (nc_SignCertFile c \<noteq> []) \<noteq> (nc_EncCertFile c \<noteq> []) then
       Some (NewError LocalCredential ''TLCP client certificates require both sign and enc pairs (or neither)'')
     else None)"

definition validateTLS13Creds :: "ntls_ClientCredentials \<Rightarrow> go_err option" where
  "validateTLS13Creds c =
    (if (nc_CertFile c \<noteq> []) \<noteq> (nc_KeyFile c \<noteq> []) then Some (NewError LocalCredential ''CertFile and KeyFile must both be set or both empty'')
     else None)"

definition ntls_Listen :: "os \<Rightarrow> net \<Rightarrow> (tlcp_Config \<Rightarrow> go_err option) \<Rightarrow> ntls_listen \<Rightarrow> go_err option" where
  "ntls_Listen S N validate cfg =
    (if nl_TLSMode cfg then
       (case buildServerTLS13 S cfg of
          Inl e \<Rightarrow> Some e
        | Inr tc \<Rightarrow> map_option (WrapError LocalTransport ''listen tls1.3'') (n_tls_Listen N (nl_Address cfg) tc))
     else
       (case buildServerTLCP S validate cfg of
          Inl e \<Rightarrow> Some e
        | Inr tc \<Rightarrow> map_option (WrapError LocalTransport ''listen tlcp'') (n_tlcp_Listen N (nl_Address cfg) tc)))"

text \<open>
  \<open>Dial\<close>. The goroutine's result is an error or a connection, with the number of sockets that are open then; \<open>remaining\<close> is what is left of the
  context's deadline. The other side of the channel is the caller, or, when the context ends first, a goroutine that closes what comes.
\<close>

definition ntls_dial_goroutine :: "os \<Rightarrow> net \<Rightarrow> time \<Rightarrow> time option \<Rightarrow> string \<Rightarrow> ntls_ClientCredentials option \<Rightarrow> go_err option \<times> nat" where
  "ntls_dial_goroutine S N now remaining server creds =
    (if (case creds of None \<Rightarrow> False | Some c \<Rightarrow> nc_TLSMode c) then
       (case buildClientTLS13 S creds of
          Inl e \<Rightarrow> (Some e, 0)
        | Inr tc \<Rightarrow> (case n_tls_Dial N server tc of Some e \<Rightarrow> (Some e, 0) | None \<Rightarrow> (None, 1)))
     else
       (case buildClientTLCP S creds server of
          Inl e \<Rightarrow> (Some e, 0)
        | Inr tc \<Rightarrow>
        case n_tcp_Dial N server of
          Some e \<Rightarrow> (Some e, 0)
        | None \<Rightarrow>
        let raw = (1 :: nat);
            handshakeTimeout = (case remaining of Some r \<Rightarrow> if r < tlcpHandshakeTimeout then r else tlcpHandshakeTimeout | None \<Rightarrow> tlcpHandshakeTimeout) in
        case n_SetDeadline N (now + handshakeTimeout) of
          Some e \<Rightarrow> (Some e, raw - 1)
        | None \<Rightarrow>
        case n_tlcp_Handshake N (now + handshakeTimeout) tc of
          Some e \<Rightarrow> (Some e, raw - 1)
        | None \<Rightarrow> (None, raw)))"

definition ntls_Dial :: "os \<Rightarrow> net \<Rightarrow> time \<Rightarrow> time option \<Rightarrow> go_err option \<Rightarrow> string \<Rightarrow> ntls_ClientCredentials option \<Rightarrow> go_err option \<times> nat" where
  "ntls_Dial S N now remaining ctxDone server creds =
    (case (ctxDone, ntls_dial_goroutine S N now remaining server creds) of
       (Some e, (None, sockets)) \<Rightarrow> (Some e, sockets - 1)
     | (Some e, (Some _, sockets)) \<Rightarrow> (Some e, sockets)
     | (None, (Some e, sockets)) \<Rightarrow> (Some (WrapError LocalTransport ''dial'' e), sockets)
     | (None, (None, sockets)) \<Rightarrow> (None, sockets))"

section \<open>Properties\<close>

text \<open>What a pool holds was read from the configured file and parsed.\<close>

definition ca_loaded :: "os \<Rightarrow> string \<Rightarrow> bytes option \<Rightarrow> bool" where
  "ca_loaded S caFile pool \<longleftrightarrow> (case pool of None \<Rightarrow> caFile = [] | Some d \<Rightarrow> caFile \<noteq> [] \<and> os_ReadFile S caFile = Inr d \<and> os_AppendCertsFromPEM S d)"

lemma LoadCertPool_loaded:
  "LoadCertPool S f = Pool d \<Longrightarrow> ca_loaded S f (Some d)" "LoadCertPool S f = NoCAFile \<Longrightarrow> ca_loaded S f None"
  by (auto simp: LoadCertPool_def ca_loaded_def split: if_splits sum.splits)

lemma client_tls_Inr:
  assumes "client_tls S tc ca cert key = Inr tc'" "tc_RootCAs tc = None"
  shows "tc_MinVersion tc' = tc_MinVersion tc" "tc_NextProtos tc' = tc_NextProtos tc" "tc_InsecureSkipVerify tc' = tc_InsecureSkipVerify tc"
    "ca_loaded S ca (tc_RootCAs tc')"
  using assms LoadCertPool_loaded [of S ca]
  by (auto simp: client_tls_def split: pool_result.splits if_splits sum.splits)

text \<open>
  TLS configurations fail closed. A server configuration, of the QUIC binding or of the TCP binding in TLS mode, is built only if its key pair
  loads, requires TLS 1.3 and names its own protocol; a CA file that is named is read and parsed, never skipped. Client certificates are
  required and verified exactly as asked: in the QUIC binding by the value \<open>require-and-verify\<close>, where a value that is not one of the four known
  ones is an error, in the TCP binding by naming a CA file. A client configuration requires TLS 1.3, skips verification only if told to,
  and a CA file that is named is the pool it verifies against.
\<close>

theorem tls_fails_closed:
  "(buildServerTLS S (Some sc) = Inr tc \<longrightarrow> tc_MinVersion tc = VersionTLS13 \<and> tc_NextProtos tc = [v1_ALPNProtocol] \<and>
     (\<exists>cert. os_LoadX509KeyPair S (sc_CertFile sc) (sc_KeyFile sc) = Inr cert \<and> tc_Certificates tc = [cert]) \<and>
     ca_loaded S (sc_CAFile sc) (tc_ClientCAs tc) \<and> sc_ClientAuth sc \<in> {[], ''none'', ''request'', ''require-and-verify''} \<and>
     (tc_ClientAuth tc = RequireAndVerifyClientCert \<longleftrightarrow> sc_ClientAuth sc = ''require-and-verify'')) \<and>
   (buildServerTLS13 S nl = Inr tc \<longrightarrow> tc_MinVersion tc = VersionTLS13 \<and> tc_NextProtos tc = [ALPNProtocolTLS] \<and>
     ca_loaded S (nl_CAFile nl) (tc_ClientCAs tc) \<and> (tc_ClientAuth tc = RequireAndVerifyClientCert \<longleftrightarrow> nl_CAFile nl \<noteq> [])) \<and>
   (buildClientTLS S (Some vc) = Inr tc \<longrightarrow> tc_MinVersion tc = VersionTLS13 \<and> tc_NextProtos tc = [v1_ALPNProtocol] \<and>
     ca_loaded S (vc_CAFile vc) (tc_RootCAs tc) \<and> tc_InsecureSkipVerify tc = vc_InsecureSkipVerify vc) \<and>
   (buildClientTLS13 S (Some nc) = Inr tc \<longrightarrow> tc_MinVersion tc = VersionTLS13 \<and> tc_NextProtos tc = [ALPNProtocolTLS] \<and>
     ca_loaded S (nc_CAFile nc) (tc_RootCAs tc) \<and> tc_InsecureSkipVerify tc = nc_InsecureSkipVerify nc)"
proof (intro conjI impI)
  assume *: "buildServerTLS S (Some sc) = Inr tc"
  show "tc_MinVersion tc = VersionTLS13" "tc_NextProtos tc = [v1_ALPNProtocol]"
    "\<exists>cert. os_LoadX509KeyPair S (sc_CertFile sc) (sc_KeyFile sc) = Inr cert \<and> tc_Certificates tc = [cert]"
    "ca_loaded S (sc_CAFile sc) (tc_ClientCAs tc)" "sc_ClientAuth sc \<in> {[], ''none'', ''request'', ''require-and-verify''}"
    "tc_ClientAuth tc = RequireAndVerifyClientCert \<longleftrightarrow> sc_ClientAuth sc = ''require-and-verify''"
    using * LoadCertPool_loaded [of S "sc_CAFile sc"]
    by (auto simp: buildServerTLS_def LoadKeyPair_def Let_def split: sum.splits pool_result.splits if_splits)
next
  assume *: "buildServerTLS13 S nl = Inr tc"
  show "tc_MinVersion tc = VersionTLS13" "tc_NextProtos tc = [ALPNProtocolTLS]" "ca_loaded S (nl_CAFile nl) (tc_ClientCAs tc)"
    "tc_ClientAuth tc = RequireAndVerifyClientCert \<longleftrightarrow> nl_CAFile nl \<noteq> []"
    using * LoadCertPool_loaded [of S "nl_CAFile nl"]
    by (auto simp: buildServerTLS13_def Let_def ca_loaded_def split: sum.splits pool_result.splits)
qed (auto simp: buildClientTLS_def buildClientTLS13_def dest: client_tls_Inr)

text \<open>A server with a CA that asks for certificates, on files that all hold the same bytes.\<close>

definition demo_os :: os where
  "demo_os = \<lparr>os_ReadFile = \<lambda>f. Inr [1, 2, 3], os_AppendCertsFromPEM = \<lambda>d. True, os_LoadX509KeyPair = \<lambda>c k. Inr [7],
     os_LoadDualCertificateFiles = \<lambda>a b c d. Inr ([8], [9]), os_LoadRootCAs = \<lambda>f. None\<rparr>"

definition demo_server_creds :: ServerCredentials where
  "demo_server_creds = \<lparr>sc_CertFile = ''s.pem'', sc_KeyFile = ''s.key'', sc_CAFile = ''ca.pem'', sc_ClientAuth = ''require-and-verify''\<rparr>"

theorem tls_fails_closed_witness:
  "\<exists>tc. buildServerTLS demo_os (Some demo_server_creds) = Inr tc \<and> tc_MinVersion tc = VersionTLS13 \<and> tc_ClientAuth tc = RequireAndVerifyClientCert \<and>
     ca_loaded demo_os ''ca.pem'' (tc_ClientCAs tc)"
proof -
  obtain tc where "buildServerTLS demo_os (Some demo_server_creds) = Inr tc"
    by (simp add: buildServerTLS_def demo_os_def demo_server_creds_def LoadKeyPair_def LoadCertPool_def)
  with tls_fails_closed [of demo_os demo_server_creds tc] show ?thesis by (simp add: demo_server_creds_def)
qed

text \<open>
  No socket is lost on the way up. \<open>Listen\<close> of the QUIC binding and \<open>Dial\<close> of both leave no socket open when they fail, whatever failed (the
  configuration, the address, the socket, the deadline, the QUIC or the TLCP handshake, or the context ending while the dial goes on), and
  exactly one when they succeed; closing the listener closes it.
\<close>

theorem sockets_accounted:
  "(case v1_Listen S N q of (Some e, n) \<Rightarrow> n = 0 | (None, n) \<Rightarrow> n = 1 \<and> v1_Listener_Close n = 0) \<and>
   (case v1_Dial S N d of (Some e, n) \<Rightarrow> n = 0 | (None, n) \<Rightarrow> n = 1) \<and>
   (case ntls_Dial S N now remaining ctxDone server creds of (Some e, n) \<Rightarrow> n = 0 | (None, n) \<Rightarrow> n = 1 \<and> ctxDone = None)"
proof -
  have "case ntls_dial_goroutine S N now remaining server creds of (Some e, n) \<Rightarrow> n = 0 | (None, n) \<Rightarrow> n = 1"
    unfolding ntls_dial_goroutine_def Let_def
    by (cases "case creds of None \<Rightarrow> False | Some c \<Rightarrow> nc_TLSMode c"; simp split: option.splits sum.splits)
  then have "case ntls_Dial S N now remaining ctxDone server creds of (Some e, n) \<Rightarrow> n = 0 | (None, n) \<Rightarrow> n = 1 \<and> ctxDone = None"
    unfolding ntls_Dial_def by (cases "ntls_dial_goroutine S N now remaining server creds") (simp split: option.splits)
  moreover have "case v1_Listen S N q of (Some e, n) \<Rightarrow> n = 0 | (None, n) \<Rightarrow> n = 1 \<and> v1_Listener_Close n = 0"
    by (simp add: v1_Listen_def v1_Listener_Close_def split: option.splits sum.splits)
  moreover have "case v1_Dial S N d of (Some e, n) \<Rightarrow> n = 0 | (None, n) \<Rightarrow> n = 1"
    by (simp add: v1_Dial_def split: option.splits sum.splits)
  ultimately show ?thesis by blast
qed

text \<open>
  The credentials of a TCP client that passed the checks of \<open>NewClient\<close> are all used: with a certificate file named, the client has a certificate.
  The QUIC client has no such check, and drops a certificate named without its key.
\<close>

theorem ntls_credentials_used:
  assumes "if nc_TLSMode c then validateTLS13Creds c = None else validateDualSM2Creds c = None"
  shows "(nc_TLSMode c \<and> buildClientTLS13 S (Some c) = Inr tc \<longrightarrow> (tc_Certificates tc = [] \<longleftrightarrow> nc_CertFile c = [] \<and> nc_KeyFile c = [])) \<and>
    (\<not> nc_TLSMode c \<and> buildClientTLCP S (Some c) addr = Inr pc \<longrightarrow>
      (pc_SignCertificate pc = None \<longleftrightarrow> nc_SignCertFile c = [] \<and> nc_SignKeyFile c = [] \<and> nc_EncCertFile c = [] \<and> nc_EncKeyFile c = []))"
proof (intro conjI impI)
  assume *: "nc_TLSMode c \<and> buildClientTLS13 S (Some c) = Inr tc"
  then have "(nc_CertFile c = []) = (nc_KeyFile c = [])" using assms by (simp add: validateTLS13Creds_def split: if_splits)
  with * show "tc_Certificates tc = [] \<longleftrightarrow> nc_CertFile c = [] \<and> nc_KeyFile c = []"
    by (auto simp: buildClientTLS13_def client_tls_def split: pool_result.splits if_splits sum.splits)
next
  assume *: "\<not> nc_TLSMode c \<and> buildClientTLCP S (Some c) addr = Inr pc"
  then have "(nc_SignCertFile c = []) = (nc_SignKeyFile c = [])" "(nc_EncCertFile c = []) = (nc_EncKeyFile c = [])"
      "(nc_SignCertFile c = []) = (nc_EncCertFile c = [])"
    using assms by (simp_all add: validateDualSM2Creds_def split: if_splits)
  with * show "pc_SignCertificate pc = None \<longleftrightarrow> nc_SignCertFile c = [] \<and> nc_SignKeyFile c = [] \<and> nc_EncCertFile c = [] \<and> nc_EncKeyFile c = []"
    by (auto simp: buildClientTLCP_def with_dual_def with_root_def tlcp_NewConfig_def Let_def split: if_splits sum.splits option.splits prod.splits)
qed

theorem v1_drops_client_certificate:
  assumes "vc_CertFile c \<noteq> []" "vc_KeyFile c = []" "buildClientTLS S (Some c) = Inr tc"
  shows "tc_Certificates tc = []"
  using assms by (auto simp: buildClientTLS_def client_tls_def split: pool_result.splits)

end
