(* ===== verification/ServerLoop.thy ===== *)
theory ServerLoop
  imports Channels
begin

text \<open>
  The server shell of \<open>internal/binding\<close>: \<open>Run\<close> with its run state, the accept loop with its connection slots, the goroutine that closes the
  listener, \<open>handleConn\<close> and \<open>Close\<close>. Any number of calls of \<open>Run\<close>, of handlers and of calls of \<open>Close\<close> interleave; a step of the model is
  what one goroutine does between two operations other goroutines can observe. Giving a slot back from an empty semaphore would block for
  good: such a step has no result.

  The listeners belong to the bindings. A listener is known by its index in the list of those that \<open>Listen\<close> made, with a flag that says
  whether it has been closed; \<open>acc\<close> is its \<open>Accept\<close>, of which one thing matters: \<open>net.ErrClosed\<close> comes from a closed listener only.
\<close>

section \<open>Back-off\<close>

definition nextBackoff :: "i64 \<Rightarrow> i64" where
  "nextBackoff prev =
    (if prev = 0 then 5 * 1000000
     else let n = prev * 2 in if sint (1000000000 :: i64) < sint n \<or> sint n \<le> 0 then 1000000000 else n)"

section \<open>State\<close>

definition DefaultMaxConcurrentConns :: int where "DefaultMaxConcurrentConns = 10000"

definition runStateStopped :: u32 where "runStateStopped = 0"
definition runStateStarting :: u32 where "runStateStarting = 1"
definition runStateRunning :: u32 where "runStateRunning = 2"

lemmas run_states = runStateStopped_def runStateStarting_def runStateRunning_def

text \<open>Where a call of \<open>Run\<close> is.\<close>

datatype run_pc =
    RCas                          \<comment> \<open>before the compare-and-swap\<close>
  | RListen
  | RPublish nat                  \<comment> \<open>the listener is there, not yet stored\<close>
  | RAcquire                      \<comment> \<open>waiting for a slot or the end of the context\<close>
  | RAccept                       \<comment> \<open>holding a slot\<close>
  | RBackoff
  | RLeave                        \<comment> \<open>the accept loop has returned\<close>
  | RReset "go_err option"        \<comment> \<open>before the deferred change of the run state\<close>
  | RReturned "go_err option"

record run =
  ru_pc :: run_pc
  ru_backoff :: i64
  ru_listener :: "nat option"
  ru_ctxDone :: bool
  ru_done :: bool
  ru_watching :: bool

datatype conn_pc = HSetup | HHandle | HRelease | HGone

record conn_handler =
  hd_pc :: conn_pc
  hd_closeConn :: bool    \<comment> \<open>\<open>closeConn\<close> was called\<close>
  hd_trClosed :: bool     \<comment> \<open>the transport's \<open>Close\<close> was called\<close>

record bserver =
  bs_runState :: u32
  bs_listener :: "nat option"
  bs_connSem :: "unit gochan"
  bs_listeners :: "bool list"
  bs_runs :: "run list"
  bs_handlers :: "conn_handler list"

definition binding_NewServer :: "int \<Rightarrow> bserver" where
  "binding_NewServer maxConns =
    \<lparr>bs_runState = runStateStopped, bs_listener = None,
     bs_connSem = make_chan (nat (if maxConns \<le> 0 then DefaultMaxConcurrentConns else maxConns)),
     bs_listeners = [], bs_runs = [], bs_handlers = []\<rparr>"

section \<open>Run\<close>

definition set_run :: "nat \<Rightarrow> run \<Rightarrow> bserver \<Rightarrow> bserver" where
  "set_run i r s = s\<lparr>bs_runs := (bs_runs s)[i := r]\<rparr>"

text \<open>The call: a \<open>RunSpec\<close> with a missing function is refused at once.\<close>

definition run_call :: "bool \<Rightarrow> bserver \<Rightarrow> bserver" where
  "run_call specComplete s = s\<lparr>bs_runs := bs_runs s @
    [\<lparr>ru_pc = (if specComplete then RCas
        else RReturned (Some (OtherErr ''binding.Server.Run: RunSpec fields must all be non-nil'' None))),
      ru_backoff = 0, ru_listener = None, ru_ctxDone = False, ru_done = False, ru_watching = False\<rparr>]\<rparr>"

definition run_cas :: "nat \<Rightarrow> bserver \<Rightarrow> bserver" where
  "run_cas i s =
    (let r = bs_runs s ! i in
     if bs_runState s = runStateStopped then set_run i (r\<lparr>ru_pc := RListen\<rparr>) (s\<lparr>bs_runState := runStateStarting\<rparr>)
     else set_run i (r\<lparr>ru_pc := RReturned (Some (OtherErr ''binding.Server.Run: already running'' None))\<rparr>) s)"

definition run_listen :: "go_err option \<Rightarrow> nat \<Rightarrow> bserver \<Rightarrow> bserver" where
  "run_listen err i s =
    (let r = bs_runs s ! i in
     case err of
       Some e \<Rightarrow> set_run i (r\<lparr>ru_pc := RReset (Some e)\<rparr>) (s\<lparr>bs_runState := runStateStopped\<rparr>)
     | None \<Rightarrow> set_run i (r\<lparr>ru_pc := RPublish (length (bs_listeners s))\<rparr>) (s\<lparr>bs_listeners := bs_listeners s @ [False]\<rparr>))"

text \<open>Under the mutex: the listener and the state \<open>running\<close>; then the goroutine that waits for the end of the context.\<close>

definition run_publish :: "nat \<Rightarrow> nat \<Rightarrow> bserver \<Rightarrow> bserver" where
  "run_publish l i s =
    (let r = bs_runs s ! i in
     set_run i (r\<lparr>ru_pc := RAcquire, ru_listener := Some l, ru_watching := True\<rparr>)
       (s\<lparr>bs_listener := Some l, bs_runState := runStateRunning\<rparr>))"

definition close_listener :: "nat \<Rightarrow> bserver \<Rightarrow> bserver" where
  "close_listener l s = s\<lparr>bs_listeners := (bs_listeners s)[l := True]\<rparr>"

definition run_watch :: "bool \<Rightarrow> nat \<Rightarrow> bserver \<Rightarrow> bserver" where
  "run_watch pickCtx i s =
    (let r = bs_runs s ! i; s' = set_run i (r\<lparr>ru_watching := False\<rparr>) s;
         stop = (case ru_listener r of Some l \<Rightarrow> close_listener l s' | None \<Rightarrow> s')
     in if \<not> ru_watching r then s
        else if ru_ctxDone r \<and> (pickCtx \<or> \<not> ru_done r) then stop
        else if ru_done r then (if ru_ctxDone r then stop else s')
        else s)"

text \<open>The two deferred functions, last registered first: \<open>close(done)\<close>, then the run state, which both branches leave stopped.\<close>

definition run_leave :: "nat \<Rightarrow> bserver \<Rightarrow> bserver" where
  "run_leave i s = (let r = bs_runs s ! i in set_run i (r\<lparr>ru_pc := RReset None, ru_done := True\<rparr>) s)"

definition run_reset :: "go_err option \<Rightarrow> nat \<Rightarrow> bserver \<Rightarrow> bserver" where
  "run_reset err i s =
    (let r = bs_runs s ! i in
     set_run i (r\<lparr>ru_pc := RReturned err\<rparr>)
       (if bs_runState s = runStateRunning then s\<lparr>bs_runState := runStateStopped\<rparr> else s\<lparr>bs_runState := runStateStopped\<rparr>))"

section \<open>The accept loop\<close>

definition sem_release :: "bserver \<Rightarrow> bserver option" where
  "sem_release s = (case chan_recv (bs_connSem s) of Got _ c \<Rightarrow> Some (s\<lparr>bs_connSem := c\<rparr>) | _ \<Rightarrow> None)"

text \<open>The first \<open>select\<close>; \<open>pickCtx\<close> is its choice when both cases are ready.\<close>

definition loop_acquire :: "bool \<Rightarrow> nat \<Rightarrow> bserver \<Rightarrow> bserver" where
  "loop_acquire pickCtx i s =
    (let r = bs_runs s ! i in
     if pickCtx \<and> ru_ctxDone r then set_run i (r\<lparr>ru_pc := RLeave\<rparr>) s
     else case chan_send () (bs_connSem s) of
         Sent c \<Rightarrow> set_run i (r\<lparr>ru_pc := RAccept\<rparr>) (s\<lparr>bs_connSem := c\<rparr>)
       | _ \<Rightarrow> if ru_ctxDone r then set_run i (r\<lparr>ru_pc := RLeave\<rparr>) s else s)"

datatype accept_result = AConn | AErrClosed | AErr

definition loop_accept :: "(bool \<Rightarrow> nat \<Rightarrow> accept_result) \<Rightarrow> nat \<Rightarrow> nat \<Rightarrow> bserver \<Rightarrow> bserver option" where
  "loop_accept acc n i s =
    (let r = bs_runs s ! i in
     case acc (case ru_listener r of Some l \<Rightarrow> bs_listeners s ! l | None \<Rightarrow> False) n of
       AConn \<Rightarrow> Some (set_run i (r\<lparr>ru_pc := RAcquire, ru_backoff := 0\<rparr>)
           (s\<lparr>bs_handlers := bs_handlers s @ [\<lparr>hd_pc = HSetup, hd_closeConn = False, hd_trClosed = False\<rparr>]\<rparr>))
     | e \<Rightarrow> map_option
         (if ru_ctxDone r \<or> e = AErrClosed then set_run i (r\<lparr>ru_pc := RLeave\<rparr>)
          else set_run i (r\<lparr>ru_pc := RBackoff, ru_backoff := nextBackoff (ru_backoff r)\<rparr>))
         (sem_release s))"

definition loop_sleep :: "bool \<Rightarrow> nat \<Rightarrow> bserver \<Rightarrow> bserver" where
  "loop_sleep pickCtx i s =
    (let r = bs_runs s ! i in set_run i (r\<lparr>ru_pc := (if pickCtx \<and> ru_ctxDone r then RLeave else RAcquire)\<rparr>) s)"

section \<open>A connection\<close>

definition set_handler :: "nat \<Rightarrow> conn_handler \<Rightarrow> bserver \<Rightarrow> bserver" where
  "set_handler j h s = s\<lparr>bs_handlers := (bs_handlers s)[j := h]\<rparr>"

datatype transport_result = TrOk | TrErr | TrNil | TrPanic

definition handle_setup :: "transport_result \<Rightarrow> nat \<Rightarrow> bserver \<Rightarrow> bserver" where
  "handle_setup t j s =
    (let h = bs_handlers s ! j in
     set_handler j (if t = TrOk then h\<lparr>hd_pc := HHandle\<rparr> else h\<lparr>hd_pc := HRelease, hd_closeConn := True\<rparr>) s)"

text \<open>
  \<open>CoreHandler.Handle\<close> returns or panics; its transport is closed in either case, and after a panic the connection too. What \<open>Handle\<close> does
  is the subject of the protocol theories.
\<close>

definition handle_end :: "bool \<Rightarrow> nat \<Rightarrow> bserver \<Rightarrow> bserver" where
  "handle_end panics j s =
    (let h = bs_handlers s ! j in
     set_handler j (h\<lparr>hd_pc := HRelease, hd_trClosed := True, hd_closeConn := (panics \<or> hd_closeConn h)\<rparr>) s)"

definition handle_release :: "nat \<Rightarrow> bserver \<Rightarrow> bserver option" where
  "handle_release j s = map_option (set_handler j ((bs_handlers s ! j)\<lparr>hd_pc := HGone\<rparr>)) (sem_release s)"

section \<open>Addr and Close\<close>

definition binding_Addr :: "(nat \<Rightarrow> string option) \<Rightarrow> bserver \<Rightarrow> string" where
  "binding_Addr addrOf s =
    (if bs_runState s \<noteq> runStateRunning then []
     else case bs_listener s of None \<Rightarrow> [] | Some l \<Rightarrow> (case addrOf l of None \<Rightarrow> [] | Some a \<Rightarrow> a))"

definition binding_Close :: "bserver \<Rightarrow> bserver" where
  "binding_Close s =
    (if bs_runState s \<noteq> runStateRunning then s
     else let s = s\<lparr>bs_runState := runStateStopped\<rparr>
          in case bs_listener s of Some l \<Rightarrow> close_listener l s | None \<Rightarrow> s)"

section \<open>Interleavings\<close>

datatype srv_op =
    SRun bool | SCancel nat | SCas nat | SListen nat "go_err option" | SPublish nat
  | SAcquire nat bool | SAccept nat nat | SSleep nat bool | SLeave nat | SReset nat | SWatch nat bool
  | STransport nat transport_result | SHandled nat bool | SRelease nat | SClose

definition at_run :: "nat \<Rightarrow> bserver \<Rightarrow> run_pc option" where
  "at_run i s = (if i < length (bs_runs s) then Some (ru_pc (bs_runs s ! i)) else None)"

definition at_conn :: "nat \<Rightarrow> bserver \<Rightarrow> conn_pc option" where
  "at_conn j s = (if j < length (bs_handlers s) then Some (hd_pc (bs_handlers s ! j)) else None)"

text \<open>A goroutine that is not where the step starts does nothing.\<close>

fun srv_step :: "(bool \<Rightarrow> nat \<Rightarrow> accept_result) \<Rightarrow> srv_op \<Rightarrow> bserver \<Rightarrow> bserver option" where
  "srv_step acc (SRun b) s = Some (run_call b s)"
| "srv_step acc (SCancel i) s =
    Some (if i < length (bs_runs s) then set_run i ((bs_runs s ! i)\<lparr>ru_ctxDone := True\<rparr>) s else s)"
| "srv_step acc (SCas i) s = Some (if at_run i s = Some RCas then run_cas i s else s)"
| "srv_step acc (SListen i e) s = Some (if at_run i s = Some RListen then run_listen e i s else s)"
| "srv_step acc (SPublish i) s = Some (case at_run i s of Some (RPublish l) \<Rightarrow> run_publish l i s | _ \<Rightarrow> s)"
| "srv_step acc (SAcquire i b) s = Some (if at_run i s = Some RAcquire then loop_acquire b i s else s)"
| "srv_step acc (SAccept i n) s = (if at_run i s = Some RAccept then loop_accept acc n i s else Some s)"
| "srv_step acc (SSleep i b) s = Some (if at_run i s = Some RBackoff then loop_sleep b i s else s)"
| "srv_step acc (SLeave i) s = Some (if at_run i s = Some RLeave then run_leave i s else s)"
| "srv_step acc (SReset i) s = Some (case at_run i s of Some (RReset e) \<Rightarrow> run_reset e i s | _ \<Rightarrow> s)"
| "srv_step acc (SWatch i b) s = Some (if i < length (bs_runs s) then run_watch b i s else s)"
| "srv_step acc (STransport j t) s = Some (if at_conn j s = Some HSetup then handle_setup t j s else s)"
| "srv_step acc (SHandled j b) s = Some (if at_conn j s = Some HHandle then handle_end b j s else s)"
| "srv_step acc (SRelease j) s = (if at_conn j s = Some HRelease then handle_release j s else Some s)"
| "srv_step acc SClose s = Some (binding_Close s)"

fun srv_run :: "(bool \<Rightarrow> nat \<Rightarrow> accept_result) \<Rightarrow> srv_op list \<Rightarrow> bserver \<Rightarrow> bserver option" where
  "srv_run acc [] s = Some s"
| "srv_run acc (op # ops) s = (case srv_step acc op s of None \<Rightarrow> None | Some s' \<Rightarrow> srv_run acc ops s')"

definition accept_law :: "(bool \<Rightarrow> nat \<Rightarrow> accept_result) \<Rightarrow> bool" where
  "accept_law acc \<longleftrightarrow> (\<forall>n. acc False n \<noteq> AErrClosed)"


section \<open>Back-off bounds\<close>

lemma sint_double: "- (2 ^ 62) \<le> sint p \<Longrightarrow> sint p < 2 ^ 62 \<Longrightarrow> sint (p * 2 :: i64) = 2 * sint p"
  by (simp add: sint_word_ariths signed_take_bit_int_eq_self)

lemma nextBackoff_bounds: "0 < sint (nextBackoff p) \<and> sint (nextBackoff p) \<le> 1000000000"
  by (auto simp: nextBackoff_def Let_def)

lemma nextBackoff_double:
  assumes "0 < sint p" "sint p \<le> 1000000000"
  shows "sint (nextBackoff p) = min (2 * sint p) 1000000000"
proof -
  have "p \<noteq> 0" using assms by auto
  then show ?thesis using assms sint_double [of p] by (auto simp: nextBackoff_def Let_def)
qed

text \<open>The waits after failures in a row: 5 ms, 10 ms and so on, and from the ninth one second.\<close>

lemma backoff_sequence: "sint ((nextBackoff ^^ Suc n) 0) = min (5000000 * 2 ^ n) 1000000000"
proof (induction n)
  case 0
  then show ?case by (simp add: nextBackoff_def)
next
  case (Suc n)
  have "(0 :: int) < min (5000000 * 2 ^ n) 1000000000" by simp
  with nextBackoff_double [of "(nextBackoff ^^ Suc n) 0"] Suc show ?case by simp
qed

section \<open>Slots\<close>

definition holds_slot :: "run \<Rightarrow> nat" where
  "holds_slot r = (if ru_pc r = RAccept then 1 else 0)"

definition serving :: "conn_handler \<Rightarrow> nat" where
  "serving h = (if hd_pc h = HGone then 0 else 1)"

definition slot_inv :: "nat \<Rightarrow> bserver \<Rightarrow> bool" where
  "slot_inv n s \<longleftrightarrow> gc_cap (bs_connSem s) = n \<and> \<not> gc_closed (bs_connSem s) \<and> length (gc_buf (bs_connSem s)) \<le> n \<and>
    length (gc_buf (bs_connSem s)) = sum_list (map holds_slot (bs_runs s)) + sum_list (map serving (bs_handlers s)) \<and>
    (\<forall>h \<in> set (bs_handlers s). hd_pc h = HRelease \<or> hd_pc h = HGone \<longrightarrow> hd_closeConn h \<or> hd_trClosed h)"

lemma set_run_slots:
  assumes "slot_inv n s" "i < length (bs_runs s)" "(ru_pc r = RAccept) = (ru_pc (bs_runs s ! i) = RAccept)"
  shows "slot_inv n (set_run i r s)"
  using assms sum_list_map_update [OF assms(2), of holds_slot r] by (simp add: slot_inv_def set_run_def holds_slot_def)

lemma set_handler_slots:
  assumes "slot_inv n s" "j < length (bs_handlers s)" "(hd_pc h = HGone) = (hd_pc (bs_handlers s ! j) = HGone)"
    "hd_pc h = HRelease \<Longrightarrow> hd_closeConn h \<or> hd_trClosed h" "hd_pc h \<noteq> HGone"
  shows "slot_inv n (set_handler j h s)"
proof -
  have "\<forall>h' \<in> set ((bs_handlers s)[j := h]). hd_pc h' = HRelease \<or> hd_pc h' = HGone \<longrightarrow> hd_closeConn h' \<or> hd_trClosed h'"
    using assms set_update_subset_insert [of "bs_handlers s" j h] by (auto simp: slot_inv_def)
  then show ?thesis
    using assms sum_list_map_update [OF assms(2), of serving h] by (simp add: slot_inv_def set_handler_def serving_def)
qed

lemma slot_inv_cong:
  assumes "slot_inv n s" "bs_connSem s' = bs_connSem s" "bs_runs s' = bs_runs s" "bs_handlers s' = bs_handlers s"
  shows "slot_inv n s'"
  using assms by (simp add: slot_inv_def)

lemma at_run_Some: "at_run i s = Some pc \<longleftrightarrow> i < length (bs_runs s) \<and> ru_pc (bs_runs s ! i) = pc"
  by (auto simp: at_run_def)

lemma at_conn_Some: "at_conn j s = Some pc \<longleftrightarrow> j < length (bs_handlers s) \<and> hd_pc (bs_handlers s ! j) = pc"
  by (auto simp: at_conn_def)

text \<open>A slot changes hands: taken by a loop, given back by it, passed on to a handler, given back by the handler.\<close>

lemma acquire_slots:
  assumes "slot_inv n s" "at_run i s = Some RAcquire"
  shows "slot_inv n (loop_acquire b i s)"
proof (cases "chan_send () (bs_connSem s)")
  case (Sent c)
  let ?r = "(bs_runs s ! i)\<lparr>ru_pc := RAccept\<rparr>"
  have i: "i < length (bs_runs s)" "ru_pc (bs_runs s ! i) = RAcquire" using assms(2) by (simp_all add: at_run_Some)
  have "slot_inv n (set_run i ?r (s\<lparr>bs_connSem := c\<rparr>))"
    using assms(1) Sent i sum_list_map_update [OF i(1), of holds_slot ?r]
    by (simp add: slot_inv_def set_run_def holds_slot_def chan_send_Sent)
  then show ?thesis using Sent set_run_slots [OF assms(1) i(1)] i(2) by (simp add: loop_acquire_def Let_def)
next
  case SendBlocks
  then show ?thesis using assms set_run_slots [OF assms(1), of i] by (simp add: loop_acquire_def Let_def at_run_Some)
next
  case SendPanics
  then show ?thesis using assms by (simp add: slot_inv_def chan_send_Panics)
qed

lemma release_slots:
  assumes "slot_inv n s" "0 < length (gc_buf (bs_connSem s))"
  obtains c where "sem_release s = Some (s\<lparr>bs_connSem := c\<rparr>)" "gc_cap c = n" "\<not> gc_closed c"
    "length (gc_buf (bs_connSem s)) = Suc (length (gc_buf c))"
proof (cases "gc_buf (bs_connSem s)")
  case (Cons x xs)
  then show ?thesis using assms that [of "bs_connSem s\<lparr>gc_buf := xs\<rparr>"]
    by (simp add: sem_release_def chan_recv_def slot_inv_def)
qed (use assms in simp)

lemma accept_slots_step:
  assumes "slot_inv n s" "at_run i s = Some RAccept"
  shows "\<exists>s'. loop_accept acc k i s = Some s' \<and> slot_inv n s'"
proof -
  let ?r = "bs_runs s ! i"
  have i: "i < length (bs_runs s)" "ru_pc ?r = RAccept" using assms(2) by (simp_all add: at_run_Some)
  then have "0 < length (gc_buf (bs_connSem s))"
    using assms(1) holds_pos [of i "bs_runs s" holds_slot] by (simp add: slot_inv_def holds_slot_def)
  then obtain c where c: "sem_release s = Some (s\<lparr>bs_connSem := c\<rparr>)" "gc_cap c = n" "\<not> gc_closed c"
      "length (gc_buf (bs_connSem s)) = Suc (length (gc_buf c))"
    using release_slots [OF assms(1)] by metis
  have give: "slot_inv n (set_run i r (s\<lparr>bs_connSem := c\<rparr>))" if "ru_pc r \<noteq> RAccept" for r
    using assms(1) c i that sum_list_map_update [OF i(1), of holds_slot r] by (simp add: slot_inv_def set_run_def holds_slot_def)
  have pass: "slot_inv n (set_run i r (s\<lparr>bs_handlers := bs_handlers s @ [\<lparr>hd_pc = HSetup, hd_closeConn = False, hd_trClosed = False\<rparr>]\<rparr>))"
    if "ru_pc r \<noteq> RAccept" for r
    using assms(1) i that sum_list_map_update [OF i(1), of holds_slot r]
    by (auto simp: slot_inv_def set_run_def holds_slot_def serving_def)
  show ?thesis using c(1) give pass by (simp add: loop_accept_def Let_def split: accept_result.splits)
qed

lemma handler_release_slots:
  assumes "slot_inv n s" "at_conn j s = Some HRelease"
  shows "\<exists>s'. handle_release j s = Some s' \<and> slot_inv n s'"
proof -
  let ?h = "bs_handlers s ! j" and ?g = "(bs_handlers s ! j)\<lparr>hd_pc := HGone\<rparr>"
  have j: "j < length (bs_handlers s)" "hd_pc ?h = HRelease" using assms(2) by (simp_all add: at_conn_Some)
  then have "0 < length (gc_buf (bs_connSem s))"
    using assms(1) holds_pos [of j "bs_handlers s" serving] by (simp add: slot_inv_def serving_def)
  then obtain c where c: "sem_release s = Some (s\<lparr>bs_connSem := c\<rparr>)" "gc_cap c = n" "\<not> gc_closed c"
      "length (gc_buf (bs_connSem s)) = Suc (length (gc_buf c))"
    using release_slots [OF assms(1)] by metis
  have "hd_closeConn ?g \<or> hd_trClosed ?g" using assms(1) j nth_mem [OF j(1)] by (auto simp: slot_inv_def)
  then have "\<forall>h' \<in> set ((bs_handlers s)[j := ?g]). hd_pc h' = HRelease \<or> hd_pc h' = HGone \<longrightarrow> hd_closeConn h' \<or> hd_trClosed h'"
    using assms(1) set_update_subset_insert [of "bs_handlers s" j ?g] by (auto simp: slot_inv_def)
  then have "slot_inv n (set_handler j ?g (s\<lparr>bs_connSem := c\<rparr>))"
    using assms(1) c j sum_list_map_update [OF j(1), of serving ?g] by (simp add: slot_inv_def set_handler_def serving_def)
  then show ?thesis using c(1) by (simp add: handle_release_def)
qed


lemmas run_moves = run_cas_def run_listen_def run_publish_def run_leave_def run_reset_def loop_sleep_def

lemma run_call_slots: "slot_inv n s \<Longrightarrow> slot_inv n (run_call b s)"
  by (simp add: run_call_def slot_inv_def holds_slot_def)

lemma run_watch_cases:
  "run_watch b i s = s \<or> run_watch b i s = set_run i ((bs_runs s ! i)\<lparr>ru_watching := False\<rparr>) s \<or>
   (\<exists>l. run_watch b i s = close_listener l (set_run i ((bs_runs s ! i)\<lparr>ru_watching := False\<rparr>) s))"
  by (auto simp: run_watch_def Let_def split: option.splits)

lemma srv_step_slots:
  assumes "slot_inv n s"
  shows "\<exists>s'. srv_step acc op s = Some s' \<and> slot_inv n s'"
proof -
  have st: "slot_inv n (s\<lparr>bs_runState := x\<rparr>)" "slot_inv n (s\<lparr>bs_listener := l, bs_runState := x\<rparr>)"
    "slot_inv n (s\<lparr>bs_listeners := ls\<rparr>)" for x l ls
    by (rule slot_inv_cong [OF assms]; simp)+
  note runs = set_run_slots [OF assms] set_run_slots [OF st(1)] set_run_slots [OF st(2)] set_run_slots [OF st(3)]
  have cl: "slot_inv n t \<Longrightarrow> slot_inv n (close_listener l t)" for t l
    by (erule slot_inv_cong) (simp_all add: close_listener_def)
  show ?thesis
  proof (cases op)
    case (SWatch i b)
    have "slot_inv n (run_watch b i s)" if "i < length (bs_runs s)"
      using run_watch_cases [of b i s] assms runs(1) [OF that, of "(bs_runs s ! i)\<lparr>ru_watching := False\<rparr>"] cl by auto
    then show ?thesis using SWatch assms by simp
  next
    case SClose
    then show ?thesis using assms cl [OF st(1)] st(1) by (simp add: binding_Close_def Let_def split: option.splits)
  next
    case (STransport j t)
    have "slot_inv n (handle_setup t j s)" if "at_conn j s = Some HSetup"
      unfolding handle_setup_def Let_def by (rule set_handler_slots [OF assms]) (use that in \<open>auto simp: at_conn_Some\<close>)
    then show ?thesis using STransport assms by simp
  qed (use assms runs run_call_slots [OF assms] acquire_slots [OF assms] accept_slots_step [OF assms] handler_release_slots [OF assms]
      set_handler_slots [OF assms] in
      \<open>auto simp: run_moves handle_end_def Let_def at_run_Some at_conn_Some split: option.splits run_pc.splits if_splits\<close>)
qed


lemma srv_run_slots:
  assumes "slot_inv n s"
  shows "\<exists>s'. srv_run acc ops s = Some s' \<and> slot_inv n s'"
  using assms
proof (induction ops arbitrary: s)
  case (Cons op ops)
  then show ?case using srv_step_slots [OF Cons.prems, of acc op] by auto
qed simp

section \<open>Listeners\<close>

text \<open>
  A listener whose goroutine has ended is closed; one whose accept loop has returned is closed or has its context done, so that the
  goroutine, woken by \<open>done\<close>, closes it.
\<close>

definition run_listener_ok :: "bool list \<Rightarrow> run \<Rightarrow> bool" where
  "run_listener_ok ls r \<longleftrightarrow>
    (case ru_listener r of
       None \<Rightarrow> \<not> ru_done r \<and> (ru_pc r \<in> {RCas, RListen} \<or> (\<exists>l < length ls. ru_pc r = RPublish l) \<or>
         (\<exists>e. ru_pc r = RReset (Some e)) \<or> (\<exists>e. ru_pc r = RReturned (Some e)))
     | Some l \<Rightarrow> l < length ls \<and> (\<not> ru_watching r \<longrightarrow> ls ! l) \<and>
         (ru_pc r = RLeave \<or> ru_done r \<longrightarrow> ru_ctxDone r \<or> ls ! l) \<and>
         (ru_pc r \<in> {RAcquire, RAccept, RBackoff, RLeave} \<or> (ru_pc r = RReset None \<or> ru_pc r = RReturned None) \<and> ru_done r))"

definition listen_inv :: "bserver \<Rightarrow> bool" where
  "listen_inv s \<longleftrightarrow> (\<forall>r \<in> set (bs_runs s). run_listener_ok (bs_listeners s) r) \<and> (\<forall>l. bs_listener s = Some l \<longrightarrow> l < length (bs_listeners s))"

lemma run_listener_ok_mono:
  assumes "run_listener_ok ls r" "length ls \<le> length ls'" "\<And>l. l < length ls \<Longrightarrow> ls ! l \<Longrightarrow> ls' ! l"
  shows "run_listener_ok ls' r"
proof (cases "ru_listener r")
  case None
  then show ?thesis using assms(1,2) unfolding run_listener_ok_def by (auto intro: less_le_trans)
next
  case (Some l)
  then show ?thesis using assms(1,2) assms(3) [of l] unfolding run_listener_ok_def by simp linarith
qed

lemma set_run_listen:
  assumes "listen_inv s" "run_listener_ok (bs_listeners s) r"
  shows "listen_inv (set_run i r s)"
  using assms set_update_subset_insert [of "bs_runs s" i r] by (auto simp: listen_inv_def set_run_def)

lemma listen_inv_cong:
  assumes "listen_inv s" "bs_runs s' = bs_runs s" "bs_listeners s' = bs_listeners s" "bs_listener s' = bs_listener s"
  shows "listen_inv s'"
  using assms by (simp add: listen_inv_def)

lemma close_listener_inv:
  assumes "listen_inv s"
  shows "listen_inv (close_listener l s)"
proof -
  have "run_listener_ok (bs_listeners s) r \<Longrightarrow> run_listener_ok ((bs_listeners s)[l := True]) r" for r
    by (erule run_listener_ok_mono) (use nth_list_update_eq [of l] nth_list_update_neq [of l] in \<open>simp, metis\<close>)
  then show ?thesis using assms by (simp add: listen_inv_def close_listener_def)
qed

lemma at_run_ok: "listen_inv s \<Longrightarrow> at_run i s = Some pc \<Longrightarrow> run_listener_ok (bs_listeners s) (bs_runs s ! i) \<and> ru_pc (bs_runs s ! i) = pc \<and> i < length (bs_runs s)"
  by (auto simp: listen_inv_def at_run_Some)


lemma loop_run_ok:
  assumes "run_listener_ok ls r" "ru_pc r \<in> {RAcquire, RAccept, RBackoff, RLeave}"
  obtains l where "ru_listener r = Some l" "l < length ls" "\<not> ru_watching r \<longrightarrow> ls ! l" "ru_pc r = RLeave \<or> ru_done r \<longrightarrow> ru_ctxDone r \<or> ls ! l"
  using assms by (auto simp: run_listener_ok_def split: option.splits)

lemma loop_run_moves:
  assumes "run_listener_ok ls r" "ru_pc r \<in> {RAcquire, RAccept, RBackoff, RLeave}"
  shows "pc \<in> {RAcquire, RAccept, RBackoff} \<Longrightarrow> run_listener_ok ls (r\<lparr>ru_pc := pc\<rparr>)"
    "pc \<in> {RAcquire, RAccept, RBackoff} \<Longrightarrow> run_listener_ok ls (r\<lparr>ru_pc := pc, ru_backoff := b\<rparr>)"
    "ru_ctxDone r \<or> ls ! the (ru_listener r) \<Longrightarrow> run_listener_ok ls (r\<lparr>ru_pc := RLeave\<rparr>)"
    "ru_pc r = RLeave \<Longrightarrow> run_listener_ok ls (r\<lparr>ru_pc := RReset None, ru_done := True\<rparr>)"
proof -
  obtain l where l: "ru_listener r = Some l" "l < length ls" "\<not> ru_watching r \<longrightarrow> ls ! l"
    "ru_pc r = RLeave \<or> ru_done r \<longrightarrow> ru_ctxDone r \<or> ls ! l" by (rule loop_run_ok [OF assms])
  show "pc \<in> {RAcquire, RAccept, RBackoff} \<Longrightarrow> run_listener_ok ls (r\<lparr>ru_pc := pc\<rparr>)"
    "pc \<in> {RAcquire, RAccept, RBackoff} \<Longrightarrow> run_listener_ok ls (r\<lparr>ru_pc := pc, ru_backoff := b\<rparr>)"
    "ru_ctxDone r \<or> ls ! the (ru_listener r) \<Longrightarrow> run_listener_ok ls (r\<lparr>ru_pc := RLeave\<rparr>)"
    "ru_pc r = RLeave \<Longrightarrow> run_listener_ok ls (r\<lparr>ru_pc := RReset None, ru_done := True\<rparr>)"
    using l by (auto simp: run_listener_ok_def)
qed

lemma early_run_moves:
  assumes "run_listener_ok ls r"
  shows "ru_pc r = RCas \<Longrightarrow> run_listener_ok ls (r\<lparr>ru_pc := RListen\<rparr>)"
    "ru_pc r = RCas \<Longrightarrow> run_listener_ok ls (r\<lparr>ru_pc := RReturned (Some e)\<rparr>)"
    "ru_pc r = RListen \<Longrightarrow> run_listener_ok ls (r\<lparr>ru_pc := RReset (Some e)\<rparr>)"
    "ru_pc r = RListen \<Longrightarrow> l < length ls \<Longrightarrow> run_listener_ok ls (r\<lparr>ru_pc := RPublish l\<rparr>)"
    "ru_pc r = RPublish l \<Longrightarrow> run_listener_ok ls (r\<lparr>ru_pc := RAcquire, ru_listener := Some l, ru_watching := True\<rparr>)"
    "ru_pc r = RReset x \<Longrightarrow> run_listener_ok ls (r\<lparr>ru_pc := RReturned x\<rparr>)"
  using assms by (auto simp: run_listener_ok_def split: option.splits)

lemma run_watch_listen:
  assumes "listen_inv s" "i < length (bs_runs s)"
  shows "listen_inv (run_watch b i s)"
proof (cases "ru_watching (bs_runs s ! i)")
  case True
  let ?r = "bs_runs s ! i"
  let ?s' = "set_run i (?r\<lparr>ru_watching := False\<rparr>) s"
  have ok: "run_listener_ok (bs_listeners s) ?r" using assms by (simp add: listen_inv_def)
  show ?thesis
  proof (cases "ru_listener ?r")
    case None
    then have "listen_inv ?s'" using set_run_listen [OF assms(1), of "?r\<lparr>ru_watching := False\<rparr>" i] ok
      by (simp add: run_listener_ok_def)
    then show ?thesis using None assms(1) by (simp add: run_watch_def Let_def)
  next
    case (Some l)
    then have l: "l < length (bs_listeners s)" using ok by (simp add: run_listener_ok_def)
    have "close_listener l ?s' = set_run i (?r\<lparr>ru_watching := False\<rparr>) (close_listener l s)"
      by (simp add: close_listener_def set_run_def)
    moreover have "listen_inv (set_run i (?r\<lparr>ru_watching := False\<rparr>) (close_listener l s))"
      by (rule set_run_listen [OF close_listener_inv [OF assms(1)]])
        (use ok Some l in \<open>simp add: run_listener_ok_def close_listener_def\<close>)
    moreover have "listen_inv ?s'" if "bs_listeners s ! l"
      by (rule set_run_listen [OF assms(1)]) (use that ok Some in \<open>simp add: run_listener_ok_def\<close>)
    moreover have "ru_done ?r \<Longrightarrow> \<not> ru_ctxDone ?r \<Longrightarrow> bs_listeners s ! l" using ok Some by (simp add: run_listener_ok_def)
    ultimately show ?thesis using Some assms(1) True by (simp add: run_watch_def Let_def)
  qed
qed (use assms in \<open>simp add: run_watch_def Let_def\<close>)

lemma listen_inv_frame:
  assumes "listen_inv s"
  shows "listen_inv (s\<lparr>bs_runState := x\<rparr>)" "listen_inv (s\<lparr>bs_connSem := c\<rparr>)" "listen_inv (s\<lparr>bs_handlers := hs\<rparr>)"
  by (rule listen_inv_cong [OF assms]; simp)+

lemma listen_inv_new:
  assumes "listen_inv s"
  shows "listen_inv (s\<lparr>bs_listeners := bs_listeners s @ [False]\<rparr>)"
proof -
  have "run_listener_ok (bs_listeners s) r \<Longrightarrow> run_listener_ok (bs_listeners s @ [False]) r" for r
    by (erule run_listener_ok_mono) (simp_all add: nth_append)
  then show ?thesis using assms by (auto simp: listen_inv_def less_Suc_eq)
qed

lemma run_call_listen: "listen_inv s \<Longrightarrow> listen_inv (run_call b s)"
proof -
  assume "listen_inv s"
  moreover have "run_listener_ok ls (last (bs_runs (run_call b s)))" for ls by (simp add: run_call_def run_listener_ok_def)
  ultimately show "listen_inv (run_call b s)" by (auto simp: listen_inv_def run_call_def)
qed

lemma run_listen_listen:
  assumes "listen_inv s" "at_run i s = Some RListen"
  shows "listen_inv (run_listen e i s)"
proof (cases e)
  case None
  have "run_listener_ok (bs_listeners s @ [False]) (bs_runs s ! i)" using listen_inv_new [OF assms(1)] at_run_ok [OF assms] by (simp add: listen_inv_def)
  then show ?thesis
    using None at_run_ok [OF assms] early_run_moves(4) set_run_listen [OF listen_inv_new [OF assms(1)], of _ i] by (simp add: run_listen_def Let_def)
next
  case (Some x)
  then show ?thesis
    using at_run_ok [OF assms] early_run_moves(3) set_run_listen [OF listen_inv_frame(1) [OF assms(1)], of _ _ i] by (simp add: run_listen_def Let_def)
qed

lemma run_publish_listen:
  assumes "listen_inv s" "at_run i s = Some (RPublish l)"
  shows "listen_inv (run_publish l i s)"
proof -
  note run = at_run_ok [OF assms]
  have "l < length (bs_listeners s)" using run by (auto simp: run_listener_ok_def split: option.splits)
  then have "listen_inv (s\<lparr>bs_listener := Some l, bs_runState := x\<rparr>)" for x using assms(1) by (simp add: listen_inv_def)
  from set_run_listen [OF this] show ?thesis using run early_run_moves(5) by (simp add: run_publish_def Let_def)
qed

lemma loop_accept_listen:
  assumes "listen_inv s" "accept_law acc" "at_run i s = Some RAccept" "srv_step acc (SAccept i n) s = Some s'"
  shows "listen_inv s'"
proof -
  note run = at_run_ok [OF assms(1,3)] and fr = listen_inv_frame [OF assms(1)]
  obtain l where l: "ru_listener (bs_runs s ! i) = Some l" using run loop_run_ok by force
  have "acc (bs_listeners s ! l) n = AErrClosed \<Longrightarrow> bs_listeners s ! l" using assms(2) by (metis (full_types) accept_law_def)
  then show ?thesis
    using assms(3,4) l run loop_run_moves(2,3) set_run_listen [OF fr(2)] set_run_listen [OF fr(3)]
    by (auto simp: loop_accept_def sem_release_def Let_def split: accept_result.splits if_splits recv_result.splits)
qed

lemma run_move_listen:
  assumes "listen_inv s"
  shows "at_run i s = Some RCas \<Longrightarrow> listen_inv (run_cas i s)"
    "at_run i s = Some RAcquire \<Longrightarrow> listen_inv (loop_acquire b i s)"
    "at_run i s = Some RBackoff \<Longrightarrow> listen_inv (loop_sleep b i s)"
    "at_run i s = Some RLeave \<Longrightarrow> listen_inv (run_leave i s)"
    "at_run i s = Some (RReset e) \<Longrightarrow> listen_inv (run_reset e i s)"
proof -
  note run = at_run_ok [OF assms] and set = set_run_listen [OF assms] and fr = listen_inv_frame [OF assms]
  show "at_run i s = Some RCas \<Longrightarrow> listen_inv (run_cas i s)"
    using run [of i RCas] early_run_moves(1,2) set_run_listen [OF fr(1)] set by (simp add: run_cas_def Let_def)
  show "at_run i s = Some RAcquire \<Longrightarrow> listen_inv (loop_acquire b i s)"
    using run [of i RAcquire] loop_run_moves(1,3) set set_run_listen [OF fr(2)] assms
    by (simp add: loop_acquire_def Let_def split: send_result.splits)
  show "at_run i s = Some RBackoff \<Longrightarrow> listen_inv (loop_sleep b i s)"
    using run [of i RBackoff] loop_run_moves(1,3) set by (simp add: loop_sleep_def Let_def)
  show "at_run i s = Some RLeave \<Longrightarrow> listen_inv (run_leave i s)"
    using run [of i RLeave] loop_run_moves(4) set by (simp add: run_leave_def Let_def)
  show "at_run i s = Some (RReset e) \<Longrightarrow> listen_inv (run_reset e i s)"
    using run [of i "RReset e"] early_run_moves(6) set_run_listen [OF fr(1)] by (simp add: run_reset_def Let_def)
qed

lemma srv_step_listen:
  assumes "listen_inv s" "accept_law acc" "srv_step acc op s = Some s'"
  shows "listen_inv s'"
proof -
  note move = run_move_listen [OF assms(1)] and fr = listen_inv_frame [OF assms(1)]
  show ?thesis
  proof (cases op)
    case (SRun b)
    then show ?thesis using assms run_call_listen by auto
  next
    case (SCancel i)
    have "run_listener_ok (bs_listeners s) ((bs_runs s ! i)\<lparr>ru_ctxDone := True\<rparr>)" if "i < length (bs_runs s)"
      using at_run_ok [OF assms(1), of i] that by (auto simp: at_run_Some run_listener_ok_def split: option.splits)
    then show ?thesis using SCancel assms set_run_listen [OF assms(1)] by auto
  next
    case (SAccept i n)
    then show ?thesis using assms loop_accept_listen [OF assms(1,2)] by (cases "at_run i s = Some RAccept") auto
  next
    case (SRelease j)
    then show ?thesis
      using assms(1,3) listen_inv_cong [OF assms(1)]
      by (auto simp: handle_release_def sem_release_def set_handler_def split: if_splits recv_result.splits)
  next
    case SClose
    then show ?thesis using assms fr(1) close_listener_inv [OF fr(1)] by (auto simp: binding_Close_def Let_def split: option.splits)
  qed (use assms move fr(3) run_listen_listen [OF assms(1)] run_publish_listen [OF assms(1)] run_watch_listen in
      \<open>auto simp: handle_setup_def handle_end_def set_handler_def Let_def split: option.splits run_pc.splits\<close>)
qed


lemma srv_run_listen:
  assumes "accept_law acc" "listen_inv s" "srv_run acc ops s = Some s'"
  shows "listen_inv s'"
  using assms(2,3)
proof (induction ops arbitrary: s)
  case (Cons op ops)
  then show ?case using srv_step_listen [OF Cons.prems(1) assms(1)] by (auto split: option.splits)
qed simp

section \<open>Exclusive runs\<close>

definition inside :: "run \<Rightarrow> nat" where
  "inside r = (case ru_pc r of RCas \<Rightarrow> 0 | RReturned _ \<Rightarrow> 0 | _ \<Rightarrow> 1)"

definition excl_inv :: "bserver \<Rightarrow> bool" where
  "excl_inv s \<longleftrightarrow> sum_list (map inside (bs_runs s)) = (if bs_runState s = runStateStopped then 0 else 1)"

fun undisturbed :: "srv_op \<Rightarrow> bool" where
  "undisturbed SClose = False"
| "undisturbed (SListen i e) = (e = None)"
| "undisturbed _ = True"

lemma set_run_excl:
  assumes "excl_inv s" "i < length (bs_runs s)" "bs_runs t = bs_runs s"
    "inside r + (if bs_runState s = runStateStopped then 0 else 1) = inside (bs_runs s ! i) + (if bs_runState t = runStateStopped then 0 else 1)"
  shows "excl_inv (set_run i r t)"
  using assms sum_list_map_update [OF assms(2), of inside r] by (simp add: excl_inv_def set_run_def split: if_splits)

lemma excl_inv_cong: "excl_inv s \<Longrightarrow> bs_runs t = bs_runs s \<Longrightarrow> bs_runState t = bs_runState s \<Longrightarrow> excl_inv t"
  by (simp add: excl_inv_def)

lemma excl_inside:
  assumes "excl_inv s" "i < length (bs_runs s)" "0 < inside (bs_runs s ! i)"
  shows "bs_runState s \<noteq> runStateStopped"
  using holds_pos [of i "bs_runs s" inside] assms by (auto simp: excl_inv_def)

lemma srv_step_excl:
  assumes "excl_inv s" "undisturbed op" "srv_step acc op s = Some s'"
  shows "excl_inv s'"
proof (cases op)
  case (SRun b)
  then show ?thesis using assms(1,3) by (auto simp: excl_inv_def run_call_def inside_def)
next
  case (SCancel i)
  then show ?thesis using assms set_run_excl [OF assms(1)] by (auto simp: inside_def)
next
  case (SWatch i b)
  have "excl_inv (run_watch b i s)" if "i < length (bs_runs s)"
    using run_watch_cases [of b i s] assms(1) set_run_excl [OF assms(1) that, of s "(bs_runs s ! i)\<lparr>ru_watching := False\<rparr>"]
      excl_inv_cong [of "set_run i ((bs_runs s ! i)\<lparr>ru_watching := False\<rparr>) s"] by (auto simp: inside_def close_listener_def)
  then show ?thesis using SWatch assms by auto
next
  case (SAccept i n)
  then show ?thesis using assms(1,3) set_run_excl [OF assms(1)]
    by (auto simp: loop_accept_def sem_release_def inside_def Let_def at_run_Some split: if_splits accept_result.splits recv_result.splits)
next
  case (SReset i)
  have "excl_inv (run_reset e i s)" if "at_run i s = Some (RReset e)" for e
    unfolding run_reset_def Let_def
    by (rule set_run_excl [OF assms(1)]) (use that excl_inside [OF assms(1), of i] in \<open>auto simp: at_run_Some inside_def run_states\<close>)
  then show ?thesis using SReset assms by (auto split: option.splits run_pc.splits)
next
  case (SPublish i)
  have "excl_inv (run_publish l i s)" if "at_run i s = Some (RPublish l)" for l
    unfolding run_publish_def Let_def
    by (rule set_run_excl [OF assms(1)]) (use that excl_inside [OF assms(1), of i] in \<open>auto simp: at_run_Some inside_def run_states\<close>)
  then show ?thesis using SPublish assms by (auto split: option.splits run_pc.splits)
next
  case (SRelease j)
  then show ?thesis using assms(1,3) excl_inv_cong [OF assms(1)]
    by (auto simp: handle_release_def sem_release_def set_handler_def split: if_splits recv_result.splits)
qed (use assms set_run_excl [OF assms(1)] excl_inv_cong [OF assms(1)] in
    \<open>auto simp: run_cas_def run_listen_def run_leave_def loop_sleep_def loop_acquire_def handle_setup_def handle_end_def set_handler_def
      inside_def at_run_Some run_states Let_def split: if_splits send_result.splits\<close>)

lemma srv_run_excl:
  assumes "excl_inv s" "list_all undisturbed ops" "srv_run acc ops s = Some s'"
  shows "excl_inv s'"
  using assms
proof (induction ops arbitrary: s)
  case (Cons op ops)
  then show ?case using srv_step_excl [OF Cons.prems(1)] by (auto split: option.splits)
qed simp

lemma new_invs:
  "slot_inv (nat (if n \<le> 0 then DefaultMaxConcurrentConns else n)) (binding_NewServer n)" "listen_inv (binding_NewServer n)"
  "excl_inv (binding_NewServer n)"
  by (simp_all add: binding_NewServer_def slot_inv_def listen_inv_def excl_inv_def)

section \<open>Properties\<close>

text \<open>
  C15. Connection slots are conserved. However calls of \<open>Run\<close>, accept loops, handlers that return, fail, find no transport or panic, and calls of
  \<open>Close\<close> interleave, the slots taken are exactly those of the accept loops waiting in \<open>Accept\<close> and of the connections not yet finished;
  so never more connections than the configured limit are served at once, giving a slot back never blocks, and when everything has ended all
  slots are free. A connection whose handler has finished was closed, directly or through its transport.
\<close>

theorem accept_slots_conserved:
  "\<exists>s. srv_run acc ops (binding_NewServer maxConns) = Some s \<and>
    length (gc_buf (bs_connSem s)) = sum_list (map holds_slot (bs_runs s)) + sum_list (map serving (bs_handlers s)) \<and>
    length (filter (\<lambda>h. hd_pc h \<noteq> HGone) (bs_handlers s)) \<le> nat (if maxConns \<le> 0 then 10000 else maxConns) \<and>
    (\<forall>h \<in> set (bs_handlers s). hd_pc h = HGone \<longrightarrow> hd_closeConn h \<or> hd_trClosed h)"
proof -
  obtain s where s: "srv_run acc ops (binding_NewServer maxConns) = Some s" "slot_inv (nat (if maxConns \<le> 0 then 10000 else maxConns)) s"
    using srv_run_slots [OF new_invs(1) [of maxConns, unfolded DefaultMaxConcurrentConns_def], of acc ops] by blast
  have "length (filter (\<lambda>h. hd_pc h \<noteq> HGone) hs) = sum_list (map serving hs)" for hs
    by (induction hs) (simp_all add: serving_def)
  then show ?thesis using s by (auto simp: slot_inv_def)
qed

theorem accept_slots_conserved_witness:
  "\<exists>s. srv_run (\<lambda>c n. AConn) [SRun True, SCas 0, SListen 0 None, SPublish 0, SAcquire 0 False, SAccept 0 0, SAcquire 0 False,
      STransport 0 TrPanic, SRelease 0] (binding_NewServer 1) = Some s \<and>
    length (filter (\<lambda>h. hd_pc h \<noteq> HGone) (bs_handlers s)) \<le> 1 \<and> (\<forall>h \<in> set (bs_handlers s). hd_pc h = HGone \<longrightarrow> hd_closeConn h \<or> hd_trClosed h)"
proof -
  have "nat (if (1 :: int) \<le> 0 then 10000 else 1) = 1" by simp
  from accept_slots_conserved [where maxConns = 1, unfolded this] show ?thesis by blast
qed

text \<open>
  C19. No listener outlives its \<open>Run\<close>. If \<open>Accept\<close> reports \<open>net.ErrClosed\<close> only from a closed listener, then in any interleaving a call
  of \<open>Run\<close> that has returned without an error has closed its listener, or its goroutine is still there and, woken by \<open>done\<close>, closes it in its next step;
  and a call that has returned with an error made none.
\<close>

theorem run_releases_listener:
  assumes "accept_law acc" "srv_run acc ops (binding_NewServer maxConns) = Some s" "i < length (bs_runs s)" "ru_pc (bs_runs s ! i) = RReturned e"
  shows "case e of
      Some _ \<Rightarrow> ru_listener (bs_runs s ! i) = None
    | None \<Rightarrow> \<exists>l. ru_listener (bs_runs s ! i) = Some l \<and> bs_listeners (run_watch pickCtx i s) ! l"
proof -
  have "run_listener_ok (bs_listeners s) (bs_runs s ! i)"
    using srv_run_listen [OF assms(1) new_invs(2) assms(2)] assms(3) by (simp add: listen_inv_def)
  then show ?thesis using assms(4)
    by (auto simp: run_listener_ok_def run_watch_def close_listener_def set_run_def Let_def split: option.splits)
qed

text \<open>A run that ends because its context ends while it sleeps after a failed \<open>Accept\<close>.\<close>

definition demo_accept :: "bool \<Rightarrow> nat \<Rightarrow> accept_result" where
  "demo_accept closedListener n = (if closedListener then AErrClosed else if n = 0 then AConn else AErr)"

definition demo_ops :: "srv_op list" where
  "demo_ops = [SRun True, SCas 0, SListen 0 None, SPublish 0, SAcquire 0 False, SAccept 0 1, SCancel 0, SSleep 0 True, SLeave 0, SReset 0]"

lemmas srv_steps = run_call_def run_cas_def run_listen_def run_publish_def run_watch_def run_leave_def run_reset_def loop_acquire_def loop_accept_def
  loop_sleep_def close_listener_def set_run_def sem_release_def chan_send_def chan_recv_def binding_NewServer_def binding_Close_def at_run_def Let_def

theorem run_releases_listener_witness:
  "\<exists>s. srv_run demo_accept demo_ops (binding_NewServer 2) = Some s \<and> bs_listeners s = [False] \<and> bs_listeners (run_watch False 0 s) ! 0"
proof -
  obtain s where s: "srv_run demo_accept demo_ops (binding_NewServer 2) = Some s" "length (bs_runs s) = 1"
      "ru_pc (bs_runs s ! 0) = RReturned None" "ru_listener (bs_runs s ! 0) = Some 0" "bs_listeners s = [False]"
    by (simp add: demo_ops_def demo_accept_def srv_steps run_states)
  have "accept_law demo_accept" by (simp add: accept_law_def demo_accept_def)
  from run_releases_listener [OF this s(1), of 0 None False] s show ?thesis by simp
qed

text \<open>
  Two calls of \<open>Run\<close> are never inside the server at once, as long as nobody calls \<open>Close\<close> and no \<open>Listen\<close> fails. The two conditions are
  needed: both put the state to stopped before the call of \<open>Run\<close> has returned, and its deferred reset then hits whichever call came next.
\<close>

theorem runs_exclusive:
  assumes "list_all undisturbed ops" "srv_run acc ops (binding_NewServer maxConns) = Some s"
  shows "sum_list (map inside (bs_runs s)) \<le> 1"
  using srv_run_excl [OF new_invs(3) assms] by (simp add: excl_inv_def)

theorem runs_exclusive_witness: "\<exists>s. srv_run demo_accept demo_ops (binding_NewServer 2) = Some s \<and> sum_list (map inside (bs_runs s)) \<le> 1"
proof -
  obtain s where "srv_run demo_accept demo_ops (binding_NewServer 2) = Some s" using srv_run_slots [OF new_invs(1)] by blast
  moreover have "list_all undisturbed demo_ops" by (simp add: demo_ops_def)
  ultimately show ?thesis using runs_exclusive [of demo_ops demo_accept 2] by blast
qed

text \<open>
  After \<open>Close\<close> the next \<open>Run\<close> may start before the closed one has left; the deferred reset of the first then stops the state of the second,
  and from there \<open>Close\<close> does nothing although the second listener is open and being served.
\<close>

definition restart_ops :: "srv_op list" where
  "restart_ops = [SRun True, SCas 0, SListen 0 None, SPublish 0, SAcquire 0 False, SClose,
     SRun True, SCas 1, SListen 1 None, SPublish 1, SAcquire 1 False, SAccept 0 0, SLeave 0, SReset 0]"

theorem second_run_orphaned:
  "\<exists>s. srv_run demo_accept restart_ops (binding_NewServer 2) = Some s \<and> at_run 1 s = Some RAccept \<and>
     ru_listener (bs_runs s ! 1) = Some 1 \<and> \<not> bs_listeners s ! 1 \<and> binding_Close s = s \<and> binding_Addr (\<lambda>_. Some ''0.0.0.0:7400'') s = []"
  by (simp add: restart_ops_def demo_accept_def srv_steps run_states binding_Addr_def)

end
