(* ===== verification/Bindings.thy ===== *)
theory Bindings
  imports Connect Credentials ServerLoop Handshake
begin

text \<open>
  The constructors of the two bindings: \<open>ResolveHandlerConfig\<close> and \<open>NewClientCore\<close> of \<open>internal/binding\<close>, \<open>NewClient\<close> and \<open>NewServer\<close> of
  \<open>v1\<close> and \<open>ntls\<close>, and the QUIC client's transport. Pointers that are compared or shared, those of the epoch allocators and of the command
  registry, are numbers; metrics and log output are left out.
\<close>

section \<open>Handlers\<close>

record BHandlerConfig =
  bh_Auth :: "(string \<Rightarrow> string list res) option"
  bh_Policy :: ServerPolicy
  bh_ServerID :: string
  bh_RedirectChecker :: "RedirectInfo option option"
  bh_OnSession :: bool
  bh_SinkRaw :: bool
  bh_SinkHandler :: "BatchHandler option"
  bh_SinkDeadline :: time
  bh_SinkQueueSize :: int
  bh_SinkQueueMaxBytes :: i64
  bh_Epochs :: "nat option"
  bh_Commands :: "nat option"

text \<open>\<open>newID\<close> is the text of the new ULID.\<close>

definition ResolveHandlerConfig :: "string \<Rightarrow> BHandlerConfig \<Rightarrow> BHandlerConfig res" where
  "ResolveHandlerConfig newID hcfg =
    (if bh_Auth hcfg = None then Inl (NewError LocalConfig ''Auth (TokenValidator) is required'')
     else if bh_SinkHandler hcfg = None then Inl (NewError LocalConfig ''SinkHandler is required'')
     else case Policy_Validate (bh_Policy hcfg) of
         Some e \<Rightarrow> Inl (WrapError LocalConfig ''Policy'' e)
       | None \<Rightarrow> Inr (if bh_ServerID hcfg = [] then hcfg\<lparr>bh_ServerID := newID\<rparr> else hcfg))"

text \<open>The configuration \<open>handleConn\<close> gives to \<open>NewCoreHandler\<close>; a missing validator would be a nil dereference.\<close>

definition core_config :: "BHandlerConfig \<Rightarrow> HandlerConfig option" where
  "core_config hcfg =
    (case bh_Auth hcfg of
       None \<Rightarrow> None
     | Some auth \<Rightarrow> Some
         \<lparr>hc_ResolveToken = auth, hc_Policy = bh_Policy hcfg, hc_RedirectChecker = bh_RedirectChecker hcfg, hc_OnSession = bh_OnSession hcfg,
          hc_SinkRaw = bh_SinkRaw hcfg, hc_SinkHandler = bh_SinkHandler hcfg, hc_SinkDeadline = bh_SinkDeadline hcfg,
          hc_SinkQueueSize = bh_SinkQueueSize hcfg, hc_SinkQueueMaxBytes = bh_SinkQueueMaxBytes hcfg, hc_Zdict = None,
          hc_Commands = (bh_Commands hcfg \<noteq> None)\<rparr>)"

section \<open>Clients\<close>

record ClientCoreConfig =
  ccc_AgentID :: string
  ccc_Meta :: "(string \<times> string) list"
  ccc_Token :: string
  ccc_Capabilities :: "string list"
  ccc_Profile :: Profile
  ccc_DrainTimeout :: time

definition NewClientCore :: "ClientCoreConfig \<Rightarrow> CoreClient res" where
  "NewClientCore cfg =
    (if ccc_AgentID cfg = [] then Inl (NewError LocalConfig ''AgentID required'')
     else if ccc_Token cfg = [] then Inl (NewError LocalConfig ''Token required'')
     else if ccc_Profile cfg \<noteq> PROFILE_INTL \<and> ccc_Profile cfg \<noteq> PROFILE_GM then Inl (NewError LocalConfig ''Profile must be intl or gm'')
     else if FilterUnknownCaps (ccc_Capabilities cfg) \<noteq> [] then Inl (NewError ErrCodeProtocolError ''unknown capabilities'')
     else Inr (NewCoreClient False
       \<lparr>cg_AgentID = ccc_AgentID cfg, cg_Meta = ccc_Meta cfg, cg_Token = ccc_Token cfg, cg_Capabilities = ccc_Capabilities cfg,
        cg_Profile = ccc_Profile cfg, cg_DrainTimeout = ccc_DrainTimeout cfg, cg_AckTimeout = 0\<rparr>))"

record v1_ClientConfig =
  vk_Transport :: QUICClientConfig
  vk_Core :: ClientCoreConfig

definition v1_NewClient :: "v1_ClientConfig \<Rightarrow> Conn bclient res" where
  "v1_NewClient cfg =
    (case ValidateHostPort (qd_Server (vk_Transport cfg)) of
       Some e \<Rightarrow> Inl (WrapError LocalConfig ''Transport.Server'' e)
     | None \<Rightarrow>
     let core = vk_Core cfg; core = (if ccc_Profile core = 0 then core\<lparr>ccc_Profile := PROFILE_INTL\<rparr> else core) in
     case NewClientCore core of Inl e \<Rightarrow> Inl e | Inr cc \<Rightarrow> Inr (fresh_client cc))"

record ntls_ClientConfig =
  nk_Server :: string
  nk_Credentials :: "ntls_ClientCredentials option"
  nk_Core :: ClientCoreConfig

definition ntls_NewClient :: "ntls_ClientConfig \<Rightarrow> bool bclient res" where
  "ntls_NewClient cfg =
    (case ValidateHostPort (nk_Server cfg) of
       Some e \<Rightarrow> Inl (WrapError LocalConfig ''Server'' e)
     | None \<Rightarrow>
     case (case nk_Credentials cfg of None \<Rightarrow> None | Some c \<Rightarrow> if nc_TLSMode c then validateTLS13Creds c else validateDualSM2Creds c) of
       Some e \<Rightarrow> Inl e
     | None \<Rightarrow>
     let core = nk_Core cfg; core = (if ccc_Profile core = 0 then core\<lparr>ccc_Profile := PROFILE_GM\<rparr> else core) in
     case NewClientCore core of Inl e \<Rightarrow> Inl e | Inr cc \<Rightarrow> Inr (fresh_client cc))"

section \<open>The QUIC client's transport\<close>

text \<open>The control stream, the data stream once \<open>postAuth\<close> has stored a picker, the datagrams sent.\<close>

record v1ClientTransport =
  vt_frameLimit :: u64
  vt_control :: Writer
  vt_picker :: "Writer option"
  vt_datagrams :: "bytes list"

definition v1_SetFrameLimit :: "u64 \<Rightarrow> v1ClientTransport \<Rightarrow> v1ClientTransport" where
  "v1_SetFrameLimit n t = t\<lparr>vt_frameLimit := n\<rparr>"

definition v1_ReadFrame :: "(byte list \<Rightarrow> u64 \<times> int) \<Rightarrow> v1ClientTransport \<Rightarrow> rev list \<Rightarrow> Frame res \<times> rev list" where
  "v1_ReadFrame cv t s = Read cv (if vt_frameLimit t = 0 then DefaultLimits else \<lparr>fl_MaxFrameBytes = vt_frameLimit t\<rparr>) s"

text \<open>A write under its stream's mutex: the context, the deadline, the frame.\<close>

definition writeFrameCtx :: "(u64 \<Rightarrow> byte list) \<Rightarrow> go_err option \<Rightarrow> go_err option \<Rightarrow> byte \<Rightarrow> bytes \<Rightarrow> Writer \<Rightarrow> go_err option \<times> Writer" where
  "writeFrameCtx av ctxErr deadlineErr ty p w =
    (case ctxErr of
       Some e \<Rightarrow> (Some e, w)
     | None \<Rightarrow> (case deadlineErr of Some e \<Rightarrow> (Some (WrapError LocalStream ''set write deadline'' e), w) | None \<Rightarrow> Write av ty 0 p w))"

definition v1_WriteFrame :: "(u64 \<Rightarrow> byte list) \<Rightarrow> go_err option \<Rightarrow> go_err option \<Rightarrow> byte \<Rightarrow> bytes \<Rightarrow> v1ClientTransport \<Rightarrow> go_err option \<times> v1ClientTransport" where
  "v1_WriteFrame av ctxErr deadlineErr ty p t =
    (if IsControlType ty then
       (case writeFrameCtx av ctxErr deadlineErr ty p (vt_control t) of (e, w) \<Rightarrow> (e, t\<lparr>vt_control := w\<rparr>))
     else
       (case vt_picker t of
          None \<Rightarrow> (Some (NewError LocalSession ''data stream picker not initialized (auth incomplete?)''), t)
        | Some w \<Rightarrow> (case writeFrameCtx av ctxErr deadlineErr ty p w of (e, w) \<Rightarrow> (e, t\<lparr>vt_picker := Some w\<rparr>))))"

definition v1_SupportsDatagram :: "(bool \<times> bool) option \<Rightarrow> bool" where
  "v1_SupportsDatagram state = (case state of None \<Rightarrow> False | Some (lcl, remote) \<Rightarrow> lcl \<and> remote)"

definition v1_SendDatagram :: "(bool \<times> bool) option \<Rightarrow> go_err option \<Rightarrow> go_err option \<Rightarrow> bytes \<Rightarrow> v1ClientTransport \<Rightarrow> go_err option \<times> v1ClientTransport" where
  "v1_SendDatagram state ctxErr sendErr p t =
    (if state = None then (Some (NewError LocalStream ''datagram before connection established''), t)
     else case ctxErr of
         Some e \<Rightarrow> (Some e, t)
       | None \<Rightarrow>
       case sendErr of
         Some e \<Rightarrow> (Some (WrapError LocalStream ''send datagram'' e), t)
       | None \<Rightarrow> (None, t\<lparr>vt_datagrams := vt_datagrams t @ [p]\<rparr>))"

section \<open>Servers\<close>

definition epochAlloc :: "nat option \<Rightarrow> nat \<Rightarrow> nat option" where
  "epochAlloc e new = (case e of Some a \<Rightarrow> Some a | None \<Rightarrow> Some new)"

text \<open>The handler's part of a server configuration is a \<open>BHandlerConfig\<close>.\<close>

record v1_ServerConfig =
  vs_Transport :: QUICServerConfig
  vs_Handler :: BHandlerConfig
  vs_MaxConcurrentConns :: int

record ntls_ServerConfig =
  ns_Listen :: ntls_listen
  ns_Handler :: BHandlerConfig
  ns_MaxConcurrentConns :: int

record 'cfg bound_server =
  bd_server :: bserver
  bd_hcfg :: BHandlerConfig
  bd_config :: 'cfg

definition v1_NewServer :: "string \<Rightarrow> nat \<Rightarrow> v1_ServerConfig \<Rightarrow> v1_ServerConfig bound_server res" where
  "v1_NewServer newID newEpochs cfg =
    (case ValidateListenAddr (qs_Address (vs_Transport cfg)) of
       Some e \<Rightarrow> Inl (WrapError LocalConfig ''Transport.Address'' e)
     | None \<Rightarrow>
     let cfg = (if IsZero (bh_Policy (vs_Handler cfg)) then cfg\<lparr>vs_Handler := (vs_Handler cfg)\<lparr>bh_Policy := DefaultServerPolicy PROFILE_INTL\<rparr>\<rparr> else cfg);
         hcfg = (vs_Handler cfg)\<lparr>bh_Epochs := epochAlloc (bh_Epochs (vs_Handler cfg)) newEpochs\<rparr> in
     case ResolveHandlerConfig newID hcfg of
       Inl e \<Rightarrow> Inl e
     | Inr hcfg \<Rightarrow> Inr \<lparr>bd_server = binding_NewServer (vs_MaxConcurrentConns cfg), bd_hcfg = hcfg, bd_config = cfg\<rparr>)"

text \<open>The handler configuration of the TCP binding has no command registry.\<close>

definition ntls_NewServer :: "string \<Rightarrow> nat \<Rightarrow> ntls_ServerConfig \<Rightarrow> ntls_ServerConfig bound_server res" where
  "ntls_NewServer newID newEpochs cfg =
    (let l = ns_Listen cfg in
     case ValidateListenAddr (nl_Address l) of
       Some e \<Rightarrow> Inl (WrapError LocalConfig ''Address'' e)
     | None \<Rightarrow>
     if nl_TLSMode l \<and> (nl_CertFile l = [] \<or> nl_KeyFile l = []) then Inl (NewError LocalConfig ''TLS1.3 cert/key required for mbta-tls/1'')
     else if \<not> nl_TLSMode l \<and> (nl_SignCertFile l = [] \<or> nl_SignKeyFile l = [] \<or> nl_EncCertFile l = [] \<or> nl_EncKeyFile l = []) then
       Inl (NewError LocalConfig ''dual SM2 certificates (sign + enc, cert + key) required for mbta-ntls/1'')
     else
     let cfg = (if IsZero (bh_Policy (ns_Handler cfg)) then cfg\<lparr>ns_Handler := (ns_Handler cfg)\<lparr>bh_Policy := DefaultServerPolicy PROFILE_GM\<rparr>\<rparr> else cfg);
         hcfg = (ns_Handler cfg)\<lparr>bh_Epochs := epochAlloc (bh_Epochs (ns_Handler cfg)) newEpochs, bh_Commands := None\<rparr> in
     case ResolveHandlerConfig newID hcfg of
       Inl e \<Rightarrow> Inl e
     | Inr hcfg \<Rightarrow> Inr \<lparr>bd_server = binding_NewServer (ns_MaxConcurrentConns cfg), bd_hcfg = hcfg, bd_config = cfg\<rparr>)"

section \<open>Well-formed handlers and clients\<close>

text \<open>What every connection's handler is given: a validator, a sink, a valid policy, an identity and an epoch allocator.\<close>

definition handler_wf :: "BHandlerConfig \<Rightarrow> bool" where
  "handler_wf h \<longleftrightarrow> bh_Auth h \<noteq> None \<and> bh_SinkHandler h \<noteq> None \<and> Policy_Validate (bh_Policy h) = None \<and> bh_ServerID h \<noteq> [] \<and> bh_Epochs h \<noteq> None"

lemma ResolveHandlerConfig_wf:
  assumes "ResolveHandlerConfig newID h = Inr h'" "newID \<noteq> []" "bh_Epochs h \<noteq> None"
  shows "handler_wf h'" "bh_Policy h' = bh_Policy h" "bh_Epochs h' = bh_Epochs h" "bh_Commands h' = bh_Commands h" "bh_Auth h' = bh_Auth h" "bh_SinkHandler h' = bh_SinkHandler h"
  using assms by (auto simp: ResolveHandlerConfig_def handler_wf_def split: if_splits option.splits)

lemma ResolveHandlerConfig_ok:
  "bh_Auth h \<noteq> None \<Longrightarrow> bh_SinkHandler h \<noteq> None \<Longrightarrow> Policy_Validate (bh_Policy h) = None \<Longrightarrow> \<exists>h'. ResolveHandlerConfig newID h = Inr h'"
  by (auto simp: ResolveHandlerConfig_def)

lemma epochAlloc_some [simp]: "\<exists>a. epochAlloc e n = Some a"
  by (simp add: epochAlloc_def split: option.splits)

lemma v1_NewServer_wf:
  assumes "v1_NewServer newID n cfg = Inr s" "newID \<noteq> []"
  shows "handler_wf (bd_hcfg s)"
    "bh_Policy (bd_hcfg s) = (if IsZero (bh_Policy (vs_Handler cfg)) then DefaultServerPolicy PROFILE_INTL else bh_Policy (vs_Handler cfg))"
    "bh_Epochs (bd_hcfg s) = epochAlloc (bh_Epochs (vs_Handler cfg)) n" "bh_Commands (bd_hcfg s) = bh_Commands (vs_Handler cfg)"
proof -
  let ?h = "(vs_Handler cfg)\<lparr>bh_Policy := if IsZero (bh_Policy (vs_Handler cfg)) then DefaultServerPolicy PROFILE_INTL else bh_Policy (vs_Handler cfg),
      bh_Epochs := epochAlloc (bh_Epochs (vs_Handler cfg)) n\<rparr>"
  have "ResolveHandlerConfig newID ?h = Inr (bd_hcfg s)"
    using assms(1) by (auto simp: v1_NewServer_def Let_def split: option.splits sum.splits if_splits)
  note r = ResolveHandlerConfig_wf [OF this assms(2)]
  show "handler_wf (bd_hcfg s)"
    "bh_Policy (bd_hcfg s) = (if IsZero (bh_Policy (vs_Handler cfg)) then DefaultServerPolicy PROFILE_INTL else bh_Policy (vs_Handler cfg))"
    "bh_Epochs (bd_hcfg s) = epochAlloc (bh_Epochs (vs_Handler cfg)) n" "bh_Commands (bd_hcfg s) = bh_Commands (vs_Handler cfg)"
    using r by simp_all
qed

lemma ntls_NewServer_wf:
  assumes "ntls_NewServer newID n cfg = Inr s" "newID \<noteq> []"
  shows "handler_wf (bd_hcfg s)"
    "bh_Policy (bd_hcfg s) = (if IsZero (bh_Policy (ns_Handler cfg)) then DefaultServerPolicy PROFILE_GM else bh_Policy (ns_Handler cfg))"
    "bh_Epochs (bd_hcfg s) = epochAlloc (bh_Epochs (ns_Handler cfg)) n" "bh_Commands (bd_hcfg s) = None"
proof -
  let ?h = "(ns_Handler cfg)\<lparr>bh_Policy := if IsZero (bh_Policy (ns_Handler cfg)) then DefaultServerPolicy PROFILE_GM else bh_Policy (ns_Handler cfg),
      bh_Epochs := epochAlloc (bh_Epochs (ns_Handler cfg)) n, bh_Commands := None\<rparr>"
  have "ResolveHandlerConfig newID ?h = Inr (bd_hcfg s)"
    using assms(1) by (auto simp: ntls_NewServer_def Let_def split: option.splits sum.splits if_splits)
  note r = ResolveHandlerConfig_wf [OF this assms(2)]
  show "handler_wf (bd_hcfg s)"
    "bh_Policy (bd_hcfg s) = (if IsZero (bh_Policy (ns_Handler cfg)) then DefaultServerPolicy PROFILE_GM else bh_Policy (ns_Handler cfg))"
    "bh_Epochs (bd_hcfg s) = epochAlloc (bh_Epochs (ns_Handler cfg)) n" "bh_Commands (bd_hcfg s) = None"
    using r by simp_all
qed

lemma v1_NewServer_ok:
  assumes "ValidateListenAddr (qs_Address (vs_Transport cfg)) = None" "bh_Auth (vs_Handler cfg) \<noteq> None" "bh_SinkHandler (vs_Handler cfg) \<noteq> None"
    "Policy_Validate (bh_Policy (vs_Handler cfg)) = None" "\<not> IsZero (bh_Policy (vs_Handler cfg))"
  obtains v where "v1_NewServer newID n cfg = Inr v" "bd_config v = cfg"
proof -
  obtain h where "ResolveHandlerConfig newID ((vs_Handler cfg)\<lparr>bh_Epochs := epochAlloc (bh_Epochs (vs_Handler cfg)) n\<rparr>) = Inr h"
    using ResolveHandlerConfig_ok [of "(vs_Handler cfg)\<lparr>bh_Epochs := epochAlloc (bh_Epochs (vs_Handler cfg)) n\<rparr>"] assms(2-4) by auto
  then show ?thesis using assms(1,5) that by (simp add: v1_NewServer_def)
qed

lemma ntls_NewServer_ok:
  assumes "ValidateListenAddr (nl_Address (ns_Listen cfg)) = None" "bh_Auth (ns_Handler cfg) \<noteq> None" "bh_SinkHandler (ns_Handler cfg) \<noteq> None"
    "Policy_Validate (bh_Policy (ns_Handler cfg)) = None" "\<not> IsZero (bh_Policy (ns_Handler cfg))"
    "if nl_TLSMode (ns_Listen cfg) then nl_CertFile (ns_Listen cfg) \<noteq> [] \<and> nl_KeyFile (ns_Listen cfg) \<noteq> []
     else nl_SignCertFile (ns_Listen cfg) \<noteq> [] \<and> nl_SignKeyFile (ns_Listen cfg) \<noteq> [] \<and> nl_EncCertFile (ns_Listen cfg) \<noteq> [] \<and> nl_EncKeyFile (ns_Listen cfg) \<noteq> []"
  obtains v where "ntls_NewServer newID n cfg = Inr v" "bd_config v = cfg"
proof -
  let ?h = "(ns_Handler cfg)\<lparr>bh_Epochs := epochAlloc (bh_Epochs (ns_Handler cfg)) n, bh_Commands := None\<rparr>"
  obtain h where "ResolveHandlerConfig newID ?h = Inr h" using ResolveHandlerConfig_ok [of ?h] assms(2-4) by auto
  then show ?thesis using assms(1,5,6) that by (cases "nl_TLSMode (ns_Listen cfg)") (simp_all add: ntls_NewServer_def)
qed

lemma NewClientCore_wf:
  assumes "NewClientCore cfg = Inr c"
  shows "cg_AgentID (ct_cfg c) = ccc_AgentID cfg" "ccc_AgentID cfg \<noteq> []" "cg_Token (ct_cfg c) = ccc_Token cfg" "ccc_Token cfg \<noteq> []"
    "cg_Profile (ct_cfg c) = ccc_Profile cfg" "ccc_Profile cfg \<in> {PROFILE_INTL, PROFILE_GM}" "set (cg_Capabilities (ct_cfg c)) \<subseteq> KnownCaps"
    "\<not> ct_transport c" "\<not> ct_closed c"
  using assms by (auto simp: NewClientCore_def NewCoreClient_def FilterUnknownCaps_def filter_empty_conv split: if_splits)

section \<open>Properties\<close>

text \<open>
  The QUIC client keeps its two channels apart. A control frame is written to the control stream and to nothing else, a data frame to the data
  stream and to nothing else; before the data stream is open a data frame is refused and not a byte is written; and every successful call puts
  exactly the frame's encoding, whole, on its stream.
\<close>

theorem v1_routes_frames:
  assumes "protowire av cv" "v1_WriteFrame av ctxErr dlErr ty p t = (r, t')"
  shows "vt_datagrams t' = vt_datagrams t \<and> vt_frameLimit t' = vt_frameLimit t \<and>
    (if IsControlType ty then vt_picker t' = vt_picker t \<and> (r = None \<longrightarrow> w_out (vt_control t') = w_out (vt_control t) @ encode_frame av ty p)
     else vt_control t' = vt_control t \<and>
       (case vt_picker t of
          None \<Rightarrow> r \<noteq> None \<and> t' = t
        | Some w \<Rightarrow> r = None \<longrightarrow> (\<exists>w'. vt_picker t' = Some w' \<and> w_out w' = w_out w @ encode_frame av ty p)))"
proof -
  have w: "w_out (snd (Write av ty 0 p w)) = w_out w @ encode_frame av ty p" if "fst (Write av ty 0 p w) = None" for w
    using write_pieces_out [of "frame_pieces av ty p" w] Write_in_pieces [OF assms(1), of ty p w] that
    by (auto simp: concat_frame_pieces split: if_splits)
  have c: "fst (writeFrameCtx av ctxErr dlErr ty p w) = None \<Longrightarrow> w_out (snd (writeFrameCtx av ctxErr dlErr ty p w)) = w_out w @ encode_frame av ty p" for w
    using w by (auto simp: writeFrameCtx_def split: option.splits)
  show ?thesis
  proof (cases "IsControlType ty")
    case True
    then show ?thesis using assms(2) c [of "vt_control t"] by (auto simp: v1_WriteFrame_def split: prod.splits)
  next
    case False
    show ?thesis
    proof (cases "vt_picker t")
      case (Some w)
      then show ?thesis using False assms(2) c [of w] by (auto simp: v1_WriteFrame_def split: prod.splits)
    qed (use False assms(2) in \<open>auto simp: v1_WriteFrame_def\<close>)
  qed
qed


text \<open>A BATCH and a CLOSE on a transport whose data stream is open.\<close>

theorem v1_routes_frames_witness:
  "let t = \<lparr>vt_frameLimit = 0, vt_control = \<lparr>w_out = [], w_ans = []\<rparr>, vt_picker = Some \<lparr>w_out = [], w_ans = []\<rparr>, vt_datagrams = []\<rparr>
   in vt_control (snd (v1_WriteFrame base128_append None None TypeBatch [7] t)) = vt_control t \<and>
     vt_picker (snd (v1_WriteFrame base128_append None None TypeClose [7] t)) = vt_picker t"
proof -
  let ?t = "\<lparr>vt_frameLimit = 0, vt_control = \<lparr>w_out = [], w_ans = []\<rparr>, vt_picker = Some \<lparr>w_out = [], w_ans = []\<rparr>, vt_datagrams = []\<rparr>"
  have "\<not> IsControlType TypeBatch" "IsControlType TypeClose" by (simp_all add: IsControlType_def)
  then show ?thesis
    using v1_routes_frames [OF varint.protowire_axioms, of None None TypeBatch "[7]" ?t, OF prod.collapse [symmetric]]
      v1_routes_frames [OF varint.protowire_axioms, of None None TypeClose "[7]" ?t, OF prod.collapse [symmetric]]
    by (simp only: Let_def if_True if_False)
qed

end
