(* ===== verification/Facade.thy ===== *)
theory Facade
  imports Bindings
begin

text \<open>
  The public interface, \<open>version.go\<close>, \<open>client.go\<close> and \<open>server.go\<close>: options, construction of a client or a server from them, the profile of each
  version, the life of the two objects. An option is a function on the configuration that may fail. Each method of the two objects runs under their
  mutex, so a step of the model is a call; the accept loops of a started server are those of the theory \<open>ServerLoop\<close>.
\<close>

section \<open>Versions\<close>

definition Version1 :: string where "Version1 = ''v1''"
definition VersionNTLS :: string where "VersionNTLS = ''ntls''"

definition NTLSProfileFor :: "bool \<Rightarrow> Profile" where
  "NTLSProfileFor tlsMode = (if tlsMode then PROFILE_INTL else PROFILE_GM)"

definition ProfileFor :: "string \<Rightarrow> Profile res" where
  "ProfileFor v =
    (if v = Version1 then Inr PROFILE_INTL else if v = VersionNTLS then Inr PROFILE_GM
     else Inl (OtherErr (''unsupported version: '' @ v) None))"

definition ParseVersion :: "string \<Rightarrow> string res" where
  "ParseVersion s =
    (if s = ''v1'' then Inr Version1 else if s = ''ntls'' then Inr VersionNTLS else Inl (OtherErr (''unsupported version: '' @ s) None))"

section \<open>The client\<close>

record ClientConfig =
  fk_Version :: string
  fk_Server :: string
  fk_AgentID :: string
  fk_Token :: string
  fk_Meta :: "(string \<times> string) list"
  fk_Capabilities :: "string list"
  fk_DrainTimeout :: time
  fk_V1Creds :: "v1_ClientCredentials option"
  fk_NTLSCreds :: "ntls_ClientCredentials option"

type_synonym ClientOption = "ClientConfig \<Rightarrow> ClientConfig res"

definition WithVersion :: "string \<Rightarrow> ClientOption" where "WithVersion v cc = Inr (cc\<lparr>fk_Version := v\<rparr>)"
definition WithServer :: "string \<Rightarrow> ClientOption" where "WithServer s cc = Inr (cc\<lparr>fk_Server := s\<rparr>)"
definition WithAgent :: "string \<Rightarrow> string \<Rightarrow> ClientOption" where "WithAgent a t cc = Inr (cc\<lparr>fk_AgentID := a, fk_Token := t\<rparr>)"
definition WithAgentMeta :: "(string \<times> string) list \<Rightarrow> ClientOption" where "WithAgentMeta m cc = Inr (cc\<lparr>fk_Meta := m\<rparr>)"
definition WithCapabilities :: "string list \<Rightarrow> ClientOption" where "WithCapabilities caps cc = Inr (cc\<lparr>fk_Capabilities := caps\<rparr>)"
definition WithV1Credentials :: "v1_ClientCredentials \<Rightarrow> ClientOption" where "WithV1Credentials c cc = Inr (cc\<lparr>fk_V1Creds := Some c\<rparr>)"
definition WithNTLSCredentials :: "ntls_ClientCredentials \<Rightarrow> ClientOption" where "WithNTLSCredentials c cc = Inr (cc\<lparr>fk_NTLSCreds := Some c\<rparr>)"

definition WithDrainTimeout :: "time \<Rightarrow> ClientOption" where
  "WithDrainTimeout d cc = (if d < 0 then Inl (NewError LocalConfig ''drain timeout must not be negative'') else Inr (cc\<lparr>fk_DrainTimeout := d\<rparr>))"

fun apply_options :: "string \<Rightarrow> ('cfg \<Rightarrow> 'cfg res) list \<Rightarrow> 'cfg \<Rightarrow> 'cfg res" where
  "apply_options what [] cfg = Inr cfg"
| "apply_options what (opt # opts) cfg =
    (case opt cfg of Inl e \<Rightarrow> Inl (WrapError LocalConfig what e) | Inr cfg' \<Rightarrow> apply_options what opts cfg')"

datatype versionedClient = V1Wrapper "Conn bclient" QUICClientConfig | NTLSWrapper "bool bclient" "string \<times> ntls_ClientCredentials"

record FClient =
  fc_cfg :: ClientConfig
  fc_client :: "versionedClient option"

definition client_core :: "ClientConfig \<Rightarrow> Profile \<Rightarrow> ClientCoreConfig" where
  "client_core cfg profile = \<lparr>ccc_AgentID = fk_AgentID cfg, ccc_Meta = fk_Meta cfg, ccc_Token = fk_Token cfg,
     ccc_Capabilities = fk_Capabilities cfg, ccc_Profile = profile, ccc_DrainTimeout = fk_DrainTimeout cfg\<rparr>"

definition initV1Client :: "ClientConfig \<Rightarrow> versionedClient res" where
  "initV1Client cfg =
    (case fk_V1Creds cfg of
       None \<Rightarrow> Inl (NewError LocalCredential ''v1 credentials not provided'')
     | Some creds \<Rightarrow>
     case ProfileFor (fk_Version cfg) of
       Inl e \<Rightarrow> Inl e
     | Inr profile \<Rightarrow>
     let tr = \<lparr>qd_Server = fk_Server cfg, qd_Credentials = Some creds, qd_IdleTimeout = 0\<rparr> in
     case v1_NewClient \<lparr>vk_Transport = tr, vk_Core = client_core cfg profile\<rparr> of
       Inl e \<Rightarrow> Inl e
     | Inr c \<Rightarrow> Inr (V1Wrapper c tr))"

definition initNTLSClient :: "ClientConfig \<Rightarrow> versionedClient res" where
  "initNTLSClient cfg =
    (case fk_NTLSCreds cfg of
       None \<Rightarrow> Inl (NewError LocalCredential ''ntls credentials not provided'')
     | Some creds \<Rightarrow>
     case ntls_NewClient \<lparr>nk_Server = fk_Server cfg, nk_Credentials = Some creds,
         nk_Core = client_core cfg (NTLSProfileFor (nc_TLSMode creds))\<rparr> of
       Inl e \<Rightarrow> Inl e
     | Inr c \<Rightarrow> Inr (NTLSWrapper c (fk_Server cfg, creds)))"

definition initClient :: "ClientConfig \<Rightarrow> versionedClient res" where
  "initClient cfg =
    (if fk_Version cfg = Version1 then initV1Client cfg
     else if fk_Version cfg = VersionNTLS then initNTLSClient cfg
     else Inl (NewError LocalConfig (''unsupported version: '' @ fk_Version cfg)))"

definition default_client :: ClientConfig where
  "default_client = \<lparr>fk_Version = Version1, fk_Server = [], fk_AgentID = [], fk_Token = [], fk_Meta = [], fk_Capabilities = [],
     fk_DrainTimeout = 0, fk_V1Creds = None, fk_NTLSCreds = None\<rparr>"

definition NewClient :: "ClientOption list \<Rightarrow> FClient res" where
  "NewClient opts =
    (case apply_options ''client option'' opts default_client of
       Inl e \<Rightarrow> Inl e
     | Inr cfg \<Rightarrow>
     if fk_Version cfg = [] then Inl (NewError LocalConfig ''version is required'')
     else if fk_AgentID cfg = [] then Inl (NewError LocalConfig ''AgentID is required'')
     else if fk_Server cfg = [] then Inl (NewError LocalConfig ''Server address is required'')
     else case initClient cfg of Inl e \<Rightarrow> Inl e | Inr client \<Rightarrow> Inr \<lparr>fc_cfg = cfg, fc_client = Some client\<rparr>)"

text \<open>
  The methods of the wrapped client, as far as the facade uses them. \<open>Connect\<close> runs under the facade's lock, so its call is alone: all its
  steps in a row.
\<close>

definition last_result :: "'c bclient \<Rightarrow> go_err option" where
  "last_result s = (case cc_pc (last (bc_calls s)) of CReturned r \<Rightarrow> r | _ \<Rightarrow> None)"

fun versioned_Connect :: "answers \<Rightarrow> versionedClient \<Rightarrow> (go_err option \<times> versionedClient) option" where
  "versioned_Connect A (V1Wrapper c t) = map_option (\<lambda>c'. (last_result c', V1Wrapper c' t)) (connect_alone A v1_hooks c)"
| "versioned_Connect A (NTLSWrapper c t) = map_option (\<lambda>c'. (last_result c', NTLSWrapper c' t)) (connect_alone A ntls_hooks c)"

text \<open>The wait for outstanding batches is over when \<open>Close\<close> goes on.\<close>

fun versioned_Close :: "cenv \<Rightarrow> versionedClient \<Rightarrow> versionedClient" where
  "versioned_Close E (V1Wrapper c t) = V1Wrapper (app_closed E v1_hooks (app_close E c)) t"
| "versioned_Close E (NTLSWrapper c t) = NTLSWrapper (app_closed E ntls_hooks (app_close E c)) t"

fun versioned_core :: "versionedClient \<Rightarrow> CoreClient" where
  "versioned_core (V1Wrapper c t) = bc_core c"
| "versioned_core (NTLSWrapper c t) = bc_core c"

fun with_core :: "CoreClient \<Rightarrow> versionedClient \<Rightarrow> versionedClient" where
  "with_core c (V1Wrapper b t) = V1Wrapper (b\<lparr>bc_core := c\<rparr>) t"
| "with_core c (NTLSWrapper b t) = NTLSWrapper (b\<lparr>bc_core := c\<rparr>) t"

definition Facade_Connect :: "answers \<Rightarrow> FClient \<Rightarrow> (go_err option \<times> FClient) option" where
  "Facade_Connect A c =
    (case fc_client c of
       None \<Rightarrow> Some (Some (NewError LocalSession ''client has been closed (cannot reconnect after Close)''), c)
     | Some v \<Rightarrow> map_option (\<lambda>(e, v'). (e, c\<lparr>fc_client := Some v'\<rparr>)) (versioned_Connect A v))"

definition Facade_SendBatch :: "cenv \<Rightarrow> time \<Rightarrow> SignalBatch option \<Rightarrow> SendOption list \<Rightarrow> FClient \<Rightarrow> u64 res \<times> FClient" where
  "Facade_SendBatch E now sb opts c =
    (case fc_client c of
       None \<Rightarrow> (Inl (NewError LocalSession ''not connected (call Connect first)''), c)
     | Some v \<Rightarrow> (case SendBatch E now sb opts (versioned_core v) of (r, k) \<Rightarrow> (r, c\<lparr>fc_client := Some (with_core k v)\<rparr>)))"

definition Facade_SendDatagram :: "cenv \<Rightarrow> time \<Rightarrow> SignalBatch option \<Rightarrow> SendOption list \<Rightarrow> FClient \<Rightarrow> u64 res \<times> FClient" where
  "Facade_SendDatagram E now sb opts c =
    (case fc_client c of
       None \<Rightarrow> (Inl (NewError LocalSession ''not connected (call Connect first)''), c)
     | Some v \<Rightarrow> (case SendDatagram E now sb opts (versioned_core v) of (r, k) \<Rightarrow> (r, c\<lparr>fc_client := Some (with_core k v)\<rparr>)))"

text \<open>\<open>Close\<close>, with the last state of the client it drops.\<close>

definition Facade_Close :: "cenv \<Rightarrow> FClient \<Rightarrow> versionedClient option \<times> FClient" where
  "Facade_Close E c =
    (let cfg = (fc_cfg c)\<lparr>fk_Token := [], fk_V1Creds := None, fk_NTLSCreds := None\<rparr>
     in (map_option (versioned_Close E) (fc_client c), c\<lparr>fc_cfg := cfg, fc_client := None\<rparr>))"

definition Facade_State :: "FClient \<Rightarrow> string" where
  "Facade_State c = (case fc_client c of None \<Rightarrow> State_String StateIdle | Some v \<Rightarrow> State_String (sm_state (ct_sm (versioned_core v))))"

definition Facade_SetResultHandler :: "FClient \<Rightarrow> FClient" where
  "Facade_SetResultHandler c =
    (case fc_client c of None \<Rightarrow> c | Some v \<Rightarrow> c\<lparr>fc_client := Some (with_core (SetResultHandler (versioned_core v)) v)\<rparr>)"

definition Facade_SetRedirectHandler :: "FClient \<Rightarrow> FClient" where
  "Facade_SetRedirectHandler c =
    (case fc_client c of None \<Rightarrow> c | Some v \<Rightarrow> c\<lparr>fc_client := Some (with_core (SetRedirectHandler (versioned_core v)) v)\<rparr>)"

definition ActiveVersion :: "FClient \<Rightarrow> string" where
  "ActiveVersion c = fk_Version (fc_cfg c)"

definition Facade_Dial :: "answers \<Rightarrow> string \<Rightarrow> string \<Rightarrow> string \<Rightarrow> string \<Rightarrow> ClientOption list \<Rightarrow> FClient res option" where
  "Facade_Dial A server agentID token version opts =
    (case NewClient ([WithServer server, WithAgent agentID token, WithVersion version] @ opts) of
       Inl e \<Rightarrow> Some (Inl (WrapError LocalTransport ''dial create'' e))
     | Inr client \<Rightarrow>
     case Facade_Connect A client of
       None \<Rightarrow> None
     | Some (Some e, client) \<Rightarrow> let client = snd (Facade_Close (an_env A) client) in Some (Inl (WrapError LocalTransport ''dial connect'' e))
     | Some (None, client) \<Rightarrow> Some (Inr client))"


section \<open>The server\<close>

record ServerConfig =
  fs_EnableV1 :: bool
  fs_EnableNTLS :: bool
  fs_Auth :: "(string \<Rightarrow> string list res) option"
  fs_Policy :: ServerPolicy
  fs_RedirectChecker :: "RedirectInfo option option"
  fs_OnSession :: bool
  fs_Commands :: "nat option"
  fs_SinkRaw :: bool
  fs_SinkHandler :: "BatchHandler option"
  fs_V1QUIC :: QUICServerConfig
  fs_NTLSCfg :: ntls_ServerConfig
  fs_MaxConcurrentConns :: int
  fs_SinkDeadline :: time
  fs_SinkQueueSize :: int
  fs_SinkQueueMaxBytes :: i64
  fs_ZstdDict :: bytes
  fs_ZstdDictID :: u32

type_synonym ServerOption = "ServerConfig \<Rightarrow> ServerConfig res"

definition WithoutV1 :: ServerOption where "WithoutV1 sc = Inr (sc\<lparr>fs_EnableV1 := False\<rparr>)"
definition WithV1 :: "QUICServerConfig \<Rightarrow> ServerOption" where "WithV1 cfg sc = Inr (sc\<lparr>fs_EnableV1 := True, fs_V1QUIC := cfg\<rparr>)"
definition WithNTLS :: "ntls_ServerConfig \<Rightarrow> ServerOption" where "WithNTLS cfg sc = Inr (sc\<lparr>fs_EnableNTLS := True, fs_NTLSCfg := cfg\<rparr>)"
definition WithAuth :: "(string \<Rightarrow> string list res) option \<Rightarrow> ServerOption" where "WithAuth auth sc = Inr (sc\<lparr>fs_Auth := auth\<rparr>)"

definition WithPolicy :: "ServerPolicy \<Rightarrow> ServerOption" where
  "WithPolicy policy sc =
    (case Policy_Validate policy of Some e \<Rightarrow> Inl (WrapError LocalConfig ''policy'' e) | None \<Rightarrow> Inr (sc\<lparr>fs_Policy := policy\<rparr>))"

definition WithSink :: "bool \<Rightarrow> BatchHandler option \<Rightarrow> ServerOption" where
  "WithSink raw handler sc =
    (if handler = None then Inl (NewError LocalConfig ''sink handler must not be nil'') else Inr (sc\<lparr>fs_SinkRaw := raw, fs_SinkHandler := handler\<rparr>))"

definition WithMaxConcurrentConns :: "int \<Rightarrow> ServerOption" where "WithMaxConcurrentConns n sc = Inr (sc\<lparr>fs_MaxConcurrentConns := n\<rparr>)"

definition WithSinkQueue :: "int \<Rightarrow> i64 \<Rightarrow> ServerOption" where
  "WithSinkQueue n maxBytes sc = Inr (sc\<lparr>fs_SinkQueueSize := n, fs_SinkQueueMaxBytes := maxBytes\<rparr>)"

definition WithSinkDeadline :: "time \<Rightarrow> ServerOption" where
  "WithSinkDeadline d sc = (if d < 0 then Inl (NewError LocalConfig ''sink deadline must not be negative'') else Inr (sc\<lparr>fs_SinkDeadline := d\<rparr>))"

definition WithZstdDict :: "u32 \<Rightarrow> bytes \<Rightarrow> ServerOption" where
  "WithZstdDict dictID dict sc =
    (if length dict = 0 then
       (if dictID \<noteq> 0 then Inl (NewError LocalConfig ''zstd dict must not be empty'') else Inr (sc\<lparr>fs_ZstdDict := [], fs_ZstdDictID := 0\<rparr>))
     else if dictID = 0 then Inl (NewError LocalConfig ''zstd dict id must be non-zero'')
     else if MaxZstdDictBytes < length dict then Inl (NewError LocalConfig ''zstd dict exceeds max'')
     else Inr (sc\<lparr>fs_ZstdDict := dict, fs_ZstdDictID := dictID\<rparr>))"

definition WithRedirectChecker :: "RedirectInfo option option \<Rightarrow> ServerOption" where "WithRedirectChecker f sc = Inr (sc\<lparr>fs_RedirectChecker := f\<rparr>)"
definition WithOnSession :: "bool \<Rightarrow> ServerOption" where "WithOnSession b sc = Inr (sc\<lparr>fs_OnSession := b\<rparr>)"
definition WithCommandRegistry :: "nat option \<Rightarrow> ServerOption" where "WithCommandRegistry reg sc = Inr (sc\<lparr>fs_Commands := reg\<rparr>)"

record FServer =
  sv_cfg :: ServerConfig
  sv_v1 :: "v1_ServerConfig bound_server option"
  sv_ntls :: "ntls_ServerConfig bound_server option"
  sv_epochs :: "nat option"
  sv_started :: bool

definition zero_policy :: ServerPolicy where
  "zero_policy = \<lparr>sp_Profile = 0, sp_SupportedCapabilities = [], sp_AckMode = 0, sp_InitialCreditBatches = 0, sp_InitialCreditBytes = 0,
     sp_MaxFrameBytes = 0, sp_MaxBatchBytes = 0, sp_DatagramRateBytes = 0, sp_ZstdDict = [], sp_ZstdDictID = 0\<rparr>"

definition zero_handler :: BHandlerConfig where
  "zero_handler = \<lparr>bh_Auth = None, bh_Policy = zero_policy, bh_ServerID = [], bh_RedirectChecker = None, bh_OnSession = False, bh_SinkRaw = False,
     bh_SinkHandler = None, bh_SinkDeadline = 0, bh_SinkQueueSize = 0, bh_SinkQueueMaxBytes = 0, bh_Epochs = None, bh_Commands = None\<rparr>"

definition default_server :: ServerConfig where
  "default_server = \<lparr>fs_EnableV1 = True, fs_EnableNTLS = False, fs_Auth = None, fs_Policy = zero_policy, fs_RedirectChecker = None,
     fs_OnSession = False, fs_Commands = None, fs_SinkRaw = False, fs_SinkHandler = None,
     fs_V1QUIC = \<lparr>qs_Address = [], qs_Credentials = None, qs_MaxIncomingStreams = 0, qs_IdleTimeout = 0\<rparr>,
     fs_NTLSCfg = \<lparr>ns_Listen = \<lparr>nl_Address = [], nl_TLSMode = False, nl_CertFile = [], nl_KeyFile = [], nl_SignCertFile = [], nl_SignKeyFile = [],
       nl_EncCertFile = [], nl_EncKeyFile = [], nl_CAFile = []\<rparr>, ns_Handler = zero_handler, ns_MaxConcurrentConns = 0\<rparr>,
     fs_MaxConcurrentConns = 0, fs_SinkDeadline = 0, fs_SinkQueueSize = 0, fs_SinkQueueMaxBytes = 0, fs_ZstdDict = [], fs_ZstdDictID = 0\<rparr>"

definition Facade_NewServer :: "ServerOption list \<Rightarrow> FServer res" where
  "Facade_NewServer opts =
    (case apply_options ''server option'' opts default_server of
       Inl e \<Rightarrow> Inl e
     | Inr cfg \<Rightarrow>
     if \<not> fs_EnableV1 cfg \<and> \<not> fs_EnableNTLS cfg then Inl (NewError LocalConfig ''at least one version must be enabled'')
     else if fs_Auth cfg = None then Inl (NewError LocalConfig ''Auth (TokenValidator) is required'')
     else if fs_SinkHandler cfg = None then Inl (NewError LocalConfig ''SinkHandler is required'')
     else Inr \<lparr>sv_cfg = cfg, sv_v1 = None, sv_ntls = None, sv_epochs = None, sv_started = False\<rparr>)"

definition derivePolicy :: "ServerPolicy \<Rightarrow> Profile \<Rightarrow> ServerPolicy" where
  "derivePolicy base prof = (if IsZero base then DefaultServerPolicy prof else base\<lparr>sp_Profile := prof\<rparr>)"

definition withZstdDict :: "ServerPolicy \<Rightarrow> u32 \<Rightarrow> bytes \<Rightarrow> ServerPolicy" where
  "withZstdDict p dictID dict =
    (if length dict = 0 \<or> dictID = 0 then p
     else let p = p\<lparr>sp_ZstdDict := dict, sp_ZstdDictID := dictID\<rparr>
          in if CapZstdDict \<in> set (sp_SupportedCapabilities p) then p
             else p\<lparr>sp_SupportedCapabilities := sp_SupportedCapabilities p @ [CapZstdDict]\<rparr>)"

text \<open>The handler's part of both configurations.\<close>

definition shared_handler :: "ServerConfig \<Rightarrow> nat option \<Rightarrow> Profile \<Rightarrow> BHandlerConfig \<Rightarrow> BHandlerConfig" where
  "shared_handler cfg epochs profile h = h\<lparr>bh_Auth := fs_Auth cfg,
     bh_Policy := withZstdDict (derivePolicy (fs_Policy cfg) profile) (fs_ZstdDictID cfg) (fs_ZstdDict cfg),
     bh_RedirectChecker := fs_RedirectChecker cfg, bh_OnSession := fs_OnSession cfg, bh_SinkRaw := fs_SinkRaw cfg, bh_SinkHandler := fs_SinkHandler cfg,
     bh_SinkDeadline := fs_SinkDeadline cfg, bh_SinkQueueSize := fs_SinkQueueSize cfg, bh_SinkQueueMaxBytes := fs_SinkQueueMaxBytes cfg,
     bh_Epochs := epochs\<rparr>"

text \<open>\<open>newID\<close> and \<open>newEpochs\<close> are what the constructors below create when nothing is given.\<close>

definition initV1Server :: "string \<Rightarrow> nat \<Rightarrow> FServer \<Rightarrow> go_err option \<times> FServer" where
  "initV1Server newID newEpochs s =
    (case ProfileFor Version1 of
       Inl e \<Rightarrow> (Some e, s)
     | Inr profile \<Rightarrow>
     let cfg = sv_cfg s in
     case v1_NewServer newID newEpochs \<lparr>vs_Transport = fs_V1QUIC cfg,
         vs_Handler = (shared_handler cfg (sv_epochs s) profile zero_handler)\<lparr>bh_Commands := fs_Commands cfg\<rparr>,
         vs_MaxConcurrentConns = fs_MaxConcurrentConns cfg\<rparr> of
       Inl e \<Rightarrow> (Some e, s)
     | Inr v \<Rightarrow> (None, s\<lparr>sv_v1 := Some v\<rparr>))"

definition initNTLSServer :: "string \<Rightarrow> nat \<Rightarrow> FServer \<Rightarrow> go_err option \<times> FServer" where
  "initNTLSServer newID newEpochs s =
    (let cfg = sv_cfg s; n = fs_NTLSCfg cfg; profile = NTLSProfileFor (nl_TLSMode (ns_Listen n)) in
     case ntls_NewServer newID newEpochs (n\<lparr>ns_Handler := shared_handler cfg (sv_epochs s) profile (ns_Handler n),
         ns_MaxConcurrentConns := fs_MaxConcurrentConns cfg\<rparr>) of
       Inl e \<Rightarrow> (Some e, s)
     | Inr v \<Rightarrow> (None, s\<lparr>sv_ntls := Some v\<rparr>))"

text \<open>\<open>Close\<close> of a binding's server, with what closing its listener answers; it asks only while the server is running.\<close>

definition close_bound :: "go_err option \<Rightarrow> 'cfg bound_server \<Rightarrow> go_err option \<times> 'cfg bound_server" where
  "close_bound answer v =
    (if bs_runState (bd_server v) = runStateRunning then answer else None, v\<lparr>bd_server := binding_Close (bd_server v)\<rparr>)"

text \<open>The first part of \<open>Start\<close>, under the mutex; \<open>alloc\<close> is the new allocator.\<close>

definition Start_init :: "string \<Rightarrow> nat \<Rightarrow> nat \<Rightarrow> FServer \<Rightarrow> go_err option \<times> FServer" where
  "Start_init newID newEpochs alloc s =
    (let s = s\<lparr>sv_epochs := Some alloc\<rparr> in
     if sv_started s then (Some (NewError LocalSession ''server already started''), s)
     else
     let s = s\<lparr>sv_started := True\<rparr> in
     case (if fs_EnableV1 (sv_cfg s) then initV1Server newID newEpochs s else (None, s)) of
       (Some e, s) \<Rightarrow> (Some (WrapError LocalConfig ''init v1'' e), s\<lparr>sv_started := False\<rparr>)
     | (None, s) \<Rightarrow>
     case (if fs_EnableNTLS (sv_cfg s) then initNTLSServer newID newEpochs s else (None, s)) of
       (Some e, s) \<Rightarrow> (Some (WrapError LocalConfig ''init ntls'' e), s\<lparr>sv_v1 := None, sv_started := False\<rparr>)
     | (None, s) \<Rightarrow> (None, s))"

text \<open>\<open>Close\<close>, with the errors it joins; none is \<open>nil\<close>. The arguments are what closing the two listeners answers.\<close>

fun close_error :: "string \<Rightarrow> go_err option \<Rightarrow> go_err list" where
  "close_error what None = []"
| "close_error what (Some e) = [OtherErr (what @ '' close'') (Some e)]"

definition close_version :: "string \<Rightarrow> go_err option \<Rightarrow> 'cfg bound_server option \<Rightarrow> go_err list \<times> 'cfg bound_server option" where
  "close_version what answer b =
    (case b of None \<Rightarrow> ([], None) | Some v \<Rightarrow> (case close_bound answer v of (e, v) \<Rightarrow> (close_error what e, Some v)))"

definition Facade_Server_Close :: "go_err option \<Rightarrow> go_err option \<Rightarrow> FServer \<Rightarrow> go_err list \<times> FServer" where
  "Facade_Server_Close v1answer ntlsanswer s =
    (case close_version ''v1'' v1answer (sv_v1 s) of (errs1, v) \<Rightarrow>
     case close_version ''ntls'' ntlsanswer (sv_ntls s) of (errs2, n) \<Rightarrow>
     (errs1 @ errs2, s\<lparr>sv_v1 := v, sv_ntls := n, sv_started := False\<rparr>))"

text \<open>The rest of \<open>Start\<close>, once the accept loops have ended: the first error stops both.\<close>

definition Start_wait :: "go_err option \<Rightarrow> go_err option \<Rightarrow> go_err option \<Rightarrow> FServer \<Rightarrow> go_err option \<times> FServer" where
  "Start_wait v1answer ntlsanswer err s =
    (case err of
       Some e \<Rightarrow> (Some (WrapError LocalTransport ''server accept loop'' e), snd (Facade_Server_Close v1answer ntlsanswer (s\<lparr>sv_started := False\<rparr>)))
     | None \<Rightarrow> (None, s))"

definition Facade_Addr :: "(nat \<Rightarrow> string option) \<Rightarrow> (nat \<Rightarrow> string option) \<Rightarrow> FServer \<Rightarrow> string" where
  "Facade_Addr v1addr ntlsaddr s =
    (case sv_v1 s of
       Some v \<Rightarrow> binding_Addr v1addr (bd_server v)
     | None \<Rightarrow> (case sv_ntls s of Some n \<Rightarrow> binding_Addr ntlsaddr (bd_server n) | None \<Rightarrow> []))"

text \<open>Which registry \<open>SendCommand\<close> asks; without one the answer is \<open>ErrAgentNotConnected\<close>.\<close>

definition SendCommand_registry :: "FServer \<Rightarrow> nat option" where
  "SendCommand_registry s = (case sv_v1 s of None \<Rightarrow> None | Some v \<Rightarrow> bh_Commands (vs_Handler (bd_config v)))"


section \<open>What options keep\<close>

text \<open>The options of the library.\<close>

inductive server_option :: "ServerOption \<Rightarrow> bool" where
  "server_option WithoutV1"
| "server_option (WithV1 q)"
| "server_option (WithNTLS n)"
| "server_option (WithAuth a)"
| "server_option (WithPolicy p)"
| "server_option (WithSink raw h)"
| "server_option (WithMaxConcurrentConns k)"
| "server_option (WithSinkQueue k b)"
| "server_option (WithSinkDeadline d)"
| "server_option (WithZstdDict i dict)"
| "server_option (WithRedirectChecker f)"
| "server_option (WithOnSession b)"
| "server_option (WithCommandRegistry r)"

definition cfg_ok :: "ServerConfig \<Rightarrow> bool" where
  "cfg_ok sc \<longleftrightarrow> (IsZero (fs_Policy sc) \<or> Policy_Validate (fs_Policy sc) = None) \<and> length (fs_ZstdDict sc) \<le> MaxZstdDictBytes"

lemma server_option_keeps: "server_option opt \<Longrightarrow> cfg_ok sc \<Longrightarrow> opt sc = Inr sc' \<Longrightarrow> cfg_ok sc'"
  by (induction rule: server_option.induct)
    (auto simp: WithoutV1_def WithV1_def WithNTLS_def WithAuth_def WithPolicy_def WithSink_def WithMaxConcurrentConns_def WithSinkQueue_def
      WithSinkDeadline_def WithZstdDict_def WithRedirectChecker_def WithOnSession_def WithCommandRegistry_def cfg_ok_def split: option.splits if_splits)

lemma apply_options_keeps:
  assumes "\<And>opt sc sc'. opt \<in> set opts \<Longrightarrow> P sc \<Longrightarrow> opt sc = Inr sc' \<Longrightarrow> P sc'" "P cfg" "apply_options what opts cfg = Inr cfg'"
  shows "P cfg'"
  using assms
proof (induction opts arbitrary: cfg)
  case (Cons opt opts)
  obtain c1 where c1: "opt cfg = Inr c1" "apply_options what opts c1 = Inr cfg'" using Cons.prems(3) by (auto split: sum.splits)
  show ?case
  proof (rule Cons.IH [OF _ _ c1(2)])
    show "P c1" using Cons.prems(1) [of opt cfg c1] Cons.prems(2) c1(1) by simp
  qed (use Cons.prems(1) in \<open>meson list.set_intros(2)\<close>)
qed simp

lemmas Policy_Validate_None = conjunct1 [OF Policy_Validate_iff]

lemma default_policy_valid: "prof = PROFILE_INTL \<or> prof = PROFILE_GM \<Longrightarrow> Policy_Validate (DefaultServerPolicy prof) = None"
  using Policy_Validate_iff [of undefined] by (elim disjE) simp_all

lemma derived_policy_valid:
  assumes "IsZero base \<or> Policy_Validate base = None" "prof = PROFILE_INTL \<or> prof = PROFILE_GM" "length dict \<le> MaxZstdDictBytes"
  shows "Policy_Validate (withZstdDict (derivePolicy base prof) i dict) = None" "sp_Profile (withZstdDict (derivePolicy base prof) i dict) = prof"
proof -
  have d: "Policy_Validate (derivePolicy base prof) = None"
    using assms(1,2) default_policy_valid [OF assms(2)] by (cases "IsZero base") (simp_all add: derivePolicy_def Policy_Validate_None)
  have z: "Policy_Validate (p\<lparr>sp_SupportedCapabilities := caps\<rparr>) = Policy_Validate p" for p :: ServerPolicy and caps by (simp add: Policy_Validate_def)
  have "Policy_Validate (p\<lparr>sp_ZstdDict := dict, sp_ZstdDictID := i\<rparr>) = None" if "Policy_Validate p = None" "i \<noteq> 0" for p :: ServerPolicy
    using that assms(3) by (simp add: Policy_Validate_None MaxZstdDictBytes_def)
  then show "Policy_Validate (withZstdDict (derivePolicy base prof) i dict) = None" using d by (auto simp: withZstdDict_def Let_def z)
  have "sp_Profile (derivePolicy base prof) = prof" by (simp add: derivePolicy_def DefaultServerPolicy_def)
  then show "sp_Profile (withZstdDict (derivePolicy base prof) i dict) = prof" by (simp add: withZstdDict_def Let_def)
qed

lemma new_server_cfg:
  assumes "\<forall>opt \<in> set opts. server_option opt" "Facade_NewServer opts = Inr s"
  shows "cfg_ok (sv_cfg s)" "fs_Auth (sv_cfg s) \<noteq> None" "fs_SinkHandler (sv_cfg s) \<noteq> None" "fs_EnableV1 (sv_cfg s) \<or> fs_EnableNTLS (sv_cfg s)"
    "sv_v1 s = None" "sv_ntls s = None" "\<not> sv_started s"
proof -
  obtain cfg where c: "apply_options ''server option'' opts default_server = Inr cfg" "fs_EnableV1 cfg \<or> fs_EnableNTLS cfg" "fs_Auth cfg \<noteq> None"
      "fs_SinkHandler cfg \<noteq> None" "s = \<lparr>sv_cfg = cfg, sv_v1 = None, sv_ntls = None, sv_epochs = None, sv_started = False\<rparr>"
    using assms(2) by (auto simp: Facade_NewServer_def split: sum.splits if_splits)
  have "cfg_ok default_server" by (simp add: cfg_ok_def default_server_def zero_policy_def IsZero_def)
  then have "cfg_ok cfg" using apply_options_keeps [where P = cfg_ok, OF _ _ c(1)] server_option_keeps assms(1) by blast
  then show "cfg_ok (sv_cfg s)" "fs_Auth (sv_cfg s) \<noteq> None" "fs_SinkHandler (sv_cfg s) \<noteq> None" "fs_EnableV1 (sv_cfg s) \<or> fs_EnableNTLS (sv_cfg s)"
    "sv_v1 s = None" "sv_ntls s = None" "\<not> sv_started s" using c by simp_all
qed


section \<open>A started server\<close>

definition v1_ready :: "ServerConfig \<Rightarrow> nat \<Rightarrow> v1_ServerConfig bound_server \<Rightarrow> bool" where
  "v1_ready cfg alloc v \<longleftrightarrow> handler_wf (bd_hcfg v) \<and> sp_Profile (bh_Policy (bd_hcfg v)) = PROFILE_INTL \<and> bh_Epochs (bd_hcfg v) = Some alloc \<and>
     bh_Commands (bd_hcfg v) = fs_Commands cfg"

definition ntls_ready :: "ServerConfig \<Rightarrow> nat \<Rightarrow> ntls_ServerConfig bound_server \<Rightarrow> bool" where
  "ntls_ready cfg alloc n \<longleftrightarrow> handler_wf (bd_hcfg n) \<and> sp_Profile (bh_Policy (bd_hcfg n)) = NTLSProfileFor (nl_TLSMode (ns_Listen (fs_NTLSCfg cfg))) \<and>
     bh_Epochs (bd_hcfg n) = Some alloc \<and> ns_Listen (bd_config n) = ns_Listen (fs_NTLSCfg cfg)"

definition v1_addr_ok :: "ServerConfig \<Rightarrow> bool" where
  "v1_addr_ok cfg \<longleftrightarrow> ValidateListenAddr (qs_Address (fs_V1QUIC cfg)) = None"

definition ntls_certs_ok :: "ServerConfig \<Rightarrow> bool" where
  "ntls_certs_ok cfg \<longleftrightarrow> (let l = ns_Listen (fs_NTLSCfg cfg) in ValidateListenAddr (nl_Address l) = None \<and>
     (if nl_TLSMode l then nl_CertFile l \<noteq> [] \<and> nl_KeyFile l \<noteq> []
      else nl_SignCertFile l \<noteq> [] \<and> nl_SignKeyFile l \<noteq> [] \<and> nl_EncCertFile l \<noteq> [] \<and> nl_EncKeyFile l \<noteq> []))"

lemma IsZero_invalid: "Policy_Validate p = None \<Longrightarrow> \<not> IsZero p"
  using Policy_Validate_iff [of p] by blast

lemma initV1Server_ready:
  assumes "cfg_ok (sv_cfg s)" "fs_Auth (sv_cfg s) \<noteq> None" "fs_SinkHandler (sv_cfg s) \<noteq> None" "sv_epochs s = Some alloc" "newID \<noteq> []"
  shows "if v1_addr_ok (sv_cfg s) then \<exists>v. initV1Server newID k s = (None, s\<lparr>sv_v1 := Some v\<rparr>) \<and> v1_ready (sv_cfg s) alloc v
    else \<exists>e. initV1Server newID k s = (Some e, s)"
proof -
  let ?c = "sv_cfg s"
  let ?cfg = "\<lparr>vs_Transport = fs_V1QUIC ?c, vs_Handler = (shared_handler ?c (sv_epochs s) PROFILE_INTL zero_handler)\<lparr>bh_Commands := fs_Commands ?c\<rparr>,
         vs_MaxConcurrentConns = fs_MaxConcurrentConns ?c\<rparr>"
  have i: "initV1Server newID k s = (case v1_NewServer newID k ?cfg of Inl e \<Rightarrow> (Some e, s) | Inr v \<Rightarrow> (None, s\<lparr>sv_v1 := Some v\<rparr>))"
    by (simp add: initV1Server_def ProfileFor_def Let_def)
  have p: "Policy_Validate (bh_Policy (vs_Handler ?cfg)) = None" "sp_Profile (bh_Policy (vs_Handler ?cfg)) = PROFILE_INTL"
    using derived_policy_valid [of "fs_Policy ?c" PROFILE_INTL "fs_ZstdDict ?c" "fs_ZstdDictID ?c"] assms(1)
    by (simp_all add: shared_handler_def cfg_ok_def)
  note z = IsZero_invalid [OF p(1)]
  show ?thesis
  proof (cases "v1_addr_ok ?c")
    case True
    obtain v where v: "v1_NewServer newID k ?cfg = Inr v"
      by (rule v1_NewServer_ok [of ?cfg newID k]) (use True z p(1) assms(2,3) in \<open>simp_all add: v1_addr_ok_def shared_handler_def\<close>)
    then have "v1_ready ?c alloc v" using v1_NewServer_wf [OF v assms(5)] z p(2) assms(4)
      by (simp add: v1_ready_def epochAlloc_def shared_handler_def)
    moreover have "initV1Server newID k s = (None, s\<lparr>sv_v1 := Some v\<rparr>)" using i v by simp
    ultimately show ?thesis using True by auto
  next
    case False
    then show ?thesis using i by (auto simp: v1_NewServer_def v1_addr_ok_def)
  qed
qed

lemma initNTLSServer_ready:
  assumes "cfg_ok (sv_cfg s)" "fs_Auth (sv_cfg s) \<noteq> None" "fs_SinkHandler (sv_cfg s) \<noteq> None" "sv_epochs s = Some alloc" "newID \<noteq> []"
  shows "if ntls_certs_ok (sv_cfg s) then \<exists>n. initNTLSServer newID k s = (None, s\<lparr>sv_ntls := Some n\<rparr>) \<and> ntls_ready (sv_cfg s) alloc n
    else \<exists>e. initNTLSServer newID k s = (Some e, s)"
proof -
  let ?c = "sv_cfg s" and ?prof = "NTLSProfileFor (nl_TLSMode (ns_Listen (fs_NTLSCfg (sv_cfg s))))"
  let ?cfg = "(fs_NTLSCfg ?c)\<lparr>ns_Handler := shared_handler ?c (sv_epochs s) ?prof (ns_Handler (fs_NTLSCfg ?c)), ns_MaxConcurrentConns := fs_MaxConcurrentConns ?c\<rparr>"
  have i: "initNTLSServer newID k s = (case ntls_NewServer newID k ?cfg of Inl e \<Rightarrow> (Some e, s) | Inr n \<Rightarrow> (None, s\<lparr>sv_ntls := Some n\<rparr>))"
    by (simp add: initNTLSServer_def Let_def)
  have p: "Policy_Validate (bh_Policy (ns_Handler ?cfg)) = None" "sp_Profile (bh_Policy (ns_Handler ?cfg)) = ?prof"
    using derived_policy_valid [of "fs_Policy ?c" ?prof "fs_ZstdDict ?c" "fs_ZstdDictID ?c"] assms(1)
    by (simp_all add: shared_handler_def cfg_ok_def NTLSProfileFor_def)
  note z = IsZero_invalid [OF p(1)]
  show ?thesis
  proof (cases "ntls_certs_ok ?c")
    case True
    obtain n where n: "ntls_NewServer newID k ?cfg = Inr n" "bd_config n = ?cfg"
      by (rule ntls_NewServer_ok [of ?cfg newID k]) (use True z p(1) assms(2,3) in \<open>simp_all add: ntls_certs_ok_def Let_def shared_handler_def\<close>)
    then have "ntls_ready ?c alloc n" using ntls_NewServer_wf [OF n(1) assms(5)] z p(2) assms(4)
      by (simp add: ntls_ready_def epochAlloc_def shared_handler_def)
    moreover have "initNTLSServer newID k s = (None, s\<lparr>sv_ntls := Some n\<rparr>)" using i n(1) by simp
    ultimately show ?thesis using True by auto
  next
    case False
    have "\<exists>e. ntls_NewServer newID k ?cfg = Inl e"
    proof (cases "ValidateListenAddr (nl_Address (ns_Listen ?cfg))")
      case None
      then show ?thesis using False by (cases "nl_TLSMode (ns_Listen ?cfg)") (auto simp: ntls_NewServer_def ntls_certs_ok_def Let_def)
    qed (simp add: ntls_NewServer_def)
    then show ?thesis using False i by auto
  qed
qed

lemma Start_init_ready:
  assumes "\<forall>opt \<in> set opts. server_option opt" "Facade_NewServer opts = Inr s" "newID \<noteq> []" "Start_init newID k alloc s = (r, s')"
  shows "r = None \<longleftrightarrow> (fs_EnableV1 (sv_cfg s) \<longrightarrow> v1_addr_ok (sv_cfg s)) \<and> (fs_EnableNTLS (sv_cfg s) \<longrightarrow> ntls_certs_ok (sv_cfg s))"
    "r = None \<Longrightarrow> sv_started s' \<and>
      (case sv_v1 s' of None \<Rightarrow> \<not> fs_EnableV1 (sv_cfg s) | Some v \<Rightarrow> fs_EnableV1 (sv_cfg s) \<and> v1_ready (sv_cfg s) alloc v) \<and>
      (case sv_ntls s' of None \<Rightarrow> \<not> fs_EnableNTLS (sv_cfg s) | Some n \<Rightarrow> fs_EnableNTLS (sv_cfg s) \<and> ntls_ready (sv_cfg s) alloc n)"
    "r \<noteq> None \<Longrightarrow> \<not> sv_started s' \<and> sv_v1 s' = None \<and> sv_ntls s' = None"
proof -
  note n = new_server_cfg [OF assms(1,2)]
  let ?s = "s\<lparr>sv_epochs := Some alloc, sv_started := True\<rparr>"
  have v: "if v1_addr_ok (sv_cfg s) then \<exists>v. initV1Server newID k ?s = (None, ?s\<lparr>sv_v1 := Some v\<rparr>) \<and> v1_ready (sv_cfg s) alloc v
      else \<exists>e. initV1Server newID k ?s = (Some e, ?s)"
    using initV1Server_ready [of ?s alloc newID k] n assms(3) by (cases "v1_addr_ok (sv_cfg s)") simp_all
  have t: "if ntls_certs_ok (sv_cfg s) then \<exists>n. initNTLSServer newID k t = (None, t\<lparr>sv_ntls := Some n\<rparr>) \<and> ntls_ready (sv_cfg s) alloc n
      else \<exists>e. initNTLSServer newID k t = (Some e, t)" if "sv_cfg t = sv_cfg s" "sv_epochs t = Some alloc" for t
    using initNTLSServer_ready [of t alloc newID k] n assms(3) that by (cases "ntls_certs_ok (sv_cfg s)") simp_all
  have all: "(r = None \<longleftrightarrow> (fs_EnableV1 (sv_cfg s) \<longrightarrow> v1_addr_ok (sv_cfg s)) \<and> (fs_EnableNTLS (sv_cfg s) \<longrightarrow> ntls_certs_ok (sv_cfg s))) \<and>
    (r = None \<longrightarrow> sv_started s' \<and>
      (case sv_v1 s' of None \<Rightarrow> \<not> fs_EnableV1 (sv_cfg s) | Some v \<Rightarrow> fs_EnableV1 (sv_cfg s) \<and> v1_ready (sv_cfg s) alloc v) \<and>
      (case sv_ntls s' of None \<Rightarrow> \<not> fs_EnableNTLS (sv_cfg s) | Some n \<Rightarrow> fs_EnableNTLS (sv_cfg s) \<and> ntls_ready (sv_cfg s) alloc n)) \<and>
    (r \<noteq> None \<longrightarrow> \<not> sv_started s' \<and> sv_v1 s' = None \<and> sv_ntls s' = None)"
  proof (cases "fs_EnableV1 (sv_cfg s)")
    case True
    show ?thesis
    proof (cases "v1_addr_ok (sv_cfg s)")
      case ok: True
      then obtain w where w: "initV1Server newID k ?s = (None, ?s\<lparr>sv_v1 := Some w\<rparr>)" "v1_ready (sv_cfg s) alloc w" using v by auto
      then show ?thesis using assms(4) True ok n(5-7) t [of "?s\<lparr>sv_v1 := Some w\<rparr>"] by (auto simp: Start_init_def Let_def split: if_splits)
    next
      case False
      then show ?thesis using assms(4) True v n(5-7) by (auto simp: Start_init_def Let_def)
    qed
  next
    case False
    then show ?thesis using assms(4) n(4-7) t [of ?s] by (auto simp: Start_init_def Let_def split: if_splits)
  qed
  then show "r = None \<longleftrightarrow> (fs_EnableV1 (sv_cfg s) \<longrightarrow> v1_addr_ok (sv_cfg s)) \<and> (fs_EnableNTLS (sv_cfg s) \<longrightarrow> ntls_certs_ok (sv_cfg s))"
    "r = None \<Longrightarrow> sv_started s' \<and>
      (case sv_v1 s' of None \<Rightarrow> \<not> fs_EnableV1 (sv_cfg s) | Some v \<Rightarrow> fs_EnableV1 (sv_cfg s) \<and> v1_ready (sv_cfg s) alloc v) \<and>
      (case sv_ntls s' of None \<Rightarrow> \<not> fs_EnableNTLS (sv_cfg s) | Some n \<Rightarrow> fs_EnableNTLS (sv_cfg s) \<and> ntls_ready (sv_cfg s) alloc n)"
    "r \<noteq> None \<Longrightarrow> \<not> sv_started s' \<and> sv_v1 s' = None \<and> sv_ntls s' = None" by blast+
qed


text \<open>
  \<open>Close\<close> leaves no server running, so it closes each listener at most once: a second \<open>Close\<close> reports nothing and changes nothing. Nor does an
  error of one version keep the other from being closed.
\<close>

lemma binding_Close_stopped: "bs_runState (binding_Close b) \<noteq> runStateRunning" "bs_runState b \<noteq> runStateRunning \<Longrightarrow> binding_Close b = b"
  by (simp_all add: binding_Close_def close_listener_def runStateRunning_def runStateStopped_def Let_def split: option.splits)

lemma close_version_again: "close_version what a b = (errs, b') \<Longrightarrow> close_version what a' b' = ([], b')"
  by (auto simp: close_version_def close_bound_def binding_Close_stopped split: option.splits prod.splits)

lemma close_version_stops: "close_version what a b = (errs, Some v) \<Longrightarrow> bs_runState (bd_server v) \<noteq> runStateRunning"
  by (auto simp: close_version_def close_bound_def binding_Close_stopped split: option.splits)

theorem server_close_idempotent:
  assumes "Facade_Server_Close a n s = (errs, s')"
  shows "Facade_Server_Close a' n' s' = ([], s') \<and> \<not> sv_started s' \<and>
    (\<forall>v. sv_v1 s' = Some v \<longrightarrow> bs_runState (bd_server v) \<noteq> runStateRunning) \<and>
    (\<forall>v. sv_ntls s' = Some v \<longrightarrow> bs_runState (bd_server v) \<noteq> runStateRunning)"
proof -
  obtain e1 v e2 w where c: "close_version ''v1'' a (sv_v1 s) = (e1, v)" "close_version ''ntls'' n (sv_ntls s) = (e2, w)"
    by (cases "close_version ''v1'' a (sv_v1 s)", cases "close_version ''ntls'' n (sv_ntls s)")
  then have s': "s' = s\<lparr>sv_v1 := v, sv_ntls := w, sv_started := False\<rparr>" using assms by (simp add: Facade_Server_Close_def)
  show ?thesis using c s' close_version_again [OF c(1), of a'] close_version_again [OF c(2), of n']
    by (auto simp: Facade_Server_Close_def dest: close_version_stops)
qed

section \<open>A client and its connection\<close>

lemma NewClient_cases:
  assumes "NewClient opts = Inr c"
  shows "case fc_client c of
      Some (V1Wrapper b t) \<Rightarrow> \<exists>core. b = fresh_client core \<and> NewClientCore (client_core (fc_cfg c) PROFILE_INTL) = Inr core \<and> fk_Version (fc_cfg c) = Version1
    | Some (NTLSWrapper b (_, creds)) \<Rightarrow> \<exists>core. b = fresh_client core \<and> fk_Version (fc_cfg c) = VersionNTLS \<and>
        NewClientCore (client_core (fc_cfg c) (NTLSProfileFor (nc_TLSMode creds))) = Inr core
    | None \<Rightarrow> False"
proof -
  obtain cfg v where c: "c = \<lparr>fc_cfg = cfg, fc_client = Some v\<rparr>" "initClient cfg = Inr v"
    using assms by (auto simp: NewClient_def split: sum.splits if_splits)
  have n: "PROFILE_INTL \<noteq> 0" "NTLSProfileFor m \<noteq> 0" for m by (simp_all add: NTLSProfileFor_def)
  show ?thesis
  proof (cases "fk_Version cfg = Version1")
    case True
    then obtain creds core where "v = V1Wrapper (fresh_client core) \<lparr>qd_Server = fk_Server cfg, qd_Credentials = Some creds, qd_IdleTimeout = 0\<rparr>"
        "NewClientCore (client_core cfg PROFILE_INTL) = Inr core"
      using c(2) n by (auto simp: initClient_def initV1Client_def ProfileFor_def v1_NewClient_def client_core_def Let_def split: option.splits sum.splits)
    then show ?thesis using c(1) True by simp
  next
    case False
    then have "fk_Version cfg = VersionNTLS" using c(2) by (auto simp: initClient_def split: if_splits)
    moreover obtain creds core where "v = NTLSWrapper (fresh_client core) (fk_Server cfg, creds)"
        "NewClientCore (client_core cfg (NTLSProfileFor (nc_TLSMode creds))) = Inr core"
      using c(2) n False by (auto simp: initClient_def initNTLSClient_def ntls_NewClient_def client_core_def Let_def split: option.splits sum.splits if_splits)
    ultimately show ?thesis using c(1) by simp
  qed
qed

section \<open>Properties\<close>


definition demo_server_options :: "ServerOption list" where
  "demo_server_options = [WithV1 \<lparr>qs_Address = '':7400'', qs_Credentials = None, qs_MaxIncomingStreams = 0, qs_IdleTimeout = 0\<rparr>,
     WithAuth (Some (\<lambda>_. Inr [''secret''])), WithSink False (Some (\<lambda>_. \<lparr>run_early = [], run_late = None, run_panic = False\<rparr>)), WithZstdDict 7 [1, 2, 3]]"

lemma demo_addr: "ValidateListenAddr '':7400'' = None"
  by (simp add: ValidateListenAddr_def SplitHostPort_def LastIndexByte_def Atoi_def)

lemma demo_server_new:
  obtains s where "Facade_NewServer demo_server_options = Inr s" "fs_EnableV1 (sv_cfg s)" "\<not> fs_EnableNTLS (sv_cfg s)" "v1_addr_ok (sv_cfg s)"
  by (simp add: Facade_NewServer_def demo_server_options_def default_server_def WithV1_def WithAuth_def WithSink_def WithZstdDict_def
      MaxZstdDictBytes_def v1_addr_ok_def demo_addr)




definition demo_client_options :: "ClientOption list" where
  "demo_client_options = [WithServer ''h:7400'', WithAgent ''agent-1'' ''secret'', WithCapabilities [CapCbor],
     WithV1Credentials \<lparr>vc_CAFile = ''ca.pem'', vc_CertFile = [], vc_KeyFile = [], vc_ServerName = [], vc_InsecureSkipVerify = False\<rparr>]"

lemma demo_host: "ValidateHostPort ''h:7400'' = None"
  by (simp add: ValidateHostPort_def SplitHostPort_def LastIndexByte_def Atoi_def)

lemma demo_client_new:
  obtains c b t where "NewClient demo_client_options = Inr c" "fc_client c = Some (V1Wrapper b t)"
  by (simp add: NewClient_def demo_client_options_def default_client_def WithServer_def WithAgent_def WithCapabilities_def WithV1Credentials_def
      initClient_def initV1Client_def v1_NewClient_def demo_host ProfileFor_def NewClientCore_def client_core_def FilterUnknownCaps_def KnownCaps_def
      Version1_def)


text \<open>
  The end of a client is final. \<open>Close\<close> wipes the token and the credentials from the configuration, ends the protocol client and drops it:
  afterwards \<open>Connect\<close>, \<open>SendBatch\<close> and \<open>SendDatagram\<close> fail without any effect, a second \<open>Close\<close> does nothing, and no handler is registered;
  the state it reports is that of a new client, \<open>idle\<close>.
\<close>

theorem facade_close_final:
  assumes "Facade_Close E c = (v', c')"
  shows "fk_Token (fc_cfg c') = [] \<and> fk_V1Creds (fc_cfg c') = None \<and> fk_NTLSCreds (fc_cfg c') = None \<and>
    (\<exists>e. Facade_Connect A c' = Some (Some e, c')) \<and> (\<exists>e. Facade_SendBatch E now sb opts c' = (Inl e, c')) \<and>
    (\<exists>e. Facade_SendDatagram E now sb opts c' = (Inl e, c')) \<and> Facade_Close E c' = (None, c') \<and>
    Facade_SetResultHandler c' = c' \<and> Facade_SetRedirectHandler c' = c' \<and> Facade_State c' = State_String StateIdle \<and>
    (case (fc_client c, v') of (None, None) \<Rightarrow> True | (Some v, Some w) \<Rightarrow> w = versioned_Close E v \<and> (\<not> ct_closeOnce (versioned_core v) \<longrightarrow> ct_closed (versioned_core w)) | _ \<Rightarrow> False)"
proof -
  have "ct_closed (versioned_core (versioned_Close E v))" if "\<not> ct_closeOnce (versioned_core v)" for v
    using that by (cases v) (simp_all add: app_close_ends)
  moreover have "fc_client c' = None" "fc_cfg c' = (fc_cfg c)\<lparr>fk_Token := [], fk_V1Creds := None, fk_NTLSCreds := None\<rparr>"
      "v' = map_option (versioned_Close E) (fc_client c)" using assms by (auto simp: Facade_Close_def Let_def)
  ultimately show ?thesis
    by (cases c') (auto simp: Facade_Close_def Facade_Connect_def Facade_SendBatch_def Facade_SendDatagram_def Facade_SetResultHandler_def
        Facade_SetRedirectHandler_def Facade_State_def Let_def split: option.splits)
qed

theorem facade_close_final_witness:
  "\<exists>c c' w. NewClient demo_client_options = Inr c \<and> Facade_Close demo_cenv c = (Some w, c') \<and> Facade_Close demo_cenv c' = (None, c') \<and>
     fk_Token (fc_cfg c') = []"
proof -
  obtain c b t where c: "NewClient demo_client_options = Inr c" "fc_client c = Some (V1Wrapper b t)" by (rule demo_client_new)
  obtain v' c' where v: "Facade_Close demo_cenv c = (v', c')" by (cases "Facade_Close demo_cenv c")
  moreover have "v' \<noteq> None" using v c by (auto simp: Facade_Close_def Let_def)
  ultimately show ?thesis using facade_close_final [OF v] c by auto
qed

end
