(* ===== verification/Identifiers.thy ===== *)
theory Identifiers
  imports Errors
begin

unbundle bit_operations_syntax

text \<open>
  Batch and server identifiers, \<open>core/ulid.go\<close>. The ULID library is a parameter: it yields sixteen bytes, or panics, which is \<open>None\<close>; so is
  the random source, which fills the bytes asked for or fails. The clock is read once for the time stamp and once more when there is no
  randomness either.
\<close>

type_synonym ChunkID = "byte list"

definition zero_id :: ChunkID where "zero_id = replicate 16 0"

text \<open>\<open>copy\<close> into a slice that starts at \<open>i\<close>.\<close>

definition put_at :: "nat \<Rightarrow> byte list \<Rightarrow> byte list \<Rightarrow> byte list" where
  "put_at i bs u = take i u @ bs @ drop (i + length bs) u"

definition PutUint64_LE :: "64 word \<Rightarrow> byte list" where
  "PutUint64_LE w = map (\<lambda>i. ucast (drop_bit (8 * i) w)) [0..<8]"

definition fallback_stamp :: "64 word \<Rightarrow> byte list" where
  "fallback_stamp now = map (\<lambda>k. ucast (drop_bit k now)) [40, 32, 24, 16, 8, 0]"

definition NewChunkID :: "ChunkID option \<Rightarrow> 64 word \<Rightarrow> byte list option \<Rightarrow> 64 word \<Rightarrow> ChunkID" where
  "NewChunkID mustNew now rnd nowNs =
    (case mustNew of
       Some u \<Rightarrow> u
     | None \<Rightarrow>
         let u = put_at 0 (fallback_stamp now) zero_id in
         case rnd of
           Some r \<Rightarrow> put_at 6 r u
         | None \<Rightarrow> put_at 8 (PutUint64_LE (NOT nowNs)) (put_at 6 (PutUint64_LE nowNs) u))"

definition Chunk_IsZero :: "ChunkID \<Rightarrow> bool" where "Chunk_IsZero c = (c = zero_id)"

definition Chunk_Bytes :: "ChunkID \<Rightarrow> byte list" where "Chunk_Bytes c = c"

definition ChunkIDFromBytes :: "byte list \<Rightarrow> ChunkID res" where
  "ChunkIDFromBytes b = (if length b \<noteq> 16 then Inl (OtherErr ''chunk_id must be 16 bytes'' None) else Inr (put_at 0 b zero_id))"

lemma put_at_length: "i + length bs \<le> length u \<Longrightarrow> length (put_at i bs u) = length u"
  by (simp add: put_at_def)

lemma lengths [simp]: "length zero_id = 16" "length (PutUint64_LE w) = 8" "length (fallback_stamp w) = 6"
  by (simp_all add: zero_id_def PutUint64_LE_def fallback_stamp_def)

text \<open>
  An identifier is always made: sixteen bytes, whether the library panics or not and whether there is randomness or not. Sixteen bytes are
  exactly what can be read back, unchanged.
\<close>

theorem NewChunkID_total:
  assumes "\<forall>u. mustNew = Some u \<longrightarrow> length u = 16" "\<forall>r. rnd = Some r \<longrightarrow> length r = 10"
  shows "length (NewChunkID mustNew now rnd nowNs) = 16 \<and>
    ChunkIDFromBytes (Chunk_Bytes (NewChunkID mustNew now rnd nowNs)) = Inr (NewChunkID mustNew now rnd nowNs)"
proof -
  have n: "length (NewChunkID mustNew now rnd nowNs) = 16"
    using assms by (auto simp: NewChunkID_def put_at_length Let_def split: option.splits)
  then show ?thesis by (simp add: ChunkIDFromBytes_def Chunk_Bytes_def put_at_def)
qed

theorem NewChunkID_total_witness: "length (NewChunkID None 5 None 6) = 16"
  using NewChunkID_total [of None None 5 6] by simp

text \<open>
  The identifier of the last resort depends on the clock alone and still shows it twice: after the stamp come the two low bytes of the
  nanoseconds and the eight bytes of their complement. So it is never the zero identifier.
\<close>

lemma weak_id: "NewChunkID None now None nowNs = fallback_stamp now @ take 2 (PutUint64_LE nowNs) @ PutUint64_LE (NOT nowNs)"
  by (simp add: NewChunkID_def put_at_def zero_id_def Let_def)

lemma LE_zero: "PutUint64_LE w = replicate 8 0 \<Longrightarrow> w = 0"
proof -
  assume "PutUint64_LE w = replicate 8 0"
  then have z: "(ucast (drop_bit (8 * i) w) :: byte) = 0" if "i < 8" for i
    using that by (auto simp: PutUint64_LE_def list_eq_iff_nth_eq)
  show "w = 0"
  proof (rule bit_word_eqI)
    fix n assume n: "n < LENGTH(64)"
    have "bit (ucast (drop_bit (8 * (n div 8)) w) :: byte) (n mod 8) = bit w n" using n by (simp add: bit_simps)
    then show "bit w n = bit 0 n" using z [of "n div 8"] n by simp
  qed
qed

theorem weak_id_not_zero: "\<not> Chunk_IsZero (NewChunkID None now None nowNs)"
proof
  assume z: "Chunk_IsZero (NewChunkID None now None nowNs)"
  then have "drop 8 (NewChunkID None now None nowNs) = drop 8 zero_id" by (simp add: Chunk_IsZero_def)
  then have "PutUint64_LE (NOT nowNs) = replicate 8 0" by (simp add: weak_id zero_id_def)
  then have "nowNs = NOT 0" using LE_zero [of "NOT nowNs"] bit.double_compl [of nowNs] by simp
  moreover have "NewChunkID None now None nowNs ! 6 = ucast nowNs" by (simp add: weak_id nth_append PutUint64_LE_def)
  moreover have "NewChunkID None now None nowNs ! 6 = 0" using z by (simp add: Chunk_IsZero_def zero_id_def)
  ultimately have "(ucast (NOT 0 :: 64 word) :: byte) = 0" by simp
  moreover have "bit (ucast (NOT 0 :: 64 word) :: byte) 0" by (simp add: bit_simps)
  ultimately show False by simp
qed

text \<open>
  The stamp of the fallback counts nanoseconds in 48 bits where a ULID counts milliseconds. It starts anew every 78 hours, so identifiers made
  by the fallback are not ordered by time, neither among each other nor against those of the library.
\<close>

theorem fallback_order_lost:
  "fallback_stamp (2 ^ 48 - 1) = [255, 255, 255, 255, 255, 255] \<and> fallback_stamp (2 ^ 48) = [0, 0, 0, 0, 0, 0]"
  by (simp add: fallback_stamp_def)

end
