(* ===== verification/Metrics.thy ===== *)
theory Metrics
  imports Errors Complex_Main
begin

text \<open>
  The metrics of \<open>core/metrics.go\<close>: the collectors and how they are registered, and the guard around counters. The Prometheus library is a
  parameter: a registry with the function \<open>Register\<close>, and the \<open>Add\<close> of its counters, which panics, here \<open>None\<close>, on a negative value. A
  collector is what it was created from, and a number that stands for the object.
\<close>

section \<open>Counters\<close>

text \<open>\<open>Add\<close> of a \<open>guardedCounter\<close>; \<open>neg\<close> is the comparison with zero of the library's numbers.\<close>

definition guarded_Add :: "('v \<Rightarrow> bool) \<Rightarrow> ('v \<Rightarrow> 'c \<Rightarrow> 'c option) \<Rightarrow> 'v \<Rightarrow> 'c \<Rightarrow> 'c option" where
  "guarded_Add neg add v c = (if neg v then Some c else add v c)"

text \<open>A guarded counter never panics, whatever it is given, and adds what is not negative.\<close>

theorem guarded_Add_safe:
  assumes "\<forall>v c. add v c = None \<longrightarrow> neg v"
  shows "\<exists>c'. guarded_Add neg add v c = Some c' \<and> (neg v \<longrightarrow> c' = c) \<and> (\<not> neg v \<longrightarrow> add v c = Some c')"
  using assms by (cases "add v c") (auto simp: guarded_Add_def)

theorem guarded_Add_safe_witness:
  "\<exists>c'. guarded_Add (\<lambda>v. v < (0 :: int)) (\<lambda>v c. if v < 0 then None else Some (c + v)) (- 3) 5 = Some c' \<and> c' = 5"
  using guarded_Add_safe [of "\<lambda>v c. if v < (0 :: int) then None else Some (c + v)" "\<lambda>v. v < 0" "- 3" 5] by auto

section \<open>Registration\<close>

datatype metric_kind = KCounter | KGauge | KHistogram

record metric_opts =
  mo_kind :: metric_kind
  mo_Name :: string
  mo_Help :: string
  mo_Buckets :: "rat list"

definition namespace :: string where "namespace = ''mbta''"

record collector =
  co_opts :: metric_opts
  co_id :: nat

text \<open>What \<open>Register\<close> answers: a collector of that description may be there already.\<close>

datatype register_result = Registered | AlreadyRegistered collector | RegisterError

text \<open>The result \<open>None\<close> is a panic. The collector that is there is taken if it has the type asked for.\<close>

definition registerOrExisting :: "(collector \<Rightarrow> 'r \<Rightarrow> register_result \<times> 'r) \<Rightarrow> collector \<Rightarrow> 'r \<Rightarrow> (collector \<times> 'r) option" where
  "registerOrExisting Register c reg =
    (case Register c reg of
       (Registered, reg) \<Rightarrow> Some (c, reg)
     | (AlreadyRegistered existing, reg) \<Rightarrow> Some (if mo_kind (co_opts existing) = mo_kind (co_opts c) then existing else c, reg)
     | (RegisterError, reg) \<Rightarrow> None)"

definition metric :: "metric_kind \<Rightarrow> string \<Rightarrow> string \<Rightarrow> rat list \<Rightarrow> metric_opts" where
  "metric k name help buckets = \<lparr>mo_kind = k, mo_Name = namespace @ ''_'' @ name, mo_Help = help, mo_Buckets = buckets\<rparr>"

text \<open>The fields of \<open>MBTAMetrics\<close> as \<open>New\<close> fills them, in this order.\<close>

definition metric_specs :: "metric_opts list" where
  "metric_specs =
    [metric KGauge ''connections_active'' ''Current number of active MBTA connections'' [],
     metric KCounter ''auth_success_total'' ''Total number of successful authentications'' [],
     metric KCounter ''auth_failure_total'' ''Total number of failed authentications'' [],
     metric KCounter ''batches_sent_total'' ''Total number of batches sent by agents'' [],
     metric KCounter ''hmac_failures_total'' ''Total number of HMAC verification failures'' [],
     metric KCounter ''decrypt_failures_total'' ''Total number of decryption failures'' [],
     metric KCounter ''sink_failures_total'' ''Total sink delivery failures (handler error or panic after terminal result)'' [],
     metric KHistogram ''batch_latency_seconds'' ''Latency from SendBatch to ACK in seconds''
       [1 / 100, 5 / 100, 1 / 10, 25 / 100, 5 / 10, 1, 25 / 10, 5, 10],
     metric KGauge ''credits_outstanding'' ''Current outstanding credit batches (granted minus recovered)'' [],
     metric KGauge ''sink_queue_depth'' ''Current sink async queue depth (tasks)'' [],
     metric KHistogram ''batch_size_events'' ''Number of events per batch'' [1, 5, 10, 50, 100, 500, 1000, 5000, 10000],
     metric KHistogram ''batch_size_bytes'' ''Batch size in bytes'' [100, 1000, 10000, 100000, 1000000, 10000000],
     metric KHistogram ''connection_duration_seconds'' ''Connection lifetime in seconds'' [60, 300, 900, 1800, 3600, 21600, 43200, 86400]]"

fun register_specs :: "(collector \<Rightarrow> 'r \<Rightarrow> register_result \<times> 'r) \<Rightarrow> nat \<Rightarrow> metric_opts list \<Rightarrow> 'r \<Rightarrow> (collector list \<times> 'r) option" where
  "register_specs Register next [] reg = Some ([], reg)"
| "register_specs Register next (m # ms) reg =
    (case registerOrExisting Register \<lparr>co_opts = m, co_id = next\<rparr> reg of
       None \<Rightarrow> None
     | Some (c, reg) \<Rightarrow>
         (case register_specs Register (Suc next) ms reg of None \<Rightarrow> None | Some (cs, reg) \<Rightarrow> Some (c # cs, reg)))"

text \<open>\<open>New\<close>; the numbers from \<open>next\<close> on are the new objects. A missing registry is the default one.\<close>

definition New_metrics :: "(collector \<Rightarrow> 'r \<Rightarrow> register_result \<times> 'r) \<Rightarrow> nat \<Rightarrow> 'r \<Rightarrow> 'r option \<Rightarrow> (collector list \<times> 'r) option" where
  "New_metrics Register next defaultReg reg = register_specs Register next metric_specs (case reg of None \<Rightarrow> defaultReg | Some r \<Rightarrow> r)"

text \<open>
  A registry knows a collector by its name; one of the same name and help is reported as registered already, one of the same name and
  another help is an error.
\<close>

definition registry_laws :: "(collector \<Rightarrow> 'r \<Rightarrow> register_result \<times> 'r) \<Rightarrow> ('r \<Rightarrow> string \<Rightarrow> collector option) \<Rightarrow> bool" where
  "registry_laws Register known \<longleftrightarrow> (\<forall>c reg.
     (case known reg (mo_Name (co_opts c)) of
        None \<Rightarrow> \<exists>reg'. Register c reg = (Registered, reg') \<and> known reg' = (known reg)(mo_Name (co_opts c) \<mapsto> c)
      | Some d \<Rightarrow> Register c reg = (if mo_Help (co_opts d) = mo_Help (co_opts c) then AlreadyRegistered d else RegisterError, reg)))"

lemma registry_new: "registry_laws Register known \<Longrightarrow> known reg (mo_Name (co_opts c)) = None \<Longrightarrow>
    \<exists>reg'. Register c reg = (Registered, reg') \<and> known reg' = (known reg)(mo_Name (co_opts c) \<mapsto> c)"
  unfolding registry_laws_def by (drule spec [of _ c], drule spec [of _ reg]) simp

lemma registry_again: "registry_laws Register known \<Longrightarrow> known reg (mo_Name (co_opts c)) = Some d \<Longrightarrow> mo_Help (co_opts d) = mo_Help (co_opts c) \<Longrightarrow>
    Register c reg = (AlreadyRegistered d, reg)"
  unfolding registry_laws_def by (drule spec [of _ c], drule spec [of _ reg]) simp

text \<open>Names already known with their own specification: nothing new is registered and what is known is returned.\<close>

lemma register_known:
  assumes "registry_laws Register known" "list_all2 (\<lambda>m c. known reg (mo_Name m) = Some c \<and> co_opts c = m) ms cs"
  shows "register_specs Register n ms reg = Some (cs, reg)"
  using assms(2)
proof (induction ms cs arbitrary: n rule: list_all2_induct)
  case (Cons m ms c cs)
  then show ?case using registry_again [OF assms(1), of reg "\<lparr>co_opts = m, co_id = n\<rparr>" c] by (simp add: registerOrExisting_def)
qed simp

text \<open>On a registry that knows none of the names, all of them are registered, as new objects.\<close>

lemma register_fresh:
  assumes "registry_laws Register known" "distinct (map mo_Name ms)" "\<forall>m \<in> set ms. known reg (mo_Name m) = None"
  shows "\<exists>cs reg'. register_specs Register n ms reg = Some (cs, reg') \<and> map co_opts cs = ms \<and>
    list_all2 (\<lambda>m c. known reg' (mo_Name m) = Some c \<and> co_opts c = m) ms cs \<and> (\<forall>x. x \<notin> mo_Name ` set ms \<longrightarrow> known reg' x = known reg x)"
  using assms(2,3)
proof (induction ms arbitrary: n reg)
  case (Cons m ms)
  obtain r1 where r1: "Register \<lparr>co_opts = m, co_id = n\<rparr> reg = (Registered, r1)" "known r1 = (known reg)(mo_Name m \<mapsto> \<lparr>co_opts = m, co_id = n\<rparr>)"
    using registry_new [OF assms(1), of reg "\<lparr>co_opts = m, co_id = n\<rparr>"] Cons.prems(2) by auto
  have "\<forall>m' \<in> set ms. known r1 (mo_Name m') = None" using Cons.prems r1(2) by (auto simp: image_iff)
  then obtain cs reg' where c: "register_specs Register (Suc n) ms r1 = Some (cs, reg')" "map co_opts cs = ms"
      "list_all2 (\<lambda>m c. known reg' (mo_Name m) = Some c \<and> co_opts c = m) ms cs" "\<forall>x. x \<notin> mo_Name ` set ms \<longrightarrow> known reg' x = known r1 x"
    using Cons.IH [of r1 "Suc n"] Cons.prems(1) by auto
  have "known reg' (mo_Name m) = Some \<lparr>co_opts = m, co_id = n\<rparr>" using c(4) r1(2) Cons.prems(1) by auto
  then show ?case using c r1 by (auto simp: registerOrExisting_def)
qed simp

lemma metric_names: "distinct (map mo_Name metric_specs)"
  by (simp add: metric_specs_def metric_def namespace_def)

text \<open>
  Metrics can be created twice. On a registry that knows none of their names \<open>New\<close> registers every collector of the specification; a second
  \<open>New\<close> on the same registry does not panic and returns the collectors of the first, so both count into the same place.
\<close>

theorem New_twice_shares:
  assumes "registry_laws Register known" "\<forall>m \<in> set metric_specs. known reg (mo_Name m) = None"
  shows "\<exists>ms reg'. New_metrics Register n defaultReg (Some reg) = Some (ms, reg') \<and> map co_opts ms = metric_specs \<and>
    New_metrics Register k defaultReg (Some reg') = Some (ms, reg')"
  using register_fresh [OF assms(1) metric_names assms(2), of n] register_known [OF assms(1), of _ metric_specs]
  by (fastforce simp: New_metrics_def)

definition demo_Register :: "collector \<Rightarrow> (string \<Rightarrow> collector option) \<Rightarrow> register_result \<times> (string \<Rightarrow> collector option)" where
  "demo_Register c reg = (case reg (mo_Name (co_opts c)) of
     None \<Rightarrow> (Registered, reg(mo_Name (co_opts c) \<mapsto> c))
   | Some d \<Rightarrow> (if mo_Help (co_opts d) = mo_Help (co_opts c) then AlreadyRegistered d else RegisterError, reg))"

theorem New_twice_shares_witness:
  "\<exists>ms reg'. New_metrics demo_Register 0 Map.empty (Some Map.empty) = Some (ms, reg') \<and> New_metrics demo_Register 100 Map.empty (Some reg') = Some (ms, reg')"
proof -
  have "registry_laws demo_Register (\<lambda>r. r)" by (auto simp: registry_laws_def demo_Register_def split: option.splits)
  from New_twice_shares [OF this, of Map.empty 0 Map.empty 100] show ?thesis by auto
qed

end
