(* ===== verification/Conformance.thy ===== *)
theory Conformance
  imports Channels Validation Manager
begin

text \<open>
  The support the tests of the protocol rest on: the transport in memory of \<open>internal/conformance/fake_transport.go\<close> and the random
  fixtures of \<open>internal/testutil/rand.go\<close>. A conformance test speaks for the real transports as far as this one keeps the same promises, and for
  real clients as far as its fixtures pass the validators.
\<close>

section \<open>The transport in memory\<close>

text \<open>
  Two parts of one call are two steps: a sender checks \<open>closed\<close> under the mutex and sends afterwards. \<open>ft_checked\<close> holds the frames whose
  senders are between them. The result \<open>None\<close> is a panic.
\<close>

record FakeTransport =
  ft_ControlIn :: "Frame gochan"
  ft_DataIn :: "Frame gochan"
  ft_Sent :: "Frame gochan"
  ft_closed :: bool
  ft_checked :: "Frame list"
  ft_done :: "Frame list" \<comment> \<open>the frames whose \<open>SendFrame\<close> returned without an error\<close>
  ft_seen :: "Frame list" \<comment> \<open>those the test has taken from \<open>Sent\<close>\<close>

definition NewFakeTransport :: FakeTransport where
  "NewFakeTransport = \<lparr>ft_ControlIn = make_chan 16, ft_DataIn = make_chan 64, ft_Sent = make_chan 128, ft_closed = False, ft_checked = [], ft_done = [], ft_seen = []\<rparr>"

definition Fake_RecvControlFrame :: "bool \<Rightarrow> go_err option \<Rightarrow> FakeTransport \<Rightarrow> Frame res option \<times> FakeTransport" where
  "Fake_RecvControlFrame preferCtx ctxErr t =
    (case select_recv preferCtx ctxErr (ft_ControlIn t) of
       Got f c \<Rightarrow> (Some (Inr f), t\<lparr>ft_ControlIn := c\<rparr>)
     | GotClosed \<Rightarrow> (Some (Inl (OtherErr ''EOF'' None)), t)
     | RecvBlocks \<Rightarrow> (map_option Inl ctxErr, t))"

definition Fake_RecvDataFrame :: "bool \<Rightarrow> go_err option \<Rightarrow> FakeTransport \<Rightarrow> Frame res option \<times> FakeTransport" where
  "Fake_RecvDataFrame preferCtx ctxErr t =
    (case select_recv preferCtx ctxErr (ft_DataIn t) of
       Got f c \<Rightarrow> (Some (Inr f), t\<lparr>ft_DataIn := c\<rparr>)
     | GotClosed \<Rightarrow> (Some (Inl (OtherErr ''EOF'' None)), t)
     | RecvBlocks \<Rightarrow> (map_option Inl ctxErr, t))"

definition fake_check :: "Frame \<Rightarrow> FakeTransport \<Rightarrow> go_err option \<times> FakeTransport" where
  "fake_check f t =
    (if ft_closed t then (Some (OtherErr ''io: read/write on closed pipe'' None), t) else (None, t\<lparr>ft_checked := ft_checked t @ [f]\<rparr>))"

text \<open>The select of \<open>sendOnChannel\<close>, for the sender \<open>i\<close> of those that passed the check; with \<open>giveUp\<close> its context ended.\<close>

definition fake_send :: "bool \<Rightarrow> nat \<Rightarrow> FakeTransport \<Rightarrow> FakeTransport option" where
  "fake_send giveUp i t =
    (if length (ft_checked t) \<le> i then Some t
     else
       let f = ft_checked t ! i; t' = t\<lparr>ft_checked := take i (ft_checked t) @ drop (Suc i) (ft_checked t)\<rparr> in
       if giveUp then Some t'
       else case chan_send f (ft_Sent t) of
           Sent c \<Rightarrow> Some (t'\<lparr>ft_Sent := c, ft_done := ft_done t @ [f]\<rparr>)
         | SendBlocks \<Rightarrow> Some t
         | SendPanics \<Rightarrow> None)"

definition Fake_Close :: "FakeTransport \<Rightarrow> FakeTransport option" where
  "Fake_Close t =
    (if ft_closed t then Some t
     else case chan_close (ft_ControlIn t) of None \<Rightarrow> None
       | Some c \<Rightarrow> (case chan_close (ft_DataIn t) of None \<Rightarrow> None
         | Some d \<Rightarrow> Some (t\<lparr>ft_closed := True, ft_ControlIn := c, ft_DataIn := d\<rparr>)))"

text \<open>The two ends of a test: it puts frames in while the transport is open, and takes what was sent (\<open>NextFrame\<close>, \<open>ReadFrame\<close>).\<close>

definition MakeFrame :: "byte \<Rightarrow> bytes \<Rightarrow> Frame" where
  "MakeFrame ty p = frame_of ty p"

definition NextFrame :: "FakeTransport \<Rightarrow> Frame option \<times> FakeTransport" where
  "NextFrame t =
    (case chan_recv (ft_Sent t) of
       Got f c \<Rightarrow> (Some f, t\<lparr>ft_Sent := c, ft_seen := ft_seen t @ [f]\<rparr>)
     | _ \<Rightarrow> (None, t))"

text \<open>\<open>AwaitFrame\<close> on what the channel will yield before the deadline: the frames it skips, and the first of the type, or a fatal error.\<close>

fun AwaitFrame :: "byte \<Rightarrow> Frame list \<Rightarrow> Frame option \<times> Frame list" where
  "AwaitFrame ty [] = (None, [])"
| "AwaitFrame ty (f # fs) = (if Type (Header_of f) = ty then (Some f, fs) else AwaitFrame ty fs)"

text \<open>\<open>AwaitResult\<close> does not skip a RESULT for another number: it fails.\<close>

definition AwaitResult :: "(bytes \<Rightarrow> Result res) \<Rightarrow> u64 \<Rightarrow> Frame list \<Rightarrow> Result option" where
  "AwaitResult decode refSeq fs =
    (case fst (AwaitFrame TypeResult fs) of
       None \<Rightarrow> None
     | Some f \<Rightarrow> (case decode (Payload f) of Inl _ \<Rightarrow> None | Inr r \<Rightarrow> if r_RefSeq r = refSeq then Some r else None))"

interpretation fake_control: receiver Fake_RecvControlFrame "\<lambda>t. gc_buf (ft_ControlIn t)" "\<lambda>t. gc_closed (ft_ControlIn t)"
  by unfold_locales (auto simp: Fake_RecvControlFrame_def select_recv_def chan_recv_def split: if_splits list.splits)

interpretation fake_data: receiver Fake_RecvDataFrame "\<lambda>t. gc_buf (ft_DataIn t)" "\<lambda>t. gc_closed (ft_DataIn t)"
  by unfold_locales (auto simp: Fake_RecvDataFrame_def select_recv_def chan_recv_def split: if_splits list.splits)

datatype fake_op = FPutControl Frame | FPutData Frame | FRecvControl bool "go_err option" | FRecvData bool "go_err option" | FCheck Frame | FSend bool nat | FNext | FClose

text \<open>A test that puts frames in only does so while the transport is open.\<close>

definition fake_put :: "Frame \<Rightarrow> Frame gochan \<Rightarrow> Frame gochan" where
  "fake_put f c = (case chan_send f c of Sent c' \<Rightarrow> c' | _ \<Rightarrow> c)"

fun fake_step :: "fake_op \<Rightarrow> FakeTransport \<Rightarrow> FakeTransport option" where
  "fake_step (FPutControl f) t = Some (t\<lparr>ft_ControlIn := fake_put f (ft_ControlIn t)\<rparr>)"
| "fake_step (FPutData f) t = Some (t\<lparr>ft_DataIn := fake_put f (ft_DataIn t)\<rparr>)"
| "fake_step (FRecvControl b e) t = Some (snd (Fake_RecvControlFrame b e t))"
| "fake_step (FRecvData b e) t = Some (snd (Fake_RecvDataFrame b e t))"
| "fake_step (FCheck f) t = Some (snd (fake_check f t))"
| "fake_step (FSend g i) t = fake_send g i t"
| "fake_step FNext t = Some (snd (NextFrame t))"
| "fake_step FClose t = Fake_Close t"

fun fake_run :: "fake_op list \<Rightarrow> FakeTransport \<Rightarrow> FakeTransport option" where
  "fake_run [] t = Some t"
| "fake_run (op # ops) t = (case fake_step op t of None \<Rightarrow> None | Some t' \<Rightarrow> fake_run ops t')"

definition fake_inv :: "FakeTransport \<Rightarrow> bool" where
  "fake_inv t \<longleftrightarrow> \<not> gc_closed (ft_Sent t) \<and> gc_closed (ft_ControlIn t) = ft_closed t \<and> gc_closed (ft_DataIn t) = ft_closed t \<and>
     ft_done t = ft_seen t @ gc_buf (ft_Sent t)"

lemma fake_put_closed [simp]: "gc_closed (fake_put f c) = gc_closed c"
  by (simp add: fake_put_def chan_send_def)

lemma fake_step_inv: "fake_inv t \<Longrightarrow> \<exists>t'. fake_step op t = Some t' \<and> fake_inv t'"
  by (cases op)
    (auto simp: fake_inv_def Fake_RecvControlFrame_def Fake_RecvDataFrame_def select_recv_def chan_recv_def fake_check_def fake_send_def chan_send_def
      NextFrame_def Fake_Close_def chan_close_def Let_def split: list.splits if_splits)

text \<open>
  The transport of the tests never panics, in whatever order it is used and closed: in particular a frame whose sender passed the check before
  \<open>Close\<close> is still sent. What the test sees and can still see is exactly what was reported as sent, in that order.
\<close>

theorem fake_transport_faithful:
  "\<exists>t. fake_run ops NewFakeTransport = Some t \<and> ft_done t = ft_seen t @ gc_buf (ft_Sent t) \<and>
     (ft_closed t \<longrightarrow> gc_closed (ft_ControlIn t) \<and> gc_closed (ft_DataIn t))"
proof -
  have "fake_inv t \<Longrightarrow> \<exists>t'. fake_run ops t = Some t' \<and> fake_inv t'" for t
  proof (induction ops arbitrary: t)
    case (Cons op ops)
    obtain t1 where "fake_step op t = Some t1" "fake_inv t1" using fake_step_inv [OF Cons.prems, of op] by blast
    then show ?case using Cons.IH [of t1] by simp
  qed simp
  moreover have "fake_inv NewFakeTransport" by (simp add: fake_inv_def NewFakeTransport_def)
  ultimately show ?thesis unfolding fake_inv_def by blast
qed

lemma AwaitFrame_skips:
  assumes "AwaitFrame ty fs = (Some f, rest)"
  shows "\<exists>skipped. fs = skipped @ f # rest \<and> Type (Header_of f) = ty \<and> (\<forall>g \<in> set skipped. Type (Header_of g) \<noteq> ty)"
  using assms
proof (induction fs)
  case (Cons g fs)
  show ?case
  proof (cases "Type (Header_of g) = ty")
    case True
    then show ?thesis using Cons.prems by (intro exI [of _ "[]"]) simp
  next
    case False
    then obtain sk where "fs = sk @ f # rest" "Type (Header_of f) = ty" "\<forall>h \<in> set sk. Type (Header_of h) \<noteq> ty" using Cons by auto
    then show ?thesis using False by (intro exI [of _ "g # sk"]) simp
  qed
qed simp

section \<open>Random fixtures\<close>

definition alphanum :: string where
  "alphanum = ''0123456789abcdefghijklmnopqrstuvwxyzABCDEFGHIJKLMNOPQRSTUVWXYZ''"

text \<open>\<open>draw\<close> is the random source: the \<open>i\<close>-th call of \<open>IntN n\<close> yields \<open>draw i mod n\<close>.\<close>

definition RandString :: "(nat \<Rightarrow> nat) \<Rightarrow> int \<Rightarrow> string" where
  "RandString draw n = (if n \<le> 0 then [] else map (\<lambda>i. alphanum ! (draw i mod length alphanum)) [0..<nat n])"

definition RandInt :: "(nat \<Rightarrow> nat) \<Rightarrow> int \<Rightarrow> int \<Rightarrow> int" where
  "RandInt draw lo hi = (if hi \<le> lo then lo else lo + int (draw 0) mod (hi - lo))"

definition RandAgentID :: "(nat \<Rightarrow> nat) \<Rightarrow> string" where
  "RandAgentID draw = ''agent-'' @ RandString draw 8"

definition RandToken :: "(nat \<Rightarrow> nat) \<Rightarrow> string" where
  "RandToken draw = ''tok-'' @ RandString draw 12"

definition hex_EncodeToString :: "bytes \<Rightarrow> string" where
  "hex_EncodeToString bs = concat (map (\<lambda>b. [hex_digits ! (unat b div 16), hex_digits ! (unat b mod 16)]) bs)"

text \<open>The loop draws blocks of bytes until one is not all zeros; it runs as long as the source yields zeros, and \<open>None\<close> is that it goes on.\<close>

fun randHexID :: "int \<Rightarrow> bytes list \<Rightarrow> string option" where
  "randHexID n [] = (if n \<le> 0 then Some [] else None)"
| "randHexID n (b # draws) =
    (if n \<le> 0 then Some []
     else
       let s = take (nat n) (hex_EncodeToString b)
       in if list_all (\<lambda>c. c = CHR ''0'') s then randHexID n draws else Some s)"

definition RandTraceID :: "bytes list \<Rightarrow> string option" where "RandTraceID = randHexID 32"
definition RandSpanID :: "bytes list \<Rightarrow> string option" where "RandSpanID = randHexID 16"

lemma alphanum_plain: "list_all plain_char alphanum"
  by (simp add: alphanum_def plain_char_def)

lemma RandString_chars: "set (RandString draw n) \<subseteq> set alphanum" "length (RandString draw n) = nat n"
proof -
  have "0 < length alphanum" by (simp add: alphanum_def)
  then show "set (RandString draw n) \<subseteq> set alphanum" by (auto simp: RandString_def intro!: nth_mem mod_less_divisor)
qed (simp add: RandString_def)

lemma hex_EncodeToString_props: "length (hex_EncodeToString bs) = 2 * length bs" "set (hex_EncodeToString bs) \<subseteq> set hex_digits"
proof -
  show "length (hex_EncodeToString bs) = 2 * length bs" by (induction bs) (auto simp: hex_EncodeToString_def)
  have "hex_digits ! k \<in> set hex_digits" if "k < 16" for k using that by (intro nth_mem) (simp add: hex_digits_def)
  moreover have "unat (b :: byte) div 16 < 16" for b using unsigned_less [where 'a = nat, of b] by simp
  ultimately show "set (hex_EncodeToString bs) \<subseteq> set hex_digits" by (auto simp: hex_EncodeToString_def)
qed

lemma hex_digit_zero: "k < 16 \<Longrightarrow> hex_digits ! k = CHR ''0'' \<longleftrightarrow> k = 0"
  using nth_eq_iff_index_eq [of hex_digits k 0] by (simp add: hex_digits_def)

lemma randHexID_ok:
  assumes "\<forall>b \<in> set draws. length b = k" "0 < k" "randHexID (int (2 * k)) draws = Some s"
  shows "trace_id_ok k s"
  using assms
proof (induction draws)
  case (Cons b draws)
  let ?s = "hex_EncodeToString b"
  have n: "length ?s = 2 * k" "set ?s \<subseteq> set hex_digits" using hex_EncodeToString_props [of b] Cons.prems(1) by simp_all
  show ?case
  proof (cases "list_all (\<lambda>c. c = CHR ''0'') ?s")
    case True
    then show ?thesis using Cons n by (simp add: nat_mult_distrib)
  next
    case False
    then have "s = ?s" using Cons.prems n by (simp add: nat_mult_distrib)
    then show ?thesis using n False by (auto simp: trace_id_ok_def list_all_iff)
  qed
qed simp

text \<open>
  What the fixtures produce is what the validators accept: whatever the random source yields, an agent id is valid, and the trace and span
  ids that come back are well-formed W3C identifiers. The loop behind them returns with the first block that is not all zeros.
\<close>

theorem fixtures_valid:
  assumes "\<forall>b \<in> set draws. length b = 16" "\<forall>b \<in> set draws'. length b = 8"
  shows "validateAgentID (RandAgentID draw) = None \<and>
    (\<forall>s. RandTraceID draws = Some s \<longrightarrow> validateHexID ''trace_id'' s 16 = None) \<and>
    (\<forall>s. RandSpanID draws' = Some s \<longrightarrow> validateHexID ''span_id'' s 8 = None)"
proof (intro conjI allI impI)
  have "list_all plain_char (RandString draw 8)" using RandString_chars(1) [of draw 8] alphanum_plain by (auto simp: list_all_iff)
  moreover have "list_all plain_char ''agent-''" by (simp add: plain_char_def)
  ultimately show "validateAgentID (RandAgentID draw) = None" using RandString_chars(2) [of draw 8]
    by (simp add: validateAgentID_def RandAgentID_def hasStrictControlChars_bytes MaxAgentIDLen_def)
  show "validateHexID ''trace_id'' s 16 = None" if "RandTraceID draws = Some s" for s
    using randHexID_ok [OF assms(1), of s] that by (simp add: RandTraceID_def validateHexID_ok)
  show "validateHexID ''span_id'' s 8 = None" if "RandSpanID draws' = Some s" for s
    using randHexID_ok [OF assms(2), of s] that by (simp add: RandSpanID_def validateHexID_ok)
qed

lemma hex_zero_block: "list_all (\<lambda>c. c = CHR ''0'') (hex_EncodeToString bs) \<longleftrightarrow> list_all (\<lambda>b. b = 0) bs"
proof -
  have "hex_digits ! (unat b div 16) = CHR ''0'' \<and> hex_digits ! (unat b mod 16) = CHR ''0'' \<longleftrightarrow> b = 0" for b :: byte
  proof -
    have "unat b div 16 < 16" using unsigned_less [where 'a = nat, of b] by simp
    then have "hex_digits ! (unat b div 16) = CHR ''0'' \<and> hex_digits ! (unat b mod 16) = CHR ''0'' \<longleftrightarrow> unat b div 16 = 0 \<and> unat b mod 16 = 0"
      by (simp add: hex_digit_zero)
    also have "\<dots> \<longleftrightarrow> unat b = 0" by (metis div_mult_mod_eq mod_0 div_0 add_0 mult_0)
    finally show ?thesis by (simp add: unat_eq_0)
  qed
  then show ?thesis by (induction bs) (auto simp: hex_EncodeToString_def)
qed

theorem fixtures_end:
  assumes "\<forall>b \<in> set draws. length b = 16" "b \<in> set draws" "\<exists>x \<in> set b. x \<noteq> 0"
  shows "\<exists>s. RandTraceID draws = Some s"
  using assms unfolding RandTraceID_def
proof (induction draws)
  case (Cons a draws)
  have n: "length (hex_EncodeToString a) = 32" using hex_EncodeToString_props(1) [of a] Cons.prems(1) by simp
  show ?case
  proof (cases "list_all (\<lambda>c. c = CHR ''0'') (hex_EncodeToString a)")
    case True
    then have "\<forall>x \<in> set a. x = 0" using hex_zero_block [of a] unfolding list_all_iff by blast
    then have "a \<noteq> b" using Cons.prems(3) by blast
    then have b: "b \<in> set draws" using Cons.prems(2) by auto
    have "\<forall>b \<in> set draws. length b = 16" using Cons.prems(1) by simp
    from Cons.IH [OF this b Cons.prems(3)] have "\<exists>s. randHexID 32 draws = Some s" .
    moreover have "randHexID 32 (a # draws) = randHexID 32 draws" using True n by simp
    ultimately show ?thesis by simp
  next
    case False
    then show ?thesis using n by simp
  qed
qed simp

end
