(* ===== verification/Spec2Isabelle.thy ===== *)
theory Spec2Isabelle
  imports ConnectionCredit Delivery Deduper ClientRuns Agreement FlowControl EndToEnd Facade Identifiers Metrics Conformance
begin

text \<open>
  A verification of \<open>mbta-go\<close>, the Go implementation of the MBTA telemetry protocol: agents send encrypted batches of signals
  to a server under a credit window, and the server answers each batch with a result and gives the credit back.

  \<^bold>\<open>The program and how it is represented.\<close> A session runs between one \<open>CoreClient\<close> (\<open>internal/protocol/client.go\<close>, \<open>client_control.go\<close>)
  and one \<open>CoreHandler\<close> (\<open>internal/protocol/handler.go\<close>, \<open>handler_batch.go\<close>, \<open>handler_sink.go\<close>). Both are built from the components of
  \<open>core/\<close>. The client sends HELLO with a token proof; the server checks it, derives the session keys and answers HELLO_ACK with a MAC over
  the whole transcript; then the client spends credit from its ledger for every BATCH, the server charges its manager, opens the envelope,
  validates the batch, hands it to the sink, settles it with a RESULT and returns credit with CREDIT frames. A Go struct is a record with the
  same fields (prefixed by the type), an enumeration a datatype or the word it is on the wire, \<open>int64\<close> and \<open>uint64\<close> are 64-bit words with
  the wrap-around of Go and \<open>sint\<close> where the source compares signed, an error is the left summand of a result. A function that changes its
  receiver returns the new one. A blocking function or a goroutine is split where it blocks, and each critical section of a lock is a step; the
  theorems about concurrent code are about every interleaving of these steps.

  \<^bold>\<open>Foundations.\<close> \<open>Prelude\<close> has the machine types, byte streams that may end in an error, association lists for maps that are iterated, the
  lemma collections and the interface of an account of credit. \<open>Errors\<close> is the registry of error codes and frame types (\<open>core/errors.go\<close>,
  \<open>core/types.go\<close>).

  \<^bold>\<open>Flow control\<close> (\<open>core/credit.go\<close>). \<open>Ledger\<close> is the client's sequence generator and \<open>CreditLedger\<close>, shown to implement an account over the
  integers. \<open>Manager\<close> is the server's \<open>CreditManager\<close> with its \<open>SettleGrant\<close>s. \<open>Interleave\<close> runs any number of grants against one manager in
  any order: admission decides as a deduplicator that remembers everything would, \<open>low\<close> is the first number not settled, and no number is
  settled twice while its entry is in the ring of terminal results. \<open>Conservation\<close> shows that the credit adds up. \<open>FlowControl\<close> joins
  ledger and manager by channels that delay and reorder: a client that keeps to its ledger never exceeds the server's window.

  \<^bold>\<open>Framing and sessions.\<close> \<open>Frame\<close> is \<open>core/frame.go\<close> over a byte stream, with the varint functions of the protobuf library as an interface
  that base 128 implements: round trip, canonical form, and the drain after a short read. \<open>Session\<close> is the two state machines
  (\<open>core/session.go\<close>), \<open>Policy\<close> the server's policy and the negotiation (\<open>core/policy.go\<close>, \<open>core/cipher.go\<close>), \<open>Messages\<close> the records of
  the generated \<open>corepb\<close> messages.

  \<^bold>\<open>Cryptography.\<close> \<open>Keys\<close> is the key schedule (\<open>core/keyschedule.go\<close>) over parameters for hash, MAC, key derivation and key agreement: the
  finished MAC binds the handshake. \<open>EnvelopeSeal\<close> is \<open>core/envelope.go\<close>: round trip, authenticity, separation of contexts, and the bound
  of the dictionary registry. \<open>Auth\<close> is \<open>core/auth.go\<close>, with the validator interface as a locale and the static validator as its instance.

  \<^bold>\<open>Payload.\<close> \<open>Validation\<close> is \<open>core/validation.go\<close> and \<open>core/message.go\<close>, \<open>Signal\<close> is \<open>core/signal.go\<close>, \<open>Codecs\<close> is the codec registry and the
  protobuf conversion (\<open>core/codec.go\<close>, \<open>core/codec_proto.go\<close>, \<open>core/codec_cbor.go\<close>): exact characterisations of what is accepted, and
  that a valid batch survives the codec. \<open>Deduper\<close> is \<open>core/deduper.go\<close>.

  \<^bold>\<open>The server.\<close> \<open>Commands\<close> is the command registry (\<open>internal/protocol/command_registry.go\<close>). \<open>Connection\<close> is the state of a connection and
  what its handlers share, \<open>Handshake\<close> the control loop with the handshake and its refusals, \<open>BatchPath\<close> the way of a batch through admission,
  charge, opening, validation and sink. \<open>Delivery\<close> shows the sink's promises, the reaper and the datagram limiter; \<open>ConnectionCredit\<close> that
  credit is conserved whatever peer, sink, reaper and timer do.

  \<^bold>\<open>The client.\<close> \<open>Client\<close> is the handshake, sending, the control loop with its handlers, and the shutdown. \<open>ClientRuns\<close> has every call and
  loop iteration as a step of a run: credit stays within the grant, no nonce is used twice, a closed client stays closed.

  \<^bold>\<open>Both ends.\<close> \<open>Agreement\<close> plays the client's handshake against the server's, \<open>EndToEnd\<close> follows a batch from the client's call into the
  server's sink queue; the two theorems are in this theory.

  \<^bold>\<open>Transports.\<close> \<open>Channels\<close> has the channels of the Go runtime, a frame in the pieces it is written in, and what the protocol loops expect of a
  receiver. \<open>TcpTransport\<close> is \<open>ntls/tcp_transport.go\<close>: the read loop, concurrent senders and \<open>Close\<close> as steps; the peer's stream is taken apart
  exactly and frames never mix on the wire. \<open>NtlsClientTransport\<close> is the client's side of it (\<open>ntls/client.go\<close>), with what goes wrong there at a
  torn write and at a close during a write. \<open>QuicTransport\<close> is the connection of \<open>v1/transport.go\<close> and the server's transport of \<open>v1/quic_transport.go\<close>:
  any number of data streams and datagrams are brought together without a panic, a loss or a change of order within a stream.

  \<^bold>\<open>Bindings.\<close> \<open>ServerLoop\<close> is \<open>internal/binding/server.go\<close> and \<open>server_generic.go\<close>: calls of \<open>Run\<close>, accept loops, connection handlers and \<open>Close\<close> in
  any interleaving; slots are conserved and no listener outlives its \<open>Run\<close>. \<open>Connect\<close> is \<open>Connect\<close> of both bindings over \<open>binding.Handshake\<close>
  (\<open>v1/client.go\<close>, \<open>ntls/client.go\<close>, \<open>internal/binding/client.go\<close>): racing calls leak no connection, and a call comes back.
  \<open>Credentials\<close> builds the TLS and TLCP configurations and dials and listens with them (\<open>internal/tlshelper\<close>, \<open>v1/transport.go\<close>,
  \<open>ntls/transport.go\<close>): configurations fail closed, sockets are accounted for. \<open>Bindings\<close> has the constructors of both bindings and the QUIC
  client's transport.

  \<^bold>\<open>The public interface.\<close> \<open>Facade\<close> is \<open>version.go\<close>, \<open>client.go\<close> and \<open>server.go\<close>: options, construction, profiles, start and close. A server that
  starts is well formed; client and server of one version agree on their profile.

  \<^bold>\<open>Support.\<close> \<open>Identifiers\<close> is \<open>core/ulid.go\<close>, \<open>Metrics\<close> the registration and the guarded counters of \<open>core/metrics.go\<close>, \<open>Conformance\<close> the transport
  in memory and the random fixtures the tests rest on (\<open>internal/conformance/fake_transport.go\<close>, \<open>internal/testutil/rand.go\<close>): it keeps the promises of the
  real transports, and the fixtures pass the validators.

  \<^bold>\<open>Interfaces.\<close> Locales state what one part relies on in another and are all interpreted on the model's definitions: an account of credit
  (by the ledger and by the manager), a state machine that only moves forward (by both session machines), a token validator (by the static
  validator), the varint functions (by base 128), a receiver of frames (by both channels of the TCP transport, by the QUIC
  transport's data channel and by the transport in memory), and what a binding hands to the connection set-up (by the QUIC and by the TCP binding).

  \<^bold>\<open>Code outside the repository\<close> is a parameter: the record \<open>crypto\<close> for the primitives, \<open>codecs\<close> for the compressors, the encoders and decoders
  of the protobuf and CBOR libraries, sockets, QUIC, TLS and certificate files (the records \<open>net\<close> and \<open>os\<close>), the
  ULID library and the metrics registry, the transport's write and close as the protocol core sees them, the application's sink and handlers, the refill of the datagram limiter
  in floating point, the clock and the random source. What a theorem relies on is a premise with a name: decryption inverts encryption
  (\<open>aead_roundtrip\<close>), nothing else decrypts (\<open>aead_tight\<close>), decompression inverts compression (\<open>codecs_roundtrip\<close>), key agreement commutes
  (\<open>ecdh_laws\<close>), the transport takes frames (\<open>wire_ok\<close>), only a closed
  listener reports that it is closed (\<open>accept_law\<close>), a metrics registry knows collectors by name (\<open>registry_laws\<close>). Each such theorem comes with an instance on concrete functions.

  \<^bold>\<open>Bounds and termination.\<close> No function uses fuel. Loops over lists are structural; the varint reader ends by its length limit, the advance of
  \<open>low\<close> by the finite set of accepted numbers, the reaper by the slots in flight, the decoding of UTF-8 by the bytes left, each with its
  measure. Background loops are modelled by their iterations, and runs of them by lists of steps or inductive relations. Time is an
  integer of nanoseconds supplied to each call.

  \<^bold>\<open>Not modelled.\<close> Log output, the text of errors beyond their message, and the places that count metrics; the marshalling in the generated
  protobuf code and the text form of a ULID, which are library code; memory pools and the zeroing of buffers other than the session keys; the joins of
  goroutines at the end of a client; accessors and delegating methods that only pass a call on; the example programs. The protocol core is joined to
  the transports by the parameters of its environment: the theorems about it hold for any transport, and those about the transports say which
  frames arrive.
\<close>

text \<open>
  C1. A client that holds a registered token and a server agree. The client sends its HELLO; the server answers it in one round with a
  HELLO_ACK; and whatever payload the client decodes to that acknowledgement completes its handshake. Then both sides are ready with the same
  session keys, session id, capabilities, codec and expiry, the server has authenticated the client's agent, and the client's ledger starts
  with exactly the credit of the server's policy. The premises are the laws of the libraries, a valid policy, and that encoding,
  key derivation and the transport do not fail.
\<close>

theorem handshake_agreement:
  fixes K :: cenv and E :: env and c :: CoreClient and h :: CoreHandler and hello rnd tk sh
  defines "policy \<equiv> hc_Policy (ch_config h)"
  defines "sel \<equiv> selectedCaps policy hello"
  assumes "ecdh_laws (k_crypto K)" "e_crypto E = k_crypto K" "\<forall>a. \<exists>b. c_marshal_ack (k_crypto K) a = Inr b"
    and "\<forall>h k m. c_hmac (k_crypto K) h k m \<noteq> []"
    and "sm_state (ct_sm c) = StateIdle" "sendHello K rnd c = (Inr (priv, hello, th), c1)" "ValidateHello (Some hello) = None"
    and "e_dec_hello E payload = Inr hello"
    and "cg_Profile (ct_cfg c) = sp_Profile policy" "Policy_Validate policy = None"
    and "hc_ResolveToken (ch_config h) (cg_AgentID (ct_cfg c)) = Inr toks" "cg_Token (ct_cfg c) \<in> set toks"
    and "ssm_state (ch_sm h) = ServerStateHandshaking" "hc_RedirectChecker (ch_config h) = None" "wire_ok E"
    and "fst (deriveServerKeys E tk (h_Profile hello) (h_ClientEph hello) th (h_TokenProof hello) sel h) = Inr (keys, eph)"
    and "0 < sint (Unix (tk_now tk + DefaultSessionTTL))"
  shows "\<exists>h' sh' ack. handleHello E tk me payload (h, sh) = (None, h', sh') \<and>
    ch_sent h' = ch_sent h @ MHelloAck ack # dict_frames policy sel \<and>
    ssm_state (ch_sm h') = ServerStateReady \<and> ch_authed h' \<and> ch_agentID h' = cg_AgentID (ct_cfg c) \<and> ch_keys h' = Some keys \<and>
    (\<forall>ackp. k_dec_ack K ackp = Inr ack \<longrightarrow> (\<exists>c2. handshakeReply K priv hello th (Inr (TypeHelloAck, ackp)) c1 = (None, c2) \<and>
      sm_state (ct_sm c2) = StateReady \<and> ct_keys c2 = Some keys \<and> ct_sessionID c2 = Some (ch_sessionID h') \<and>
      ct_negCaps c2 = ch_negCaps h' \<and> ct_codec c2 = ch_codec h' \<and> ct_expiry c2 = ch_expiresAt h' \<and>
      ct_ledger c2 = Some (NewCreditLedger (sp_InitialCreditBatches policy) (sp_InitialCreditBytes policy) 0 0)))"
  using handshake_agreement_eq [OF assms(3-19) [unfolded sel_def policy_def]] unfolding sel_def policy_def .

theorem handshake_agreement_witness:
  "\<exists>h' sh'. handleHello agree_server demo_tick 0 [] (demo_handler, demo_shared) = (None, h', sh') \<and> ssm_state (ch_sm h') = ServerStateReady \<and>
     ch_agentID h' = ''a''"
proof -
  let ?th = "transcriptHash agree_crypto PROFILE_INTL [bytes_of (ProfileName PROFILE_INTL), bytes_of ''a'']"
  obtain c1 where c1: "sendHello agree_client (Inr [5]) demo_client =
     (Inr (\<lparr>ek_profile = PROFILE_INTL, ek_x25519 = Some [5], ek_sm2 = None\<rparr>, agree_hello, ?th), c1)"
    using agree_sends by blast
  obtain keys eph where ke: "fst (deriveServerKeys agree_server demo_tick (h_Profile agree_hello) (h_ClientEph agree_hello) ?th
      (h_TokenProof agree_hello) (selectedCaps (hc_Policy (ch_config demo_handler)) agree_hello) demo_handler) = Inr (keys, eph)"
    using agree_server_keys by blast
  have k: "k_crypto agree_client = agree_crypto" "e_crypto agree_server = agree_crypto" by (simp_all add: agree_client_def agree_server_def)
  have cfg: "cg_Profile (ct_cfg demo_client) = sp_Profile (hc_Policy (ch_config demo_handler))" "cg_AgentID (ct_cfg demo_client) = ''a''"
    "cg_Token (ct_cfg demo_client) = ''t''"
    by (simp_all add: demo_client_def NewCoreClient_def demo_config_def DefaultServerPolicy_def)
  have tok: "hc_ResolveToken (ch_config demo_handler) (cg_AgentID (ct_cfg demo_client)) = Inr [''t'']"
    by (simp add: cfg demo_config_def new_validator)
  have pol: "Policy_Validate (hc_Policy (ch_config demo_handler)) = None" using Policy_Validate_iff [of "DefaultServerPolicy PROFILE_INTL"] by (simp add: demo_config_def)
  have w: "wire_ok agree_server" using demo_wire by (simp add: wire_ok_def sendable_def agree_server_def)
  have d: "e_dec_hello agree_server [] = Inr agree_hello" by (simp add: agree_server_def)
  have t: "0 < sint (Unix (tk_now demo_tick + DefaultSessionTTL))" by (simp add: Unix_def demo_tick_def DefaultSessionTTL_def)
  show ?thesis
    using handshake_agreement [OF _ _ _ _ _ c1 agree_hello_valid d cfg(1) pol tok _ _ _ w ke t, of 0 demo_shared] agree_laws cfg
    unfolding k by (auto simp: demo_config_def)
qed

text \<open>
  C2. A batch arrives as it was sent. Once the client has validated, encoded and sealed a batch under a sequence number, and the server that
  shares the session has admitted that number, charged it and has room in its sink queue, \<open>processBatch\<close> puts exactly one task at the end of
  the queue, and its event carries the agent of the connection, the sequence number, the trace context and the batch itself, with every dynamic value in the
  canonical type of its kind. The premises are the laws of the AEAD and the compressors, that the decoders invert the encoders on these
  messages, and that the batch is within the server's limits.
\<close>

theorem batch_delivered_intact:
  assumes "encodeAndSeal K now sb sc TypeBatch c = (Inr (payload, seq), c')" "same_session K E c h" "ct_codec c \<in> {None, Some CODEC_PROTO}"
    and "aead_roundtrip (k_crypto K)" "codecs_roundtrip (k_codecs K)"
    and "\<And>e b. k_encode K (CEnvelope e) = Inr b \<Longrightarrow> e_dec_envelope E b = Inr e"
    and "k_signal_codecs K = builtin_codecs pm pu cm cu" "SignalBatch_Validate sb = None"
    and "toProtoSignalBatch sb = Some p" "pm p = Inr wire" "pu wire = Inr p" "wire \<noteq> []"
    and "k_encode K (CBatch (batch_message seq sc sb wire)) = Inr bw" "e_dec_batch E bw = Inr (batch_message seq sc sb wire)"
    and "acceptable now' h (batch_message seq sc sb wire) bw" "room h (len64 payload)"
    and "h_admit seq now' h = (ar, i, h1)" "ar_Decision ar = AdmitAccept" "h_consume i (len64 payload) h1 = (None, h2)"
  shows "\<exists>t. ch_sinkQueue (processBatch E now' False payload h) = map_option (\<lambda>q. q @ [t]) (ch_sinkQueue h) \<and>
    ev_Agent (st_ev t) = ch_agentID h \<and> ev_Seq (st_ev t) = seq \<and> ev_Trace (st_ev t) = sc_TraceContext sc \<and>
    ev_Decoded (st_ev t) = Some (canonical_batch sb)"
  using batch_delivered_eq [OF assms] .

theorem batch_delivered_intact_witness:
  "\<exists>payload t. ch_sinkQueue (processBatch e2e_env 0 False payload e2e_server) = Some [t] \<and> ev_Decoded (st_ev t) = Some (canonical_batch demo_batch)"
proof -
  obtain payload c' where s: "encodeAndSeal e2e_cenv 0 demo_batch \<lparr>sc_TraceContext = None\<rparr> TypeBatch e2e_client = (Inr (payload, 1), c')"
    and "length payload = 22" using e2e_sealed by blast
  then have l: "len64 payload = 22" by (simp add: len64_def)
  obtain p where p: "toProtoSignalBatch demo_batch = Some p" using e2e_proto by blast
  obtain ar i h1 h2 where a: "h_admit 1 0 e2e_server = (ar, i, h1)" "ar_Decision ar = AdmitAccept" "h_consume i (len64 payload) h1 = (None, h2)"
    using e2e_admitted unfolding l by blast
  have w: "k_signal_codecs e2e_cenv = builtin_codecs (\<lambda>_. Inr [3]) (\<lambda>_. Inr p) (\<lambda>_. Inr []) (\<lambda>_. Inl codec_panic)"
    by (simp add: e2e_cenv_def e2e_wire_def p)
  show ?thesis
    using batch_delivered_intact [where wire = "[3]" and bw = "[1]" and pm = "\<lambda>_. Inr [3]" and pu = "\<lambda>_. Inr p",
        OF s e2e_premises(1) _ _ _ _ w demo_batch_valid p _ _ _ _ _ _ _ a] e2e_premises demo_laws demo_unmarshal_marshal
    by (auto simp: l e2e_batch_def [symmetric] e2e_server_def)
qed

end
